(* ===== verification/CppStrings.thy ===== *)
theory CppStrings
  imports Prelude
begin

text \<open>
  The C++ standard library operations on \<^verbatim>\<open>std::string\<close> that the gateway's sources use. A string is
  the list of its bytes (a HOL \<open>char\<close> is one byte), so \<open>length\<close> is \<^verbatim>\<open>size()\<close>. \<^verbatim>\<open>npos\<close> is \<open>None\<close>.
  Numbers are parsed the way the called library function does it: \<open>sto_int\<close> is \<^verbatim>\<open>std::stoi/stoll\<close>
  (leading blanks, an optional sign, the longest digit run, an exception when there is none or when
  the value does not fit), \<open>from_chars_int\<close> is \<^verbatim>\<open>std::from_chars\<close> (no blanks, no plus sign).
\<close>

section \<open>Searching and slicing\<close>

fun find_char :: "char \<Rightarrow> string \<Rightarrow> nat option" where
  "find_char c [] = None"
| "find_char c (x # xs) = (if x = c then Some 0 else map_option Suc (find_char c xs))"

definition starts_with :: "string \<Rightarrow> string \<Rightarrow> bool" where
  "starts_with p s \<longleftrightarrow> take (length p) s = p"

fun find_str :: "string \<Rightarrow> string \<Rightarrow> nat option" where
  "find_str p [] = (if p = [] then Some 0 else None)"
| "find_str p (x # xs) =
     (if starts_with p (x # xs) then Some 0 else map_option Suc (find_str p xs))"

definition substr_from :: "nat \<Rightarrow> string \<Rightarrow> string" where
  "substr_from = drop"

lemma find_char_None [simp]: "find_char c s = None \<longleftrightarrow> c \<notin> set s"
  by (induction s) auto

lemma find_char_append:
  "find_char c (a @ b) =
     (if c \<in> set a then find_char c a else map_option (\<lambda>i. i + length a) (find_char c b))"
  by (induction a) (auto simp: option.map_comp comp_def option.map_ident)

lemma find_char_first [str_simps]: "c \<notin> set a \<Longrightarrow> find_char c (a @ c # b) = Some (length a)"
  by (simp add: find_char_append)

lemma find_char_Some:
  "find_char c s = Some i \<Longrightarrow> i < length s \<and> s ! i = c \<and> c \<notin> set (take i s)"
  by (induction s arbitrary: i) (auto split: if_splits)

lemma find_char_split:
  "find_char c s = Some i \<Longrightarrow> s = take i s @ c # drop (Suc i) s \<and> c \<notin> set (take i s)"
  using find_char_Some [of c s i] id_take_nth_drop [of i s] by auto

lemma starts_with_append [simp]: "starts_with p (p @ s)"
  by (simp add: starts_with_def)

lemma starts_with_iff: "starts_with p s \<longleftrightarrow> (\<exists>r. s = p @ r)"
  by (metis append_take_drop_id append_eq_conv_conj starts_with_def)

section \<open>ASCII classes\<close>

definition is_digit :: "char \<Rightarrow> bool" where
  "is_digit c \<longleftrightarrow> 48 \<le> (of_char c :: nat) \<and> (of_char c :: nat) \<le> 57"

definition digit_val :: "char \<Rightarrow> nat" where
  "digit_val c = of_char c - 48"

definition digit_chr :: "nat \<Rightarrow> char" where
  "digit_chr d = char_of (d + 48)"

text \<open>\<^verbatim>\<open>isspace\<close> of the C locale, as \<^verbatim>\<open>std::stoll\<close> and \<^verbatim>\<open>sscanf\<close> skip it.\<close>

definition is_space :: "char \<Rightarrow> bool" where
  "is_space c \<longleftrightarrow> (of_char c :: nat) = 32 \<or> (9 \<le> (of_char c :: nat) \<and> (of_char c :: nat) \<le> 13)"

definition ascii_lower :: "char \<Rightarrow> char" where
  "ascii_lower c =
     (if 65 \<le> (of_char c :: nat) \<and> (of_char c :: nat) \<le> 90 then char_of ((of_char c :: nat) + 32) else c)"

lemma digit_chr_digit [simp]: "d < 10 \<Longrightarrow> is_digit (digit_chr d)"
  by (simp add: is_digit_def digit_chr_def)

lemma digit_val_chr [simp]: "d < 10 \<Longrightarrow> digit_val (digit_chr d) = d"
  by (simp add: digit_val_def digit_chr_def)

lemma digit_val_less [simp]: "is_digit c \<Longrightarrow> digit_val c < 10"
  by (auto simp: is_digit_def digit_val_def)

lemma digit_not_space: "is_digit c \<Longrightarrow> \<not> is_space c"
  by (auto simp: is_digit_def is_space_def)

lemma ascii_lower_idem [simp]: "ascii_lower (ascii_lower c) = ascii_lower c"
  by (auto simp: ascii_lower_def)

section \<open>Decimal numerals\<close>

text \<open>The value of a digit string, most significant digit first.\<close>

definition digits_value :: "string \<Rightarrow> nat" where
  "digits_value s = foldl (\<lambda>a c. 10 * a + digit_val c) 0 s"

text \<open>\<^verbatim>\<open>std::to_string\<close> of an unsigned and of a signed number.\<close>

fun nat_to_string :: "nat \<Rightarrow> string" where
  "nat_to_string n = (if n < 10 then [digit_chr n] else nat_to_string (n div 10) @ [digit_chr (n mod 10)])"

declare nat_to_string.simps [simp del]

definition int_to_string :: "int \<Rightarrow> string" where
  "int_to_string i = (if i < 0 then CHR ''-'' # nat_to_string (nat (- i)) else nat_to_string (nat i))"

lemma digits_value_snoc: "digits_value (s @ [c]) = 10 * digits_value s + digit_val c"
  by (simp add: digits_value_def)

lemma digits_value_nat_to_string [simp]: "digits_value (nat_to_string n) = n"
proof (induction n rule: nat_to_string.induct)
  case (1 n)
  show ?case
  proof (cases "n < 10")
    case True
    then show ?thesis by (subst nat_to_string.simps) (simp add: digits_value_def)
  next
    case False
    then show ?thesis
      using 1 by (subst nat_to_string.simps) (simp add: digits_value_snoc)
  qed
qed

lemma nat_to_string_digits: "list_all is_digit (nat_to_string n) \<and> nat_to_string n \<noteq> []"
proof (induction n rule: nat_to_string.induct)
  case (1 n)
  show ?case
  proof (cases "n < 10")
    case True
    then show ?thesis by (subst (1 2) nat_to_string.simps) simp
  next
    case False
    then show ?thesis using 1 by (subst (1 2) nat_to_string.simps) simp
  qed
qed

lemma nat_to_string_nonempty [simp]: "nat_to_string n \<noteq> []"
  using nat_to_string_digits by simp

lemma nat_to_string_all_digits [simp]: "c \<in> set (nat_to_string n) \<Longrightarrow> is_digit c"
  using nat_to_string_digits by (simp add: list_all_iff)

lemma takeWhile_digits_nat_to_string [simp]:
  "takeWhile is_digit (nat_to_string n) = nat_to_string n"
  by (simp add: takeWhile_eq_all_conv)

lemma nat_to_string_inj [simp]: "nat_to_string a = nat_to_string b \<longleftrightarrow> a = b"
  by (metis digits_value_nat_to_string)

lemma hd_nat_to_string_digit: "is_digit (hd (nat_to_string n))"
  using hd_in_set [OF nat_to_string_nonempty] by (rule nat_to_string_all_digits)

lemma digit_not_sign: "is_digit c \<Longrightarrow> c \<noteq> CHR ''-'' \<and> c \<noteq> CHR ''+'' \<and> c \<noteq> CHR '',''"
  by (auto simp: is_digit_def)

lemma dash_not_digit [simp]: "\<not> is_digit CHR ''-''"
  by (simp add: is_digit_def)

lemma dash_not_in_nat_to_string [simp]: "CHR ''-'' \<notin> set (nat_to_string n)"
  using nat_to_string_all_digits [of "CHR ''-''" n] by auto

lemma comma_not_in_nat_to_string [simp]: "CHR '','' \<notin> set (nat_to_string n)"
  using nat_to_string_all_digits [of "CHR '',''" n] by (auto simp: is_digit_def)

lemma digits_value_less: "list_all is_digit s \<Longrightarrow> digits_value s < 10 ^ length s"
proof (induction s rule: rev_induct)
  case Nil
  then show ?case by (simp add: digits_value_def)
next
  case (snoc c s)
  then have "digits_value s < 10 ^ length s" and "digit_val c < 10" by simp_all
  then show ?case by (simp add: digits_value_snoc)
qed

section \<open>Number parsing\<close>

text \<open>
  What \<^verbatim>\<open>strtol\<close> and its kin see of a text: the leading blanks, the sign, the digit run, and what
  follows is not looked at. The result is the sign (true for minus), the digits, and the number of
  characters used.
\<close>

definition minus_sign :: "string \<Rightarrow> bool" where
  "minus_sign s = (case s of c # _ \<Rightarrow> c = CHR ''-'' | [] \<Rightarrow> False)"

definition scan_number :: "string \<Rightarrow> bool \<times> string \<times> nat" where
  "scan_number s =
     (let blanks = length (takeWhile is_space s);
          t = drop blanks s;
          sgn = (case t of c # _ \<Rightarrow> if c = CHR ''-'' \<or> c = CHR ''+'' then 1 else 0 | [] \<Rightarrow> 0);
          neg = minus_sign t;
          ds = takeWhile is_digit (drop sgn t)
      in (neg, ds, blanks + sgn + length ds))"

text \<open>
  \<^verbatim>\<open>std::stoi\<close> and \<^verbatim>\<open>std::stoll\<close> for a type with bounds \<open>lo\<close>, \<open>hi\<close>: \<open>None\<close> is the exception
  (\<^verbatim>\<open>invalid_argument\<close> or \<^verbatim>\<open>out_of_range\<close>, which every caller here catches alike); otherwise the value
  and the position of the first character not used.
\<close>

definition sto_int :: "int \<Rightarrow> int \<Rightarrow> string \<Rightarrow> (int \<times> nat) option" where
  "sto_int lo hi s =
     (case scan_number s of (neg, ds, pos) \<Rightarrow>
        let v = (if neg then - int (digits_value ds) else int (digits_value ds))
        in if ds = [] then None else if v < lo \<or> hi < v then None else Some (v, pos))"

definition int64_min :: int where "int64_min = - 9223372036854775808"
definition int64_max :: int where "int64_max = 9223372036854775807"
definition int32_min :: int where "int32_min = - 2147483648"
definition int32_max :: int where "int32_max = 2147483647"
definition uint64_max :: nat where "uint64_max = 18446744073709551615"

lemmas int_bounds = int64_min_def int64_max_def int32_min_def int32_max_def uint64_max_def

definition stoll :: "string \<Rightarrow> (int \<times> nat) option" where
  "stoll = sto_int int64_min int64_max"

definition stoi :: "string \<Rightarrow> (int \<times> nat) option" where
  "stoi = sto_int int32_min int32_max"

text \<open>\<^verbatim>\<open>std::stoull\<close>: a minus sign negates modulo \<open>2^64\<close>; a magnitude above \<open>2^64 - 1\<close> throws.\<close>

definition stoull :: "string \<Rightarrow> u64 option" where
  "stoull s =
     (case scan_number s of (neg, ds, pos) \<Rightarrow>
        if ds = [] \<or> uint64_max < digits_value ds then None
        else Some (if neg then - of_nat (digits_value ds) else of_nat (digits_value ds)))"

text \<open>\<^verbatim>\<open>std::from_chars\<close> in base 10: the longest match of an optional minus (signed types only) and digits.\<close>

datatype from_chars_result = FC_invalid | FC_out_of_range | FC_ok int nat

definition from_chars :: "bool \<Rightarrow> int \<Rightarrow> int \<Rightarrow> string \<Rightarrow> from_chars_result" where
  "from_chars sgnd lo hi s =
     (let neg = (sgnd \<and> minus_sign s);
          sgn = (if neg then 1 else 0);
          ds = takeWhile is_digit (drop sgn s);
          v = (if neg then - int (digits_value ds) else int (digits_value ds))
      in if ds = [] then FC_invalid
         else if v < lo \<or> hi < v then FC_out_of_range
         else FC_ok v (sgn + length ds))"

lemma minus_sign_simps [simp]:
  "minus_sign [] = False"
  "minus_sign (c # s) = (c = CHR ''-'')"
  by (simp_all add: minus_sign_def)

lemma minus_sign_digit: "is_digit c \<Longrightarrow> \<not> minus_sign (c # s)"
  using digit_not_sign by simp

lemma minus_sign_nat [simp]: "\<not> minus_sign (nat_to_string n)"
  using hd_nat_to_string_digit [of n] minus_sign_digit
  by (cases "nat_to_string n") auto

lemma scan_number_nat_append:
  "(case r of c # _ \<Rightarrow> \<not> is_digit c | [] \<Rightarrow> True) \<Longrightarrow>
   scan_number (nat_to_string n @ r) = (False, nat_to_string n, length (nat_to_string n))"
proof -
  assume r: "case r of c # _ \<Rightarrow> \<not> is_digit c | [] \<Rightarrow> True"
  obtain c t where ct: "nat_to_string n = c # t" by (cases "nat_to_string n") auto
  then have c: "is_digit c" using nat_to_string_all_digits [of c n] by simp
  have tk: "takeWhile is_digit (nat_to_string n @ r) = nat_to_string n"
    using r by (subst takeWhile_append2) (auto split: list.splits)
  show ?thesis
    using c digit_not_space [OF c] digit_not_sign [OF c] tk ct by (simp add: scan_number_def)
qed

lemma scan_number_nat [simp]:
  "scan_number (nat_to_string n) = (False, nat_to_string n, length (nat_to_string n))"
  using scan_number_nat_append [of "[]" n] by simp

lemma scan_number_neg [simp]:
  "scan_number (CHR ''-'' # nat_to_string n) = (True, nat_to_string n, Suc (length (nat_to_string n)))"
  by (simp add: scan_number_def is_space_def Let_def)

lemma scan_number_digits:
  assumes "list_all is_digit s"
  shows "scan_number s = (False, s, length s)"
proof -
  have tk: "takeWhile is_digit s = s"
    using assms by (simp add: takeWhile_eq_all_conv list_all_iff)
  show ?thesis
  proof (cases s)
    case Nil
    then show ?thesis by (simp add: scan_number_def)
  next
    case (Cons c t)
    then have "is_digit c" using assms by simp
    moreover from this tk Cons have "takeWhile is_digit t = t"
      by (metis list.inject takeWhile.simps(2))
    ultimately show ?thesis
      using Cons digit_not_space [of c] digit_not_sign [of c]
      by (simp add: scan_number_def Let_def del: takeWhile_eq_all_conv)
  qed
qed

lemma sto_int_of_string:
  "lo \<le> i \<Longrightarrow> i \<le> hi \<Longrightarrow> sto_int lo hi (int_to_string i) = Some (i, length (int_to_string i))"
  by (auto simp: sto_int_def int_to_string_def Let_def)

lemma sto_int_bounds: "sto_int lo hi s = Some (v, p) \<Longrightarrow> lo \<le> v \<and> v \<le> hi"
  by (auto simp: sto_int_def Let_def split: if_splits prod.splits)

lemma stoull_digits:
  assumes "list_all is_digit s" "s \<noteq> []"
  shows "stoull s = (if uint64_max < digits_value s then None else Some (of_nat (digits_value s)))"
  using assms by (simp add: stoull_def scan_number_digits)

lemma from_chars_nat:
  "int n \<le> hi \<Longrightarrow> lo \<le> int n \<Longrightarrow>
   from_chars sgnd lo hi (nat_to_string n) = FC_ok (int n) (length (nat_to_string n))"
  by (simp add: from_chars_def Let_def)

lemma from_chars_ok:
  "from_chars sgnd lo hi s = FC_ok v p \<Longrightarrow> lo \<le> v \<and> v \<le> hi"
  by (auto simp: from_chars_def Let_def split: if_splits)

section \<open>Splitting lines\<close>

text \<open>
  The successive results of \<^verbatim>\<open>std::getline(in, item, d)\<close>: a delimiter ends an item; text after the last
  delimiter is an item when it is not empty.
\<close>

fun getlines_from :: "char \<Rightarrow> string \<Rightarrow> string \<Rightarrow> string list" where
  "getlines_from d acc [] = (if acc = [] then [] else [acc])"
| "getlines_from d acc (c # cs) =
     (if c = d then acc # getlines_from d [] cs else getlines_from d (acc @ [c]) cs)"

definition getlines :: "char \<Rightarrow> string \<Rightarrow> string list" where
  "getlines d s = getlines_from d [] s"

lemma getlines_from_item:
  "d \<notin> set w \<Longrightarrow> getlines_from d acc (w @ d # r) = (acc @ w) # getlines_from d [] r"
  by (induction w arbitrary: acc) auto

lemma getlines_item: "d \<notin> set w \<Longrightarrow> getlines d (w @ d # r) = w # getlines d r"
  by (simp add: getlines_def getlines_from_item)

lemma getlines_from_last:
  "d \<notin> set w \<Longrightarrow> acc @ w \<noteq> [] \<Longrightarrow> getlines_from d acc w = [acc @ w]"
  by (induction w arbitrary: acc) auto

lemma getlines_last: "d \<notin> set w \<Longrightarrow> w \<noteq> [] \<Longrightarrow> getlines d w = [w]"
  by (simp add: getlines_def getlines_from_last)

lemma getlines_from_no_delim:
  "d \<notin> set acc \<Longrightarrow> \<forall>x \<in> set (getlines_from d acc s). d \<notin> set x"
proof (induction s arbitrary: acc)
  case Nil
  then show ?case by simp
next
  case (Cons a s)
  from Cons.IH [of "[]"] Cons.IH [of "acc @ [a]"] Cons.prems show ?case by simp
qed

lemma getlines_no_delim: "x \<in> set (getlines d s) \<Longrightarrow> d \<notin> set x"
  using getlines_from_no_delim [of d "[]" s] by (simp add: getlines_def)

end
