(* ===== verification/Config.thy ===== *)
theory Config
  imports CppStrings
begin

text \<open>
  \<^verbatim>\<open>src/src/config/config.cpp\<close>: the configuration read once at the start from environment variables and
  secret files. The process environment and the file system are the record \<open>os\<close>; every
  \<^verbatim>\<open>throw std::runtime_error\<close> is a constructor of \<open>config_error\<close> that carries what the message names.
  \<^verbatim>\<open>Config::load\<close> is a sequence of assignments to the fields of one object; each is a \<open>setting\<close>, and \<open>load\<close>
  runs them in the order of the source, so the first one that throws decides the error.
\<close>

section \<open>Reading one variable\<close>

record os =
  os_getenv :: "string \<Rightarrow> string option"
  os_file :: "string \<Rightarrow> string option"

datatype config_error =
    CannotRead string
  | MissingConfig string
  | OutOfRange string string
  | NotANumber string string
  | BadSessionId string
  | PauseBudget

definition config_blank :: "char \<Rightarrow> bool" where
  "config_blank c \<longleftrightarrow> c \<in> {CHR '' '', CHR 0x09, CHR 0x0D, CHR 0x0A}"

definition trim :: "string \<Rightarrow> string" where
  "trim s = rev (dropWhile config_blank (rev (dropWhile config_blank s)))"

definition readFile :: "os \<Rightarrow> string \<Rightarrow> (config_error, string) result" where
  "readFile w path = (case os_file w path of None \<Rightarrow> Inl (CannotRead path) | Some s \<Rightarrow> Inr (trim s))"

definition envOrFile :: "os \<Rightarrow> string \<Rightarrow> string \<Rightarrow> (config_error, string) result" where
  "envOrFile w name fallback =
     (case os_getenv w (name @ ''_FILE'') of
        Some fp \<Rightarrow> readFile w fp
      | None \<Rightarrow> (case os_getenv w name of Some v \<Rightarrow> Inr (trim v) | None \<Rightarrow> Inr fallback))"

definition require :: "os \<Rightarrow> string \<Rightarrow> (config_error, string) result" where
  "require w name = bindE (envOrFile w name []) (\<lambda>v. if v = [] then Inl (MissingConfig name) else Inr v)"

text \<open>The integer types the code parses into: whether a sign is read, and the bounds.\<close>

datatype num_type = Int32 | UInt16 | UInt64

definition num_signed :: "num_type \<Rightarrow> bool" where
  "num_signed t \<longleftrightarrow> t = Int32"

definition num_lo :: "num_type \<Rightarrow> int" where
  "num_lo t = (if t = Int32 then int32_min else 0)"

definition num_hi :: "num_type \<Rightarrow> int" where
  "num_hi t = (case t of Int32 \<Rightarrow> int32_max | UInt16 \<Rightarrow> 65535 | UInt64 \<Rightarrow> int uint64_max)"

definition parseNumericEnv :: "num_type \<Rightarrow> string \<Rightarrow> string \<Rightarrow> (config_error, int) result" where
  "parseNumericEnv t name value =
     (case from_chars (num_signed t) (num_lo t) (num_hi t) value of
        FC_out_of_range \<Rightarrow> Inl (OutOfRange name value)
      | FC_invalid \<Rightarrow> Inl (NotANumber name value)
      | FC_ok v pos \<Rightarrow> if pos \<noteq> length value then Inl (NotANumber name value) else Inr v)"

definition safeSegmentChar :: "char \<Rightarrow> bool" where
  "safeSegmentChar c \<longleftrightarrow>
     (let n = (of_char c :: nat)
      in (65 \<le> n \<and> n \<le> 90) \<or> (97 \<le> n \<and> n \<le> 122) \<or> (48 \<le> n \<and> n \<le> 57)
         \<or> c = CHR ''.'' \<or> c = CHR ''_'' \<or> c = CHR ''-'')"

definition isSafeSegment :: "string \<Rightarrow> bool" where
  "isSafeSegment s \<longleftrightarrow> \<not> (s = [] \<or> s = ''.'' \<or> s = ''..'') \<and> list_all safeSegmentChar s"

section \<open>The configuration\<close>

record s3_config =
  s3_endpoint :: string
  s3_region :: string
  s3_bucket :: string
  s3_key :: string
  s3_access_key :: string
  s3_secret_key :: string
  s3_path_style :: bool

record kafka_config =
  kf_brokers :: string
  kf_topic :: string
  kf_client_id :: string

record config =
  cf_api_id :: int
  cf_api_hash :: string
  cf_database_encryption_key :: string
  cf_session_b64 :: string
  cf_session_id :: string
  cf_database_directory :: string
  cf_files_directory :: string
  cf_use_test_dc :: bool
  cf_keep_online :: bool
  cf_keep_online_interval_seconds :: int
  cf_webhooks_enabled :: bool
  cf_session_export_enabled :: bool
  cf_webhook_timeout_ms :: int
  cf_webhook_queue_max :: int
  cf_webhook_ssrf_guard :: bool
  cf_tdlib_log_verbosity :: int
  cf_humanize_typing :: bool
  cf_humanize_chars_per_minute :: int
  cf_humanize_jitter_percent :: int
  cf_humanize_min_delay_ms :: int
  cf_humanize_max_delay_ms :: int
  cf_humanize_id_wait_ms :: int
  cf_idle_connection_timeout_seconds :: int
  cf_listen_address :: string
  cf_listen_port :: int
  cf_bearer_tokens :: "string list"
  cf_max_upload_bytes :: int
  cf_max_memory_body_bytes :: int
  cf_ws_max_pending_bytes :: int
  cf_s3 :: s3_config
  cf_s3_sync_interval_seconds :: int
  cf_kafka :: kafka_config

definition default_s3 :: s3_config where
  "default_s3 = \<lparr>s3_endpoint = [], s3_region = [], s3_bucket = [], s3_key = [],
     s3_access_key = [], s3_secret_key = [], s3_path_style = True\<rparr>"

definition default_kafka :: kafka_config where
  "default_kafka = \<lparr>kf_brokers = [], kf_topic = ''tgw.updates'', kf_client_id = ''telegram-rest-gateway''\<rparr>"

definition default_config :: config where
  "default_config = \<lparr>cf_api_id = 0, cf_api_hash = [], cf_database_encryption_key = [], cf_session_b64 = [],
     cf_session_id = ''default'', cf_database_directory = ''/data/session'', cf_files_directory = ''/data/files'',
     cf_use_test_dc = False, cf_keep_online = False, cf_keep_online_interval_seconds = 60,
     cf_webhooks_enabled = False, cf_session_export_enabled = True, cf_webhook_timeout_ms = 10000,
     cf_webhook_queue_max = 10000, cf_webhook_ssrf_guard = False, cf_tdlib_log_verbosity = 1,
     cf_humanize_typing = False, cf_humanize_chars_per_minute = 200, cf_humanize_jitter_percent = 20,
     cf_humanize_min_delay_ms = 1000, cf_humanize_max_delay_ms = 10000, cf_humanize_id_wait_ms = 4000,
     cf_idle_connection_timeout_seconds = 90, cf_listen_address = ''127.0.0.1'', cf_listen_port = 8080,
     cf_bearer_tokens = [], cf_max_upload_bytes = 64 * 1024 * 1024, cf_max_memory_body_bytes = 1024 * 1024,
     cf_ws_max_pending_bytes = 8 * 1024 * 1024, cf_s3 = default_s3, cf_s3_sync_interval_seconds = 300,
     cf_kafka = default_kafka\<rparr>"

section \<open>The settings\<close>

type_synonym setting = "config \<Rightarrow> (config_error, config) result"

definition textSetting :: "os \<Rightarrow> string \<Rightarrow> (config \<Rightarrow> string) \<Rightarrow> (string \<Rightarrow> config \<Rightarrow> config) \<Rightarrow> setting" where
  "textSetting w name fallback assign c = bindE (envOrFile w name (fallback c)) (\<lambda>s. Inr (assign s c))"

definition requiredSetting :: "os \<Rightarrow> string \<Rightarrow> (string \<Rightarrow> config \<Rightarrow> config) \<Rightarrow> setting" where
  "requiredSetting w name assign c = bindE (require w name) (\<lambda>s. Inr (assign s c))"

text \<open>\<^verbatim>\<open>x == "1" || x == "true"\<close>\<close>

definition isOn :: "string \<Rightarrow> bool" where
  "isOn s \<longleftrightarrow> s = ''1'' \<or> s = ''true''"

text \<open>A numeric variable that is absent or empty leaves the default in place.\<close>

definition numSetting :: "os \<Rightarrow> num_type \<Rightarrow> string \<Rightarrow> (int \<Rightarrow> config \<Rightarrow> config) \<Rightarrow> setting" where
  "numSetting w t name assign c = bindE (envOrFile w name []) (\<lambda>s.
     if s = [] then Inr c else bindE (parseNumericEnv t name s) (\<lambda>v. Inr (assign v c)))"

definition apiIdSetting :: "os \<Rightarrow> setting" where
  "apiIdSetting w c = bindE (require w ''API_ID'') (\<lambda>s.
     bindE (parseNumericEnv Int32 ''API_ID'' s) (\<lambda>v. Inr (c\<lparr>cf_api_id := v\<rparr>)))"

definition sessionIdSetting :: "os \<Rightarrow> setting" where
  "sessionIdSetting w c = bindE (envOrFile w ''TGW_SESSION_ID'' ''default'') (\<lambda>s.
     if isSafeSegment s then Inr (c\<lparr>cf_session_id := s\<rparr>) else Inl (BadSessionId s))"

definition s3KeySetting :: "os \<Rightarrow> setting" where
  "s3KeySetting w c = bindE (envOrFile w ''TGW_S3_KEY'' []) (\<lambda>explicit.
     if explicit \<noteq> [] then Inr (c\<lparr>cf_s3 := (cf_s3 c)\<lparr>s3_key := explicit\<rparr>\<rparr>)
     else bindE (envOrFile w ''TGW_S3_PREFIX'' ''telegram-sessions'') (\<lambda>prefix.
       Inr (c\<lparr>cf_s3 := (cf_s3 c)\<lparr>s3_key := prefix @ ''/'' @ cf_session_id c @ ''/td.binlog''\<rparr>\<rparr>)))"

definition pathStyleSetting :: "os \<Rightarrow> setting" where
  "pathStyleSetting w c = bindE (envOrFile w ''TGW_S3_PATH_STYLE'' []) (\<lambda>s.
     if s = [] then Inr c else Inr (c\<lparr>cf_s3 := (cf_s3 c)\<lparr>s3_path_style := isOn s\<rparr>\<rparr>))"

definition tokenLines :: "string \<Rightarrow> string list" where
  "tokenLines s = filter (\<lambda>line. line \<noteq> [] \<and> hd line \<noteq> CHR ''#'') (map trim (getlines (CHR 0x0A) s))"

text \<open>The bounds of the pause against the idle timeout, in 64-bit arithmetic, which three 32-bit values
  cannot leave.\<close>

definition pauseGuard :: setting where
  "pauseGuard c =
     (if cf_humanize_typing c
         \<and> cf_idle_connection_timeout_seconds c * 1000
             < cf_humanize_max_delay_ms c + cf_humanize_id_wait_ms c + 2000
      then Inl PauseBudget else Inr c)"

fun runSettings :: "setting list \<Rightarrow> setting" where
  "runSettings [] c = Inr c"
| "runSettings (s # ss) c = bindE (s c) (runSettings ss)"

definition telegramSettings :: "os \<Rightarrow> setting list" where
  "telegramSettings w =
    [apiIdSetting w,
     requiredSetting w ''API_HASH'' (\<lambda>s c. c\<lparr>cf_api_hash := s\<rparr>),
     requiredSetting w ''DATABASE_ENCRYPTION_KEY'' (\<lambda>s c. c\<lparr>cf_database_encryption_key := s\<rparr>),
     textSetting w ''TGW_SESSION'' (\<lambda>_. []) (\<lambda>s c. c\<lparr>cf_session_b64 := s\<rparr>),
     textSetting w ''TGW_DATABASE_DIR'' cf_database_directory (\<lambda>s c. c\<lparr>cf_database_directory := s\<rparr>),
     textSetting w ''TGW_FILES_DIR'' cf_files_directory (\<lambda>s c. c\<lparr>cf_files_directory := s\<rparr>),
     textSetting w ''TGW_USE_TEST_DC'' (\<lambda>_. []) (\<lambda>s c. c\<lparr>cf_use_test_dc := isOn s\<rparr>),
     textSetting w ''TGW_KEEP_ONLINE'' (\<lambda>_. []) (\<lambda>s c. c\<lparr>cf_keep_online := isOn s\<rparr>),
     numSetting w Int32 ''TGW_KEEP_ONLINE_INTERVAL_SECONDS'' (\<lambda>v c. c\<lparr>cf_keep_online_interval_seconds := v\<rparr>),
     textSetting w ''TGW_SESSION_EXPORT_ENABLED'' (\<lambda>_. [])
       (\<lambda>s c. c\<lparr>cf_session_export_enabled := \<not> (s = ''0'' \<or> s = ''false'')\<rparr>)]"

definition webhookSettings :: "os \<Rightarrow> setting list" where
  "webhookSettings w =
    [textSetting w ''TGW_WEBHOOKS_ENABLED'' (\<lambda>_. []) (\<lambda>s c. c\<lparr>cf_webhooks_enabled := isOn s\<rparr>),
     numSetting w Int32 ''TGW_WEBHOOK_TIMEOUT_MS'' (\<lambda>v c. c\<lparr>cf_webhook_timeout_ms := v\<rparr>),
     numSetting w UInt64 ''TGW_WEBHOOK_QUEUE_MAX'' (\<lambda>v c. c\<lparr>cf_webhook_queue_max := v\<rparr>),
     textSetting w ''TGW_WEBHOOK_SSRF_GUARD'' (\<lambda>_. []) (\<lambda>s c. c\<lparr>cf_webhook_ssrf_guard := isOn s\<rparr>),
     numSetting w Int32 ''TGW_TDLIB_LOG_VERBOSITY'' (\<lambda>v c. c\<lparr>cf_tdlib_log_verbosity := v\<rparr>)]"

definition humanizeSettings :: "os \<Rightarrow> setting list" where
  "humanizeSettings w =
    [textSetting w ''TGW_HUMANIZE_TYPING'' (\<lambda>_. []) (\<lambda>s c. c\<lparr>cf_humanize_typing := isOn s\<rparr>),
     numSetting w Int32 ''TGW_HUMANIZE_CHARS_PER_MINUTE'' (\<lambda>v c. c\<lparr>cf_humanize_chars_per_minute := v\<rparr>),
     numSetting w Int32 ''TGW_HUMANIZE_JITTER_PERCENT'' (\<lambda>v c. c\<lparr>cf_humanize_jitter_percent := v\<rparr>),
     numSetting w Int32 ''TGW_HUMANIZE_MIN_DELAY_MS'' (\<lambda>v c. c\<lparr>cf_humanize_min_delay_ms := v\<rparr>),
     numSetting w Int32 ''TGW_HUMANIZE_MAX_DELAY_MS'' (\<lambda>v c. c\<lparr>cf_humanize_max_delay_ms := v\<rparr>),
     numSetting w Int32 ''TGW_HUMANIZE_ID_WAIT_MS'' (\<lambda>v c. c\<lparr>cf_humanize_id_wait_ms := v\<rparr>),
     numSetting w Int32 ''TGW_IDLE_CONNECTION_TIMEOUT_SECONDS''
       (\<lambda>v c. c\<lparr>cf_idle_connection_timeout_seconds := v\<rparr>)]"

definition serverSettings :: "os \<Rightarrow> setting list" where
  "serverSettings w =
    [textSetting w ''TGW_LISTEN_ADDRESS'' cf_listen_address (\<lambda>s c. c\<lparr>cf_listen_address := s\<rparr>),
     numSetting w UInt16 ''TGW_LISTEN_PORT'' (\<lambda>v c. c\<lparr>cf_listen_port := v\<rparr>),
     numSetting w UInt64 ''TGW_MAX_UPLOAD_BYTES'' (\<lambda>v c. c\<lparr>cf_max_upload_bytes := v\<rparr>),
     numSetting w UInt64 ''TGW_MAX_MEMORY_BODY_BYTES'' (\<lambda>v c. c\<lparr>cf_max_memory_body_bytes := v\<rparr>),
     numSetting w UInt64 ''TGW_WS_MAX_PENDING_BYTES'' (\<lambda>v c. c\<lparr>cf_ws_max_pending_bytes := v\<rparr>)]"

definition s3Settings :: "os \<Rightarrow> setting list" where
  "s3Settings w =
    [sessionIdSetting w,
     textSetting w ''TGW_S3_ENDPOINT'' (\<lambda>_. []) (\<lambda>s c. c\<lparr>cf_s3 := (cf_s3 c)\<lparr>s3_endpoint := s\<rparr>\<rparr>),
     textSetting w ''TGW_S3_REGION'' (\<lambda>_. ''us-east-1'') (\<lambda>s c. c\<lparr>cf_s3 := (cf_s3 c)\<lparr>s3_region := s\<rparr>\<rparr>),
     textSetting w ''TGW_S3_BUCKET'' (\<lambda>_. []) (\<lambda>s c. c\<lparr>cf_s3 := (cf_s3 c)\<lparr>s3_bucket := s\<rparr>\<rparr>),
     s3KeySetting w,
     textSetting w ''TGW_S3_ACCESS_KEY_ID'' (\<lambda>_. []) (\<lambda>s c. c\<lparr>cf_s3 := (cf_s3 c)\<lparr>s3_access_key := s\<rparr>\<rparr>),
     textSetting w ''TGW_S3_SECRET_ACCESS_KEY'' (\<lambda>_. []) (\<lambda>s c. c\<lparr>cf_s3 := (cf_s3 c)\<lparr>s3_secret_key := s\<rparr>\<rparr>),
     pathStyleSetting w,
     numSetting w Int32 ''TGW_S3_SYNC_INTERVAL_SECONDS'' (\<lambda>v c. c\<lparr>cf_s3_sync_interval_seconds := v\<rparr>)]"

definition eventSettings :: "os \<Rightarrow> setting list" where
  "eventSettings w =
    [textSetting w ''TGW_KAFKA_BROKERS'' (\<lambda>_. []) (\<lambda>s c. c\<lparr>cf_kafka := (cf_kafka c)\<lparr>kf_brokers := s\<rparr>\<rparr>),
     textSetting w ''TGW_KAFKA_TOPIC'' (\<lambda>c. kf_topic (cf_kafka c)) (\<lambda>s c. c\<lparr>cf_kafka := (cf_kafka c)\<lparr>kf_topic := s\<rparr>\<rparr>),
     textSetting w ''TGW_KAFKA_CLIENT_ID'' (\<lambda>c. ''tgw-'' @ cf_session_id c)
       (\<lambda>s c. c\<lparr>cf_kafka := (cf_kafka c)\<lparr>kf_client_id := s\<rparr>\<rparr>),
     textSetting w ''BEARER_TOKENS'' (\<lambda>_. []) (\<lambda>s c. c\<lparr>cf_bearer_tokens := tokenLines s\<rparr>),
     pauseGuard]"

definition load_config :: "os \<Rightarrow> (config_error, config) result" where
  "load_config w = runSettings (telegramSettings w @ webhookSettings w @ humanizeSettings w
     @ serverSettings w @ s3Settings w @ eventSettings w) default_config"

section \<open>One number\<close>

lemma digits_value_whole:
  "list_all is_digit ds \<Longrightarrow> takeWhile is_digit ds = ds"
  by (simp add: takeWhile_eq_all_conv list_all_iff)

text \<open>A text is accepted as a number exactly when it is one as a whole and fits the type.\<close>

definition numeral_of :: "num_type \<Rightarrow> string \<Rightarrow> int \<Rightarrow> bool" where
  "numeral_of t s v \<longleftrightarrow>
     (\<exists>ds. ds \<noteq> [] \<and> list_all is_digit ds
        \<and> (s = ds \<and> v = int (digits_value ds) \<or> num_signed t \<and> s = CHR ''-'' # ds \<and> v = - int (digits_value ds)))"

lemma minus_sign_iff: "minus_sign s \<longleftrightarrow> (\<exists>t. s = CHR ''-'' # t)"
  by (cases s) auto

lemma from_chars_numeral:
  assumes "numeral_of t s v"
  shows "from_chars (num_signed t) lo hi s = (if v < lo \<or> hi < v then FC_out_of_range else FC_ok v (length s))"
proof -
  from assms obtain ds where ds: "ds \<noteq> []" "list_all is_digit ds"
      "s = ds \<and> v = int (digits_value ds) \<or> num_signed t \<and> s = CHR ''-'' # ds \<and> v = - int (digits_value ds)"
    by (auto simp: numeral_of_def)
  have tk: "takeWhile is_digit ds = ds" using ds(2) by (rule digits_value_whole)
  have "\<not> minus_sign ds" using ds(1,2) minus_sign_digit by (cases ds) auto
  with ds tk show ?thesis
    by (auto simp: from_chars_def Let_def simp del: takeWhile_eq_all_conv)
qed

lemma from_chars_whole:
  assumes "from_chars (num_signed t) lo hi s = FC_ok v (length s)"
  shows "numeral_of t s v"
proof -
  define neg where "neg = (num_signed t \<and> minus_sign s)"
  define ds where "ds = takeWhile is_digit (drop (if neg then 1 else 0) s)"
  have d: "ds \<noteq> []" "v = (if neg then - int (digits_value ds) else int (digits_value ds))"
      "length s = (if neg then 1 else 0) + length ds"
    using assms unfolding from_chars_def Let_def neg_def [symmetric] ds_def [symmetric]
    by (auto split: if_splits)
  have "list_all is_digit ds" unfolding ds_def list_all_iff by (blast dest: set_takeWhileD)
  moreover have "drop (if neg then 1 else 0) s = ds"
  proof -
    have "length (drop (if neg then 1 else 0) s) = length ds" using d(3) by auto
    then show ?thesis
      unfolding ds_def by (metis append_self_conv length_append takeWhile_dropWhile_id length_0_conv add_cancel_left_right)
  qed
  ultimately show ?thesis
    using d unfolding numeral_of_def neg_def by (auto simp: minus_sign_iff split: if_splits)
qed

lemma parseNumericEnv_numeral:
  "numeral_of t s v \<Longrightarrow> parseNumericEnv t name s =
     (if v < num_lo t \<or> num_hi t < v then Inl (OutOfRange name s) else Inr v)"
  by (simp add: parseNumericEnv_def from_chars_numeral)

lemma parseNumericEnv_Inr:
  assumes "parseNumericEnv t name s = Inr v"
  shows "numeral_of t s v \<and> num_lo t \<le> v \<and> v \<le> num_hi t"
proof -
  from assms have "from_chars (num_signed t) (num_lo t) (num_hi t) s = FC_ok v (length s)"
    by (auto simp: parseNumericEnv_def split: from_chars_result.splits if_splits)
  then show ?thesis using from_chars_whole from_chars_ok by blast
qed

lemma numeral_of_int: "num_lo t \<le> v \<Longrightarrow> numeral_of t (int_to_string v) v"
proof (cases "v < 0")
  case True
  assume "num_lo t \<le> v"
  with True have "num_signed t" by (auto simp: num_lo_def num_signed_def split: if_splits)
  with True show ?thesis
    unfolding numeral_of_def int_to_string_def
    by (intro exI [of _ "nat_to_string (nat (- v))"]) (simp add: nat_to_string_digits)
next
  case False
  then show ?thesis
    unfolding numeral_of_def int_to_string_def
    by (intro exI [of _ "nat_to_string (nat v)"]) (simp add: nat_to_string_digits)
qed

lemma numeral_of_nat: "numeral_of t (nat_to_string n) (int n)"
  unfolding numeral_of_def by (intro exI [of _ "nat_to_string n"]) (simp add: nat_to_string_digits)

lemma num_lo_nonpos [simp]: "num_lo t \<le> int n"
  by (simp add: num_lo_def int32_min_def)

text \<open>A numeric variable is taken exactly when its whole text is a number within the bounds of the type it is
  read into; what such a number printed is reads back as the number. A number above the bounds is refused by
  name rather than cut down, and so is any other text, such as a number with a unit behind it.\<close>

theorem numeric_env_exact:
  "(parseNumericEnv t name s = Inr v \<longleftrightarrow> numeral_of t s v \<and> num_lo t \<le> v \<and> v \<le> num_hi t)
   \<and> (parseNumericEnv t name (int_to_string v) = Inr v \<longleftrightarrow> num_lo t \<le> v \<and> v \<le> num_hi t)
   \<and> parseNumericEnv t name (nat_to_string n) =
        (if int n \<le> num_hi t then Inr (int n) else Inl (OutOfRange name (nat_to_string n)))
   \<and> parseNumericEnv t name s \<in> {Inl (OutOfRange name s), Inl (NotANumber name s)} \<union> range Inr"
  (is "?A \<and> ?B \<and> ?C \<and> ?D")
proof (intro conjI)
  show ?A
    using parseNumericEnv_Inr [of t name s v] parseNumericEnv_numeral [of t s v name] by auto
  show ?B
    using parseNumericEnv_Inr [of t name "int_to_string v" v]
      parseNumericEnv_numeral [OF numeral_of_int, of t v name] by auto
  show ?C
    using parseNumericEnv_numeral [OF numeral_of_nat, of t name n] num_lo_nonpos [of t n] by (auto simp: not_less)
  show ?D
    unfolding parseNumericEnv_def by (simp split: from_chars_result.split)
qed

section \<open>What every accepted configuration satisfies\<close>

text \<open>A setting keeps a predicate when it holds of the configuration left behind, if one is.\<close>

definition keeps :: "(config \<Rightarrow> bool) \<Rightarrow> setting \<Rightarrow> bool" where
  "keeps P s \<longleftrightarrow> (\<forall>c c'. P c \<longrightarrow> s c = Inr c' \<longrightarrow> P c')"

named_theorems keeps_intros \<open>what each form of setting keeps\<close>

lemma keepsD: "keeps P s \<Longrightarrow> P c \<Longrightarrow> s c = Inr c' \<Longrightarrow> P c'"
  by (auto simp: keeps_def)

lemma runSettings_keeps:
  "list_all (keeps P) ss \<Longrightarrow> P c \<Longrightarrow> runSettings ss c = Inr c' \<Longrightarrow> P c'"
  by (induction ss arbitrary: c) (auto dest: keepsD)

lemma runSettings_append:
  "runSettings (xs @ ys) c = bindE (runSettings xs c) (runSettings ys)"
proof (induction xs arbitrary: c)
  case (Cons x xs)
  then show ?case by (cases "x c") auto
qed simp

lemma keeps_text [keeps_intros]: "(\<And>s c. P c \<Longrightarrow> P (assign s c)) \<Longrightarrow> keeps P (textSetting w name fallback assign)"
  by (auto simp: keeps_def textSetting_def)

lemma keeps_required [keeps_intros]:
  "(\<And>s c. P c \<Longrightarrow> s \<noteq> [] \<Longrightarrow> P (assign s c)) \<Longrightarrow> keeps P (requiredSetting w name assign)"
  by (auto simp: keeps_def requiredSetting_def require_def split: if_splits)

lemma keeps_num [keeps_intros]:
  "(\<And>v c. P c \<Longrightarrow> num_lo t \<le> v \<Longrightarrow> v \<le> num_hi t \<Longrightarrow> P (assign v c)) \<Longrightarrow> keeps P (numSetting w t name assign)"
  unfolding keeps_def numSetting_def using parseNumericEnv_Inr by (fastforce split: if_splits)

lemma keeps_apiId [keeps_intros]:
  "(\<And>v c. P c \<Longrightarrow> int32_min \<le> v \<Longrightarrow> v \<le> int32_max \<Longrightarrow> P (c\<lparr>cf_api_id := v\<rparr>)) \<Longrightarrow> keeps P (apiIdSetting w)"
  by (auto simp: keeps_def apiIdSetting_def num_lo_def num_hi_def dest!: parseNumericEnv_Inr)

lemma keeps_sessionId [keeps_intros]:
  "(\<And>s c. P c \<Longrightarrow> isSafeSegment s \<Longrightarrow> P (c\<lparr>cf_session_id := s\<rparr>)) \<Longrightarrow> keeps P (sessionIdSetting w)"
  by (auto simp: keeps_def sessionIdSetting_def split: if_splits)

lemma keeps_s3Key [keeps_intros]:
  "(\<And>s c. P c \<Longrightarrow> s \<noteq> [] \<Longrightarrow> P (c\<lparr>cf_s3 := (cf_s3 c)\<lparr>s3_key := s\<rparr>\<rparr>)) \<Longrightarrow> keeps P (s3KeySetting w)"
  by (auto simp: keeps_def s3KeySetting_def split: if_splits)

lemma keeps_pathStyle [keeps_intros]:
  "(\<And>b c. P c \<Longrightarrow> P (c\<lparr>cf_s3 := (cf_s3 c)\<lparr>s3_path_style := b\<rparr>\<rparr>)) \<Longrightarrow> keeps P (pathStyleSetting w)"
  by (auto simp: keeps_def pathStyleSetting_def split: if_splits)

lemma keeps_guard [keeps_intros]: "keeps P pauseGuard"
  by (auto simp: keeps_def pauseGuard_def split: if_splits)

lemmas group_defs = telegramSettings_def webhookSettings_def humanizeSettings_def serverSettings_def
  s3Settings_def eventSettings_def

definition in_int32 :: "int \<Rightarrow> bool" where
  "in_int32 v \<longleftrightarrow> int32_min \<le> v \<and> v \<le> int32_max"

definition in_uint64 :: "int \<Rightarrow> bool" where
  "in_uint64 v \<longleftrightarrow> 0 \<le> v \<and> v \<le> int uint64_max"

definition token_line_ok :: "string \<Rightarrow> bool" where
  "token_line_ok l \<longleftrightarrow> l \<noteq> [] \<and> hd l \<noteq> CHR ''#'' \<and> \<not> config_blank (hd l) \<and> \<not> config_blank (last l)"

definition config_typed :: "config \<Rightarrow> bool" where
  "config_typed c \<longleftrightarrow>
     list_all in_int32 [cf_api_id c, cf_keep_online_interval_seconds c, cf_webhook_timeout_ms c,
       cf_tdlib_log_verbosity c, cf_humanize_chars_per_minute c, cf_humanize_jitter_percent c,
       cf_humanize_min_delay_ms c, cf_humanize_max_delay_ms c, cf_humanize_id_wait_ms c,
       cf_idle_connection_timeout_seconds c, cf_s3_sync_interval_seconds c]
     \<and> list_all in_uint64 [cf_webhook_queue_max c, cf_max_upload_bytes c, cf_max_memory_body_bytes c,
       cf_ws_max_pending_bytes c]
     \<and> 0 \<le> cf_listen_port c \<and> cf_listen_port c \<le> 65535
     \<and> isSafeSegment (cf_session_id c) \<and> list_all token_line_ok (cf_bearer_tokens c)"

lemma trim_ends: "trim s \<noteq> [] \<Longrightarrow> \<not> config_blank (hd (trim s)) \<and> \<not> config_blank (last (trim s))"
proof -
  assume ne: "trim s \<noteq> []"
  define t where "t = dropWhile config_blank s"
  have tr: "trim s = rev (dropWhile config_blank (rev t))" by (simp add: trim_def t_def)
  have l: "\<not> config_blank (last (trim s))"
    using ne hd_dropWhile [of config_blank "rev t"] unfolding tr by (simp add: last_rev)
  have "rev t = takeWhile config_blank (rev t) @ dropWhile config_blank (rev t)" by simp
  then have "t = trim s @ rev (takeWhile config_blank (rev t))"
    unfolding tr by (metis rev_append rev_rev_ident)
  then have "hd t = hd (trim s)" "t \<noteq> []" using ne by (metis hd_append2, metis append_is_Nil_conv)
  then have "\<not> config_blank (hd (trim s))" using hd_dropWhile [of config_blank s] unfolding t_def by metis
  with l show ?thesis by simp
qed

lemma tokenLines_ok: "list_all token_line_ok (tokenLines s)"
  by (auto simp: list_all_iff tokenLines_def token_line_ok_def trim_ends)

lemma default_typed: "config_typed default_config"
  by (simp add: config_typed_def default_config_def in_int32_def in_uint64_def int_bounds isSafeSegment_def
      safeSegmentChar_def)

lemma typed_kept:
  "list_all (keeps config_typed) (telegramSettings w)" "list_all (keeps config_typed) (webhookSettings w)"
  "list_all (keeps config_typed) (humanizeSettings w)" "list_all (keeps config_typed) (serverSettings w)"
  "list_all (keeps config_typed) (s3Settings w)" "list_all (keeps config_typed) (eventSettings w)"
  unfolding group_defs
  by (simp_all add: keeps_guard, (safe, (rule keeps_intros,
        simp_all add: config_typed_def in_int32_def in_uint64_def num_lo_def num_hi_def tokenLines_ok)+)+)

lemma load_typed:
  assumes "load_config w = Inr c"
  shows "config_typed c"
  using runSettings_keeps [of config_typed, OF _ default_typed] typed_kept [of w] assms
  unfolding load_config_def by (metis list_all_append)

text \<open>A fact that one setting establishes and every later one keeps.\<close>

lemma runSettings_establish:
  assumes "runSettings (xs @ s # ys) c = Inr c'" and est: "\<And>c c'. s c = Inr c' \<Longrightarrow> P c'" and "list_all (keeps P) ys"
  shows "P c'"
proof -
  from assms(1) obtain a b where "s a = Inr b" "runSettings ys b = Inr c'" by (auto simp: runSettings_append)
  then show ?thesis using runSettings_keeps [OF assms(3)] est by blast
qed

definition hash_set :: "config \<Rightarrow> bool" where "hash_set c \<longleftrightarrow> cf_api_hash c \<noteq> []"
definition key_set :: "config \<Rightarrow> bool" where "key_set c \<longleftrightarrow> cf_database_encryption_key c \<noteq> []"
definition key_by_session :: "config \<Rightarrow> bool" where
  "key_by_session c \<longleftrightarrow> (\<exists>prefix. s3_key (cf_s3 c) = prefix @ ''/'' @ cf_session_id c @ ''/td.binlog'')"

lemma hash_kept:
  "list_all (keeps hash_set) (drop 2 (telegramSettings w) @ webhookSettings w @ humanizeSettings w
     @ serverSettings w @ s3Settings w @ eventSettings w)"
  unfolding group_defs by (simp add: keeps_guard, (safe, (rule keeps_intros, simp add: hash_set_def)+)+)

lemma key_kept:
  "list_all (keeps key_set) (drop 3 (telegramSettings w) @ webhookSettings w @ humanizeSettings w
     @ serverSettings w @ s3Settings w @ eventSettings w)"
  unfolding group_defs by (simp add: keeps_guard, (safe, (rule keeps_intros, simp add: key_set_def)+)+)

lemma key_by_session_kept:
  "list_all (keeps key_by_session) (drop 5 (s3Settings w) @ eventSettings w)"
  unfolding group_defs by (simp add: keeps_guard, (safe, (rule keeps_intros, simp add: key_by_session_def)+)+)

lemma required_establishes:
  "requiredSetting w name assign c = Inr c' \<Longrightarrow> \<exists>s d. s \<noteq> [] \<and> c' = assign s d"
  by (auto simp: requiredSetting_def require_def split: if_splits)

lemma secrets_present:
  assumes "load_config w = Inr c"
  shows "cf_api_hash c \<noteq> [] \<and> cf_database_encryption_key c \<noteq> []"
proof
  let ?after = "webhookSettings w @ humanizeSettings w @ serverSettings w @ s3Settings w @ eventSettings w"
  let ?hash = "requiredSetting w ''API_HASH'' (\<lambda>s c. c\<lparr>cf_api_hash := s\<rparr>)"
  let ?key = "requiredSetting w ''DATABASE_ENCRYPTION_KEY'' (\<lambda>s c. c\<lparr>cf_database_encryption_key := s\<rparr>)"
  have "telegramSettings w = [apiIdSetting w] @ ?hash # drop 2 (telegramSettings w)"
    by (simp add: telegramSettings_def)
  then have "runSettings ([apiIdSetting w] @ ?hash # (drop 2 (telegramSettings w) @ ?after)) default_config = Inr c"
    using assms unfolding load_config_def by (metis append.assoc append_Cons)
  then have "hash_set c"
    by (rule runSettings_establish [where P = hash_set, OF _ _ hash_kept]) (auto simp: hash_set_def dest: required_establishes)
  then show "cf_api_hash c \<noteq> []" by (simp add: hash_set_def)
  have "telegramSettings w = [apiIdSetting w, ?hash] @ ?key # drop 3 (telegramSettings w)"
    by (simp add: telegramSettings_def)
  then have "runSettings ([apiIdSetting w, ?hash] @ ?key # (drop 3 (telegramSettings w) @ ?after)) default_config = Inr c"
    using assms unfolding load_config_def by (metis append.assoc append_Cons)
  then have "key_set c"
    by (rule runSettings_establish [where P = key_set, OF _ _ key_kept]) (auto simp: key_set_def dest: required_establishes)
  then show "cf_database_encryption_key c \<noteq> []" by (simp add: key_set_def)
qed

definition pause_fits :: "config \<Rightarrow> bool" where
  "pause_fits c \<longleftrightarrow> \<not> cf_humanize_typing c
     \<or> cf_humanize_max_delay_ms c + cf_humanize_id_wait_ms c + 2000 \<le> cf_idle_connection_timeout_seconds c * 1000"

lemma pauseGuard_fits: "pauseGuard c = Inr c' \<Longrightarrow> pause_fits c'"
  by (auto simp: pauseGuard_def pause_fits_def split: if_splits)

lemma pause_checked:
  assumes "load_config w = Inr c"
  shows "pause_fits c"
proof -
  have "eventSettings w = take 4 (eventSettings w) @ [pauseGuard]" by (simp add: eventSettings_def)
  then have "runSettings ((telegramSettings w @ webhookSettings w @ humanizeSettings w @ serverSettings w
      @ s3Settings w @ take 4 (eventSettings w)) @ pauseGuard # []) default_config = Inr c"
    using assms unfolding load_config_def by (metis append.assoc)
  then show ?thesis
    by (rule runSettings_establish [where P = pause_fits, OF _ pauseGuard_fits]) simp_all
qed

text \<open>The key of the stored session when it is not given: it ends with the session id as a segment of its own.\<close>

lemma session_key:
  assumes "load_config w = Inr c" "envOrFile w ''TGW_S3_KEY'' [] = Inr []"
  shows "key_by_session c"
proof -
  have "s3Settings w = take 4 (s3Settings w) @ s3KeySetting w # drop 5 (s3Settings w)"
    by (simp add: s3Settings_def)
  then have "runSettings ((telegramSettings w @ webhookSettings w @ humanizeSettings w @ serverSettings w
      @ take 4 (s3Settings w)) @ s3KeySetting w # (drop 5 (s3Settings w) @ eventSettings w)) default_config = Inr c"
    using assms(1) unfolding load_config_def by (metis append.assoc append_Cons)
  then show ?thesis
  proof (rule runSettings_establish [OF _ _ key_by_session_kept])
    show "key_by_session c'" if "s3KeySetting w c = Inr c'" for c c'
      using that assms(2) by (auto simp: s3KeySetting_def key_by_session_def)
  qed
qed

lemma safeSegment_no_slash: "isSafeSegment s \<Longrightarrow> CHR ''/'' \<notin> set s"
  by (auto simp: isSafeSegment_def list_all_iff safeSegmentChar_def)

lemma last_segment_unique:
  assumes "p @ ''/'' @ a = q @ ''/'' @ b" "CHR ''/'' \<notin> set a" "CHR ''/'' \<notin> set b"
  shows "a = b"
proof -
  have split: "takeWhile (\<lambda>c. c \<noteq> CHR ''/'') (rev (r @ ''/'' @ x)) = rev x" if "CHR ''/'' \<notin> set x" for r x
  proof -
    have "\<forall>c \<in> set (rev x). c \<noteq> CHR ''/''" using that by auto
    then have "takeWhile (\<lambda>c. c \<noteq> CHR ''/'') (rev x @ CHR ''/'' # rev r) =
        rev x @ takeWhile (\<lambda>c. c \<noteq> CHR ''/'') (CHR ''/'' # rev r)"
      by (intro takeWhile_append2) blast
    then show ?thesis by simp
  qed
  show ?thesis
    using split [OF assms(2), of p] split [OF assms(3), of q] unfolding assms(1) by simp
qed

section \<open>The properties\<close>

definition sample_os :: "(string \<times> string) list \<Rightarrow> os" where
  "sample_os vars = \<lparr>os_getenv = map_of (vars @ [(''API_ID'', ''7''), (''API_HASH_FILE'', ''/h''),
     (''DATABASE_ENCRYPTION_KEY'', ''k''), (''TGW_HUMANIZE_TYPING'', ''1''), (''BEARER_TOKENS'', '' a=read'')]),
     os_file = map_of [(''/h'', '' h '')]\<rparr>"

definition sample_accepted :: "string \<Rightarrow> config" where
  "sample_accepted session = default_config\<lparr>cf_api_id := 7, cf_api_hash := ''h'', cf_database_encryption_key := ''k'',
     cf_humanize_typing := True, cf_bearer_tokens := [''a=read''], cf_session_id := session,
     cf_s3 := default_s3\<lparr>s3_region := ''us-east-1'', s3_key := ''telegram-sessions/'' @ session @ ''/td.binlog''\<rparr>,
     cf_kafka := default_kafka\<lparr>kf_client_id := ''tgw-'' @ session\<rparr>\<rparr>"

lemma sample_loads:
  "load_config (sample_os []) = Inr (sample_accepted ''default'')"
  "load_config (sample_os [(''TGW_SESSION_ID'', ''b'')]) = Inr (sample_accepted ''b'')"
  by code_simp+

text \<open>C34: A configuration the gateway starts with: every number is one of the type of its field, although the
  variables are text of any length; the secrets that have no default are there; the session id is one safe
  segment of a path; every token line is free of blanks at its ends and neither empty nor a comment; and the
  longest pause of a sender, with two seconds to spare, is within the idle timeout of a connection.\<close>

theorem accepted_config:
  assumes "load_config w = Inr c"
  shows "config_typed c \<and> cf_api_hash c \<noteq> [] \<and> cf_database_encryption_key c \<noteq> [] \<and> pause_fits c"
  using load_typed [OF assms] secrets_present [OF assms] pause_checked [OF assms] by blast

theorem accepted_config_witness:
  "config_typed (sample_accepted ''default'') \<and> cf_api_hash (sample_accepted ''default'') \<noteq> []
   \<and> cf_database_encryption_key (sample_accepted ''default'') \<noteq> [] \<and> pause_fits (sample_accepted ''default'')"
  using accepted_config [OF sample_loads(1)] .

text \<open>Instances that share a bucket and build the key of their stored session do not overwrite each other's: with
  different session ids the keys differ, whatever the prefixes are.\<close>

theorem session_stores_apart:
  assumes "load_config v = Inr c" "load_config w = Inr d"
    and "envOrFile v ''TGW_S3_KEY'' [] = Inr []" "envOrFile w ''TGW_S3_KEY'' [] = Inr []"
    and "cf_session_id c \<noteq> cf_session_id d"
  shows "s3_key (cf_s3 c) \<noteq> s3_key (cf_s3 d)"
proof
  assume same: "s3_key (cf_s3 c) = s3_key (cf_s3 d)"
  obtain p q where "s3_key (cf_s3 c) = (p @ ''/'' @ cf_session_id c) @ ''/td.binlog''"
      "s3_key (cf_s3 d) = (q @ ''/'' @ cf_session_id d) @ ''/td.binlog''"
    using session_key [OF assms(1,3)] session_key [OF assms(2,4)] by (auto simp: key_by_session_def)
  with same have "p @ ''/'' @ cf_session_id c = q @ ''/'' @ cf_session_id d" by (metis append_same_eq)
  then show False
    using last_segment_unique load_typed [OF assms(1)] load_typed [OF assms(2)] assms(5) safeSegment_no_slash
    unfolding config_typed_def by blast
qed

theorem session_stores_apart_witness:
  "s3_key (cf_s3 (sample_accepted ''default'')) \<noteq> s3_key (cf_s3 (sample_accepted ''b''))"
proof (rule session_stores_apart [OF sample_loads])
  show "envOrFile (sample_os []) ''TGW_S3_KEY'' [] = Inr []" by code_simp
  show "envOrFile (sample_os [(''TGW_SESSION_ID'', ''b'')]) ''TGW_S3_KEY'' [] = Inr []" by code_simp
  show "cf_session_id (sample_accepted ''default'') \<noteq> cf_session_id (sample_accepted ''b'')"
    by (simp add: sample_accepted_def)
qed

end
