(* ===== verification/Json.thy ===== *)
theory Json
  imports Complex_Main CppStrings
begin

text \<open>
  JSON documents as the gateway's code sees them through \<^verbatim>\<open>Json::Value\<close>. An object is the list of its
  members; the code reads it by name only. Numbers the code copies without arithmetic are integers of
  any of the library's widths; the two places that compute a \<^verbatim>\<open>double\<close> keep the exact quotient, so
  rounding is not modelled. Reading a file or a body into a document and writing one back is the
  library's work and stays a parameter where it is used.
\<close>

datatype json =
    JNull
  | JBool bool
  | JInt int
  | JReal rat
  | JStr string
  | JArr "json list"
  | JObj "(string \<times> json) list"

section \<open>Reading\<close>

text \<open>\<^verbatim>\<open>v[key]\<close> on an object already known to be one: an absent member reads as null.\<close>

definition jmember :: "(string \<times> json) list \<Rightarrow> string \<Rightarrow> json" where
  "jmember ms k = (case map_of ms k of Some v \<Rightarrow> v | None \<Rightarrow> JNull)"

definition isMember :: "(string \<times> json) list \<Rightarrow> string \<Rightarrow> bool" where
  "isMember ms k \<longleftrightarrow> map_of ms k \<noteq> None"

text \<open>\<^verbatim>\<open>v[key]\<close> on any value, through the const operator: null has no members, and anything that is neither
  null nor an object throws (\<open>None\<close>).\<close>

definition jindex :: "json \<Rightarrow> string \<Rightarrow> json option" where
  "jindex v k = (case v of JObj ms \<Rightarrow> Some (jmember ms k) | JNull \<Rightarrow> Some JNull | _ \<Rightarrow> None)"

definition str_of :: "json \<Rightarrow> string option" where
  "str_of v = (case v of JStr s \<Rightarrow> Some s | _ \<Rightarrow> None)"

definition bool_of :: "json \<Rightarrow> bool option" where
  "bool_of v = (case v of JBool b \<Rightarrow> Some b | _ \<Rightarrow> None)"

section \<open>Writing\<close>

text \<open>\<^verbatim>\<open>v[key] = x\<close>: creates the member or replaces it, and turns null into an object. \<open>put\<close> is the same on
  the members of a document under construction.\<close>

fun put :: "string \<Rightarrow> json \<Rightarrow> (string \<times> json) list \<Rightarrow> (string \<times> json) list" where
  "put k v [] = [(k, v)]"
| "put k v ((k', v') # ms) = (if k = k' then (k, v) # ms else (k', v') # put k v ms)"

definition jset :: "string \<Rightarrow> json \<Rightarrow> json \<Rightarrow> json option" where
  "jset k v d = (case d of JObj ms \<Rightarrow> Some (JObj (put k v ms)) | JNull \<Rightarrow> Some (JObj [(k, v)]) | _ \<Rightarrow> None)"

text \<open>A 64-bit id leaves the process as a decimal string.\<close>

definition jid :: "int \<Rightarrow> json" where
  "jid i = JStr (int_to_string i)"

section \<open>Facts\<close>

lemma map_of_put [simp]: "map_of (put k v ms) = (map_of ms)(k \<mapsto> v)"
  by (induction ms) (auto simp: fun_eq_iff)

lemma jmember_put [simp]: "jmember (put k v ms) k' = (if k' = k then v else jmember ms k')"
  by (simp add: jmember_def)

lemma isMember_put [simp]: "isMember (put k v ms) k' \<longleftrightarrow> k' = k \<or> isMember ms k'"
  by (simp add: isMember_def)

lemma jmember_simps [simp]:
  "jmember [] k = JNull"
  "jmember ((k', v) # ms) k = (if k = k' then v else jmember ms k)"
  by (auto simp: jmember_def)

lemma isMember_simps [simp]:
  "\<not> isMember [] k"
  "isMember ((k', v) # ms) k \<longleftrightarrow> k = k' \<or> isMember ms k"
  by (auto simp: isMember_def)

lemma jmember_absent: "\<not> isMember ms k \<Longrightarrow> jmember ms k = JNull"
  by (simp add: jmember_def isMember_def)

lemma jindex_simps [simp]:
  "jindex (JObj ms) k = Some (jmember ms k)"
  "jindex JNull k = Some JNull"
  by (simp_all add: jindex_def)

lemma jset_simps [simp]:
  "jset k v (JObj ms) = Some (JObj (put k v ms))"
  "jset k v JNull = Some (JObj [(k, v)])"
  by (simp_all add: jset_def)

lemma str_of_simps [simp]:
  "str_of (JStr s) = Some s"
  "str_of (jid i) = Some (int_to_string i)"
  by (simp_all add: str_of_def jid_def)

lemma int_to_string_inj [simp]: "int_to_string a = int_to_string b \<longleftrightarrow> a = b"
proof
  have hd: "hd (nat_to_string n) \<noteq> CHR ''-''" for n
    using hd_nat_to_string_digit [of n] digit_not_sign by blast
  have nd: "nat_to_string m \<noteq> CHR ''-'' # s" for m s
    using hd [of m] by auto
  assume "int_to_string a = int_to_string b"
  then show "a = b"
    by (auto simp: int_to_string_def nd nd [symmetric] split: if_splits)
qed simp

lemma jid_inj [simp]: "jid a = jid b \<longleftrightarrow> a = b"
  by (simp add: jid_def)

end
