(* ===== verification/TdApi.thy ===== *)
theory TdApi
  imports Prelude
begin

text \<open>
  The objects of TDLib's typed API that the gateway's sources read or build. The classes are generated
  from TDLib's schema (a submodule); what stands here are the fields and the alternatives the sources
  name, an \<^verbatim>\<open>object_ptr\<close> that may be null being an \<open>option\<close>, and every alternative the sources do not
  name folded into one last constructor, as their \<^verbatim>\<open>default:\<close> branches do. Integers are the values of
  the fields; a field's width (32 or 64 bits) is an invariant of TDLib's and not restated here.
\<close>

section \<open>Errors and files\<close>

datatype td_error = TdError (err_code: int) (err_message: string)

record local_file =
  lf_path :: string
  lf_downloaded_size :: int
  lf_completed :: bool

record remote_file =
  rf_id :: string
  rf_unique_id :: string

record td_file =
  f_id :: int
  f_size :: int
  f_expected_size :: int
  f_local :: "local_file option"
  f_remote :: "remote_file option"

section \<open>Messages\<close>

datatype message_sender = SenderUser int | SenderChat int | SenderOther

datatype text_entity_type =
    EntMention | EntMentionName int | EntHashtag | EntCashtag | EntBotCommand | EntUrl
  | EntTextUrl string | EntEmailAddress | EntPhoneNumber | EntBold | EntItalic | EntUnderline
  | EntStrikethrough | EntSpoiler | EntCode | EntPre | EntPreCode | EntBlockQuote | EntCustomEmoji
  | EntOther

record text_entity =
  te_type :: "text_entity_type option"
  te_offset :: int
  te_length :: int

record formatted_text =
  ft_text :: string
  ft_entities :: "text_entity option list"

record photo_size =
  ps_width :: int
  ps_height :: int
  ps_photo :: "td_file option"

text \<open>
  One record for the seven kinds of media object: each content constructor below carries the fields the
  sources read of it, the others of the record being of no effect there.
\<close>

record media =
  md_duration :: int
  md_width :: int
  md_height :: int
  md_file_name :: string
  md_mime_type :: string
  md_title :: string
  md_performer :: string
  md_emoji :: string
  md_file :: "td_file option"

datatype message_content =
    MessageText "formatted_text option"
  | MessagePhoto (photo_caption: "formatted_text option") (photo_sizes: "photo_size option list option")
  | MessageVideo "formatted_text option" "media option"
  | MessageVoiceNote "formatted_text option" "media option"
  | MessageAudio "formatted_text option" "media option"
  | MessageDocument "formatted_text option" "media option"
  | MessageSticker "media option"
  | MessageAnimation "formatted_text option" "media option"
  | MessageVideoNote "media option"
  | MessageOther

datatype reaction_type = ReactionEmoji string | ReactionCustomEmoji int | ReactionOther

record reaction =
  r_type :: "reaction_type option"
  r_total_count :: int
  r_is_chosen :: bool

text \<open>\<^verbatim>\<open>interaction_info_->reactions_\<close>: the two pointers in turn.\<close>

type_synonym interaction_info = "reaction option list option"

datatype reply_to = ReplyToMessage int | ReplyToOther

record message =
  m_id :: int
  m_chat_id :: int
  m_sender :: "message_sender option"
  m_date :: int
  m_is_outgoing :: bool
  m_is_channel_post :: bool
  m_contains_unread_mention :: bool
  m_content :: "message_content option"
  m_interaction :: "interaction_info option"
  m_reply_to :: "reply_to option"

section \<open>Chats, users, members\<close>

datatype chat_type = ChatPrivate int | ChatBasicGroup | ChatSupergroup bool | ChatSecret | ChatOther

record chat =
  c_id :: int
  c_title :: string
  c_unread_count :: int
  c_type :: "chat_type option"

datatype user_status =
    StatusOnline | StatusOffline int | StatusRecently | StatusLastWeek | StatusLastMonth | StatusOther

record user =
  u_id :: int
  u_first_name :: string
  u_last_name :: string
  u_usernames :: "string list option"
  u_phone_number :: string
  u_is_contact :: bool
  u_is_premium :: bool
  u_status :: "user_status option"

datatype member_status =
    MemberCreator | MemberAdministrator | MemberMember | MemberRestricted | MemberLeft | MemberBanned
  | MemberOther

record chat_member =
  cm_member :: "message_sender option"
  cm_joined :: int
  cm_status :: "member_status option"

section \<open>Authorization\<close>

datatype code_type =
    CodeTelegramMessage int | CodeSms int | CodeCall int | CodeFlashCall | CodeMissedCall
  | CodeFragment | CodeOther

record code_info_obj =
  ci_type :: "code_type option"
  ci_next_type :: "code_type option"
  ci_timeout :: int

datatype authorization_state =
    AsWaitTdlibParameters | AsWaitPhoneNumber | AsWaitCode "code_info_obj option" | AsWaitPassword
  | AsWaitOtherDeviceConfirmation string | AsReady | AsLoggingOut | AsClosing | AsClosed | AsOther

section \<open>Objects and functions\<close>

datatype td_object =
    ObjError td_error
  | ObjOk
  | ObjMessage message
  | ObjMessages "message option list"
  | ObjFoundChatMessages "message option list" int int
  | ObjFoundMessages "message option list" int string
  | ObjChat chat
  | ObjChats "int list"
  | ObjUser user
  | ObjUsers "int list" int
  | ObjChatMembers "chat_member option list" int
  | ObjFile td_file
  | ObjJoinSuccess int
  | ObjJoinRequestSent
  | UpdateAuthorizationState "authorization_state option"
  | UpdateConnectionState "bool option"
  | UpdateNewMessage "message option"
  | UpdateMessageSendSucceeded int "message option"
  | UpdateMessageSendFailed int "message option" "td_error option"
  | UpdateNewChat "chat option"
  | UpdateMessageInteractionInfo int int "interaction_info option"
  | UpdateDeleteMessages int "int list"
  | UpdateMessageEdited int int int
  | UpdateMessageContent int int "message_content option"
  | UpdateChatReadInbox int int int
  | UpdateUserStatus int "user_status option"
  | UpdateChatAction int "message_sender option" "bool option"
  | ObjOther

text \<open>
  \<open>UpdateConnectionState\<close> carries whether the new state is \<^verbatim>\<open>connectionStateReady\<close>, \<open>UpdateChatAction\<close>
  whether the action is \<^verbatim>\<open>chatActionCancel\<close>; \<open>None\<close> is the null pointer.
\<close>

datatype input_content =
    InputText formatted_text
  | InputDocument string "formatted_text option"
  | InputPhoto string "formatted_text option"
  | InputVideo string "formatted_text option" bool
  | InputVoiceNote string "formatted_text option"
  | InputAudio string "formatted_text option"

datatype td_function =
    GetOption string
  | SetOptionOnline bool
  | GetMe
  | LogOut
  | CloseClient
  | LoadChats int
  | GetChats int
  | GetChat int
  | GetChatHistory int int int int bool
  | GetMessage int int
  | SendMessage int "int option" "input_content option"
  | SendChatActionTyping int
  | EditMessageText int int input_content
  | DeleteMessages int "int list" bool
  | ForwardMessages int int "int list" bool bool
  | ViewMessages int "int list" bool
  | SearchChatMessages int string int int int
  | SearchMessages string string int int int
  | AddMessageReaction int int string bool bool
  | RemoveMessageReaction int int string
  | GetFile int
  | DownloadFile int int int int bool
  | SearchPublicChat string
  | GetUser int
  | JoinChatByInviteLink string
  | SearchChatMembers int string int
  | GetContacts
  | SetAuthenticationPhoneNumber string
  | RequestQrCodeAuthentication
  | ResendAuthenticationCode
  | CheckAuthenticationCode string
  | CheckAuthenticationPassword string

section \<open>\<^verbatim>\<open>expect<T>\<close>\<close>

text \<open>
  \<^verbatim>\<open>src/src/bridge/expect.hpp\<close>. A null answer is the gateway's own timeout error; an error object comes
  back as the error; anything else is taken to be of the expected class, which the caller then reads.
\<close>

definition expect :: "td_object option \<Rightarrow> (td_error, td_object) result" where
  "expect ob = (case ob of
     None \<Rightarrow> Inl (TdError 504 ''UPSTREAM_TIMEOUT'')
   | Some (ObjError e) \<Rightarrow> Inl e
   | Some v \<Rightarrow> Inr v)"

lemma expect_simps [simp]:
  "expect None = Inl (TdError 504 ''UPSTREAM_TIMEOUT'')"
  "expect (Some (ObjError e)) = Inl e"
  by (simp_all add: expect_def)

lemma expect_Inr: "expect ob = Inr v \<longleftrightarrow> ob = Some v \<and> (\<forall>e. v \<noteq> ObjError e)"
  by (auto simp: expect_def split: option.splits td_object.splits)

end
