(* ===== verification/HttpHelpers.thy ===== *)
theory HttpHelpers
  imports Json TdApi
begin

text \<open>
  \<^verbatim>\<open>src/src/http/http_helpers.hpp\<close>: the responses every route builds, the translation of a TDLib error
  into an HTTP status and a \<^verbatim>\<open>Retry-After\<close> header, and the reading of an id from text. A response is its
  status, its headers and its body; the JSON body is kept as the document.
\<close>

section \<open>Responses\<close>

datatype resp_body =
    NoBody
  | JsonBody json
  | RawJson string
  | FileBody string "(u64 \<times> u64) option"

record response =
  rs_status :: nat
  rs_headers :: "(string \<times> string) list"
  rs_body :: resp_body

definition jsonResponse :: "json \<Rightarrow> nat \<Rightarrow> response" where
  "jsonResponse body code = \<lparr>rs_status = code, rs_headers = [], rs_body = JsonBody body\<rparr>"

definition serviceError :: "string \<Rightarrow> string \<Rightarrow> nat \<Rightarrow> response" where
  "serviceError code msg http =
     jsonResponse (JObj [(''ok'', JBool False),
                         (''error'', JObj [(''code'', JStr code), (''message'', JStr msg)])]) http"

section \<open>Text without regard to case\<close>

fun matchNoCase :: "string \<Rightarrow> string \<Rightarrow> bool" where
  "matchNoCase [] h = True"
| "matchNoCase (n # ns) [] = False"
| "matchNoCase (n # ns) (h # hs) = (if ascii_lower h \<noteq> ascii_lower n then False else matchNoCase ns hs)"

fun findNoCase_loop :: "string \<Rightarrow> string \<Rightarrow> nat \<Rightarrow> nat option" where
  "findNoCase_loop needle [] i = None"
| "findNoCase_loop needle (h # hs) i =
     (if length needle \<le> length (h # hs) \<and> matchNoCase needle (h # hs) then Some i
      else findNoCase_loop needle hs (Suc i))"

definition findNoCase :: "string \<Rightarrow> string \<Rightarrow> nat option" where
  "findNoCase haystack needle =
     (if needle = [] then Some 0
      else if length haystack < length needle then None
      else findNoCase_loop needle haystack 0)"

definition containsNoCase :: "string \<Rightarrow> string \<Rightarrow> bool" where
  "containsNoCase haystack needle \<longleftrightarrow> findNoCase haystack needle \<noteq> None"

definition startsWithNoCase :: "string \<Rightarrow> string \<Rightarrow> bool" where
  "startsWithNoCase s prefix \<longleftrightarrow> \<not> length s < length prefix \<and> matchNoCase prefix s"

text \<open>\<^verbatim>\<open>long\<close> is 64 bits wide on the platforms the gateway is built for.\<close>

definition parseTrailingNumber :: "string \<Rightarrow> nat \<Rightarrow> int option" where
  "parseTrailingNumber s from =
     (let ds = takeWhile is_digit (dropWhile (\<lambda>c. \<not> is_digit c) (drop from s))
      in if ds = [] then None
         else (case from_chars True int64_min int64_max ds of FC_ok v _ \<Rightarrow> Some v | _ \<Rightarrow> None))"

section \<open>TDLib errors\<close>

definition httpStatusForTdError :: "td_error \<Rightarrow> nat" where
  "httpStatusForTdError e =
     (if err_code e = 400
      then (if containsNoCase (err_message e) ''not found'' then 404 else 400)
      else if err_code e = 429 \<or> startsWithNoCase (err_message e) ''Too Many Requests''
              \<or> containsNoCase (err_message e) ''FLOOD_WAIT''
           then 429 else 502)"

definition retryAfterSeconds :: "string \<Rightarrow> int option" where
  "retryAfterSeconds msg =
     (case findNoCase msg ''retry after'' of
        Some pos \<Rightarrow> parseTrailingNumber msg pos
      | None \<Rightarrow>
          (case findNoCase msg ''FLOOD_WAIT_'' of
             Some pos \<Rightarrow> parseTrailingNumber msg pos
           | None \<Rightarrow> None))"

definition telegramError :: "td_error \<Rightarrow> response" where
  "telegramError e =
     (let status = httpStatusForTdError e;
          resp = jsonResponse
            (JObj [(''ok'', JBool False),
                   (''error'', JObj [(''code'', JStr ''TELEGRAM_ERROR''),
                                     (''message'', JStr (err_message e)),
                                     (''tdlib_code'', JInt (err_code e)),
                                     (''tdlib_message'', JStr (err_message e))])]) status
      in if status = 429
         then (case retryAfterSeconds (err_message e) of
                 Some secs \<Rightarrow> resp\<lparr>rs_headers := rs_headers resp @ [(''Retry-After'', int_to_string secs)]\<rparr>
               | None \<Rightarrow> resp)
         else resp)"

section \<open>Ids\<close>

text \<open>
  \<^verbatim>\<open>parseId(text, out)\<close>: the flag and what \<open>out\<close> holds afterwards. \<^verbatim>\<open>std::stoll\<close> stores its result before
  the length is compared, so text with a number in front changes \<open>out\<close> even when the flag is false.
\<close>

definition parseId :: "string \<Rightarrow> int \<Rightarrow> bool \<times> int" where
  "parseId txt out =
     (if txt = [] then (False, out)
      else (case stoll txt of
              None \<Rightarrow> (False, out)
            | Some (v, pos) \<Rightarrow> (pos = length txt, v)))"

definition idOf :: "string \<Rightarrow> int option" where
  "idOf txt = (case parseId txt 0 of (True, v) \<Rightarrow> Some v | (False, _) \<Rightarrow> None)"

section \<open>Facts: searching\<close>

abbreviation lowered :: "string \<Rightarrow> string" where
  "lowered s \<equiv> map ascii_lower s"

lemma matchNoCase_iff:
  "matchNoCase needle s \<longleftrightarrow> lowered (take (length needle) s) = lowered needle"
  by (induction needle s rule: matchNoCase.induct) auto

lemma matchNoCase_length: "matchNoCase needle s \<Longrightarrow> length needle \<le> length s"
  by (induction needle s rule: matchNoCase.induct) (auto split: if_splits)

lemma findNoCase_loop_Some:
  "needle \<noteq> [] \<Longrightarrow>
   findNoCase_loop needle s i = Some k \<longleftrightarrow>
     i \<le> k \<and> matchNoCase needle (drop (k - i) s) \<and> (\<forall>j < k - i. \<not> matchNoCase needle (drop j s))"
proof (induction s arbitrary: i)
  case Nil
  then show ?case by (cases needle) auto
next
  case (Cons c s)
  have len: "length needle \<le> length (c # s)" if "matchNoCase needle (c # s)"
    using matchNoCase_length [OF that] .
  show ?case
  proof (cases "matchNoCase needle (c # s)")
    case True
    then have "length needle \<le> Suc (length s)" using len by simp
    with True show ?thesis
      by (auto simp del: matchNoCase.simps) (metis drop0 gr0I le_eq_less_or_eq zero_less_diff)
  next
    case False
    have all: "(\<forall>j < k - i. \<not> matchNoCase needle (drop j (c # s))) \<longleftrightarrow>
               (\<forall>j < k - Suc i. \<not> matchNoCase needle (drop j s))"
      if "i < k"
    proof -
      have "k - i = Suc (k - Suc i)" using that by simp
      then show ?thesis using False by (simp add: All_less_Suc2)
    qed
    have step: "findNoCase_loop needle (c # s) i = findNoCase_loop needle s (Suc i)"
      using False by simp
    show ?thesis
    proof (cases "i < k")
      case True
      then have "drop (k - i) (c # s) = drop (k - Suc i) s" by (simp add: drop_Cons')
      with True show ?thesis
        unfolding step Cons.IH [OF Cons.prems] by (simp add: all [OF True] del: matchNoCase.simps)
    next
      case le: False
      with False show ?thesis
        unfolding step Cons.IH [OF Cons.prems] by (simp del: matchNoCase.simps)
    qed
  qed
qed

text \<open>The loop returns the first position where the needle stands, in any mixture of cases.\<close>

lemma findNoCase_Some:
  assumes "needle \<noteq> []"
  shows "findNoCase s needle = Some k \<longleftrightarrow>
    matchNoCase needle (drop k s) \<and> (\<forall>j < k. \<not> matchNoCase needle (drop j s))"
proof (cases "length s < length needle")
  case True
  then have "\<not> matchNoCase needle (drop j s)" for j
    using matchNoCase_length [of needle "drop j s"] by auto
  with True assms show ?thesis by (simp add: findNoCase_def)
next
  case False
  with assms show ?thesis by (simp add: findNoCase_def findNoCase_loop_Some)
qed

lemma findNoCase_None:
  assumes "needle \<noteq> []"
  shows "findNoCase s needle = None \<longleftrightarrow> (\<forall>j. \<not> matchNoCase needle (drop j s))"
proof
  assume n: "findNoCase s needle = None"
  show "\<forall>j. \<not> matchNoCase needle (drop j s)"
  proof (rule ccontr)
    assume "\<not> ?thesis"
    then obtain j where "matchNoCase needle (drop j s)" by blast
    then have "findNoCase s needle = Some (LEAST j. matchNoCase needle (drop j s))"
      unfolding findNoCase_Some [OF assms] by (auto intro: LeastI dest: not_less_Least)
    with n show False by simp
  qed
next
  assume a: "\<forall>j. \<not> matchNoCase needle (drop j s)"
  show "findNoCase s needle = None"
  proof (rule ccontr)
    assume "findNoCase s needle \<noteq> None"
    then obtain k where "findNoCase s needle = Some k" by auto
    with a show False unfolding findNoCase_Some [OF assms] by blast
  qed
qed

lemma matchNoCase_lowered [simp]: "matchNoCase needle (lowered s) = matchNoCase needle s"
  by (simp add: matchNoCase_iff take_map comp_def)

lemma findNoCase_lowered [simp]: "findNoCase (lowered s) needle = findNoCase s needle"
proof (cases "needle = []")
  case False
  then have "findNoCase (lowered s) needle = Some k \<longleftrightarrow> findNoCase s needle = Some k" for k
    by (simp add: findNoCase_Some drop_map)
  then show ?thesis by (metis not_None_eq)
qed (simp add: findNoCase_def)

lemma containsNoCase_iff:
  "needle \<noteq> [] \<Longrightarrow> containsNoCase s needle \<longleftrightarrow> (\<exists>j. lowered (take (length needle) (drop j s)) = lowered needle)"
  by (auto simp: containsNoCase_def findNoCase_None matchNoCase_iff)

section \<open>Facts: numbers\<close>

lemma drop_to_digits:
  "\<forall>c \<in> set mid. \<not> is_digit c \<Longrightarrow>
   dropWhile (\<lambda>c. \<not> is_digit c) (mid @ nat_to_string n) = nat_to_string n"
proof -
  assume mid: "\<forall>c \<in> set mid. \<not> is_digit c"
  have "dropWhile (\<lambda>c. \<not> is_digit c) (nat_to_string n) = nat_to_string n"
    using hd_nat_to_string_digit [of n] nat_to_string_nonempty [of n]
    by (cases "nat_to_string n") auto
  with mid show ?thesis by (simp add: dropWhile_append2)
qed

lemma parseTrailingNumber_nat:
  assumes "\<forall>c \<in> set mid. \<not> is_digit c"
  shows "parseTrailingNumber (pre @ mid @ nat_to_string n) (length pre) =
    (if int n \<le> int64_max then Some (int n) else None)"
proof -
  have "from_chars True int64_min int64_max (nat_to_string n) =
    (if int n \<le> int64_max then FC_ok (int n) (length (nat_to_string n)) else FC_out_of_range)"
    by (simp add: from_chars_def Let_def int_bounds)
  then show ?thesis
    using drop_to_digits [OF assms, of n]
    by (simp add: parseTrailingNumber_def del: takeWhile_eq_all_conv)
qed

section \<open>Facts: ids\<close>

text \<open>The text \<^verbatim>\<open>std::stoll\<close> uses up completely: blanks, an optional sign, digits.\<close>

lemma scan_number_whole:
  assumes "scan_number s = (neg, ds, length s)"
  shows "list_all is_digit ds \<and>
    (\<exists>ws sg. s = ws @ sg @ ds \<and> list_all is_space ws \<and> sg \<in> {[], ''-'', ''+''})"
proof -
  define ws where "ws = takeWhile is_space s"
  define t where "t = dropWhile is_space s"
  have s: "s = ws @ t" by (simp add: ws_def t_def)
  have dr: "drop (length ws) s = t" by (simp add: s)
  define k where "k = (case t of c # _ \<Rightarrow> if c = CHR ''-'' \<or> c = CHR ''+'' then 1 else 0 | [] \<Rightarrow> (0::nat))"
  have ds: "ds = takeWhile is_digit (drop k t)" and pos: "length s = length ws + k + length ds"
    using assms dr
    by (auto simp: scan_number_def Let_def ws_def [symmetric] k_def [symmetric] simp flip: drop_drop)
  have sgn: "take k t \<in> {[], ''-'', ''+''}" "k \<le> length t"
    by (cases t; auto simp: k_def)+
  have "length (ds @ dropWhile is_digit (drop k t)) = length t - k"
    by (simp only: ds takeWhile_dropWhile_id length_drop)
  then have "length ds + length (dropWhile is_digit (drop k t)) = length t - k" by (simp only: length_append)
  moreover have "k + length ds = length t" using s pos by simp
  ultimately have "length (dropWhile is_digit (drop k t)) = 0" by linarith
  then have "drop k t = ds"
    using takeWhile_dropWhile_id [of is_digit "drop k t"] ds by (simp only: length_0_conv append_Nil2)
  then have "t = take k t @ ds" using append_take_drop_id [of k t] by simp
  then have "s = ws @ take k t @ ds" using s by simp
  moreover have "list_all is_space ws" "list_all is_digit ds"
    by (auto simp: ws_def ds list_all_iff dest: set_takeWhileD)
  ultimately show ?thesis using sgn(1) by blast
qed

lemma scan_number_parts:
  assumes "list_all is_space ws" "sg \<in> {[], ''-'', ''+''}" "ds \<noteq> []" "list_all is_digit ds"
  shows "scan_number (ws @ sg @ ds) = (sg = ''-'', ds, length (ws @ sg @ ds))"
proof -
  obtain d r where d: "ds = d # r" "is_digit d" using assms(3,4) by (cases ds) auto
  note nd = digit_not_space [OF d(2)] digit_not_sign [OF d(2)]
  have tw: "takeWhile is_space (ws @ sg @ ds) = ws"
    using assms(1,2) d nd by (auto simp: takeWhile_append list_all_iff is_space_def)
  have tk: "takeWhile is_digit ds = ds"
    using assms(4) by (simp add: takeWhile_eq_all_conv list_all_iff)
  have dr: "drop (length ws) (ws @ sg @ ds) = sg @ ds" by simp
  show ?thesis
    unfolding scan_number_def Let_def tw dr
    using assms(2) d nd tk by (auto simp del: takeWhile_eq_all_conv takeWhile.simps)
qed

lemma parseId_True:
  "parseId txt out = (True, v) \<longleftrightarrow>
     (\<exists>ws sg ds. txt = ws @ sg @ ds \<and> list_all is_space ws \<and> sg \<in> {[], ''-'', ''+''}
        \<and> ds \<noteq> [] \<and> list_all is_digit ds
        \<and> v = (if sg = ''-'' then - int (digits_value ds) else int (digits_value ds))
        \<and> int64_min \<le> v \<and> v \<le> int64_max)" (is "?L \<longleftrightarrow> ?R")
proof
  assume L: ?L
  obtain neg ds pos where sc: "scan_number txt = (neg, ds, pos)" by (metis prod_cases3)
  from L sc have ds: "ds \<noteq> []" and pos: "pos = length txt"
    and v: "v = (if neg then - int (digits_value ds) else int (digits_value ds))"
    and b: "int64_min \<le> v \<and> v \<le> int64_max"
    by (auto simp: parseId_def stoll_def sto_int_def Let_def split: if_splits)
  from scan_number_whole [OF sc [unfolded pos]] obtain ws sg where
    w: "txt = ws @ sg @ ds" "list_all is_space ws" "sg \<in> {[], ''-'', ''+''}" "list_all is_digit ds"
    by blast
  with sc ds have "neg \<longleftrightarrow> sg = ''-''" by (simp add: scan_number_parts)
  with w ds v b show ?R by blast
next
  assume ?R
  then obtain ws sg ds where
    w: "txt = ws @ sg @ ds" "list_all is_space ws" "sg \<in> {[], ''-'', ''+''}" "ds \<noteq> []"
       "list_all is_digit ds"
    and v: "v = (if sg = ''-'' then - int (digits_value ds) else int (digits_value ds))"
    and b: "int64_min \<le> v" "v \<le> int64_max" by blast
  have "scan_number txt = (sg = ''-'', ds, length txt)"
    using scan_number_parts [OF w(2-5)] w(1) by simp
  moreover have "txt \<noteq> []" using w(1,4) by simp
  ultimately show ?L
    using w(4) v b by (auto simp: parseId_def stoll_def sto_int_def Let_def)
qed

lemma parseId_int [simp]:
  "int64_min \<le> i \<Longrightarrow> i \<le> int64_max \<Longrightarrow> parseId (int_to_string i) out = (True, i)"
  by (auto simp: parseId_def stoll_def sto_int_of_string) (auto simp: int_to_string_def split: if_splits)

lemma parseId_too_big:
  "parseId (int_to_string i) out =
     (if int64_min \<le> i \<and> i \<le> int64_max then (True, i) else (False, out))"
proof -
  have "stoll (int_to_string i) = None" if "\<not> (int64_min \<le> i \<and> i \<le> int64_max)"
    using that by (auto simp: stoll_def sto_int_def int_to_string_def Let_def)
  moreover have "int_to_string i \<noteq> []" by (simp add: int_to_string_def)
  ultimately have "parseId (int_to_string i) out = (False, out)"
    if "\<not> (int64_min \<le> i \<and> i \<le> int64_max)"
    using that by (simp add: parseId_def)
  then show ?thesis using parseId_int [of i out] by simp
qed

lemma parseId_bounds: "parseId txt out = (True, v) \<Longrightarrow> int64_min \<le> v \<and> v \<le> int64_max"
  by (auto simp: parseId_def stoll_def split: if_splits option.splits dest: sto_int_bounds)

section \<open>Facts: flood errors\<close>

lemma matchNoCase_hd: "matchNoCase (c # cs) s \<Longrightarrow> \<exists>h \<in> set s. ascii_lower h = ascii_lower c"
  by (cases s) (auto split: if_splits)

lemma findNoCase_absent:
  "\<forall>h \<in> set s. ascii_lower h \<noteq> ascii_lower c \<Longrightarrow> findNoCase s (c # cs) = None"
  using matchNoCase_hd [of c cs] by (fastforce simp: findNoCase_None dest: in_set_dropD)

lemma ascii_lower_digit [simp]: "is_digit c \<Longrightarrow> ascii_lower c = c"
  by (auto simp: is_digit_def ascii_lower_def)

lemma findNoCase_prefix: "matchNoCase needle s \<Longrightarrow> needle \<noteq> [] \<Longrightarrow> findNoCase s needle = Some 0"
  by (simp add: findNoCase_Some)

lemma lowered_prefix: "map ascii_lower ''TooManyRequests: retryafter'' = ''toomanyrequests: retryafter''"
  by code_simp

lemma retryAfterSeconds_text:
  "retryAfterSeconds (''Too Many Requests: retry after '' @ nat_to_string n) =
     (if int n \<le> int64_max then Some (int n) else None)"
proof -
  have f: "findNoCase (''Too Many Requests: retry after '' @ nat_to_string n) ''retry after'' = Some (length ''Too Many Requests: '')"
    using lowered_prefix by (simp add: findNoCase_def)
  have d: "\<forall>c \<in> set ''retry after ''. \<not> is_digit c" by (auto simp: is_digit_def)
  have "parseTrailingNumber (''Too Many Requests: '' @ ''retry after '' @ nat_to_string n)
          (length ''Too Many Requests: '') = (if int n \<le> int64_max then Some (int n) else None)"
    by (rule parseTrailingNumber_nat [OF d])
  with f show ?thesis by (simp add: retryAfterSeconds_def)
qed

lemma retryAfterSeconds_code:
  "retryAfterSeconds (''FLOOD_WAIT_'' @ nat_to_string n) =
     (if int n \<le> int64_max then Some (int n) else None)"
proof -
  have r: "ascii_lower CHR ''r'' \<noteq> d" if "is_digit d" for d
    using that by (auto simp: is_digit_def ascii_lower_def)
  have chars: "\<forall>h \<in> set ''FLOOD_WAIT_''. ascii_lower h \<noteq> ascii_lower CHR ''r''" by code_simp
  have "\<forall>h \<in> set (nat_to_string n). ascii_lower h \<noteq> ascii_lower CHR ''r''"
    using r nat_to_string_all_digits by (metis ascii_lower_digit)
  then have n: "findNoCase (''FLOOD_WAIT_'' @ nat_to_string n) ''retry after'' = None"
    using chars by (intro findNoCase_absent) (simp only: set_append ball_Un)
  have f: "findNoCase (''FLOOD_WAIT_'' @ nat_to_string n) ''FLOOD_WAIT_'' = Some 0"
    by (rule findNoCase_prefix) simp_all
  have d: "\<forall>c \<in> set ''FLOOD_WAIT_''. \<not> is_digit c" by (auto simp: is_digit_def)
  have "parseTrailingNumber ([] @ ''FLOOD_WAIT_'' @ nat_to_string n) (length ([] :: string)) =
          (if int n \<le> int64_max then Some (int n) else None)"
    by (rule parseTrailingNumber_nat [OF d])
  with n f show ?thesis by (simp add: retryAfterSeconds_def)
qed

lemma flood_status:
  "c \<noteq> 400 \<Longrightarrow> httpStatusForTdError (TdError c (''Too Many Requests: retry after '' @ r)) = 429"
  "c \<noteq> 400 \<Longrightarrow> httpStatusForTdError (TdError c (''FLOOD_WAIT_'' @ r)) = 429"
proof -
  have "startsWithNoCase (''Too Many Requests: retry after '' @ r) ''Too Many Requests''"
    by (simp add: startsWithNoCase_def)
  then show "c \<noteq> 400 \<Longrightarrow> httpStatusForTdError (TdError c (''Too Many Requests: retry after '' @ r)) = 429"
    by (simp add: httpStatusForTdError_def)
  have "containsNoCase (''FLOOD_WAIT_'' @ r) ''FLOOD_WAIT''"
    by (simp add: containsNoCase_def findNoCase_prefix)
  then show "c \<noteq> 400 \<Longrightarrow> httpStatusForTdError (TdError c (''FLOOD_WAIT_'' @ r)) = 429"
    by (simp add: httpStatusForTdError_def)
qed

section \<open>What the helpers promise\<close>

text \<open>the texts \<open>parseId\<close> accepts are exactly optional blanks, an optional sign and decimal digits up to
  the end, with a value in the 64-bit range (so leading blanks and a plus sign pass, which the comment
  in the source excludes); and an id printed for a client is read back as the same id exactly when it
  fits 64 bits.\<close>

theorem parseId_language:
  "(parseId txt out = (True, v) \<longleftrightarrow>
     (\<exists>ws sg ds. txt = ws @ sg @ ds \<and> list_all is_space ws \<and> sg \<in> {[], ''-'', ''+''}
        \<and> ds \<noteq> [] \<and> list_all is_digit ds
        \<and> v = (if sg = ''-'' then - int (digits_value ds) else int (digits_value ds))
        \<and> int64_min \<le> v \<and> v \<le> int64_max))
   \<and> parseId (int_to_string i) out =
       (if int64_min \<le> i \<and> i \<le> int64_max then (True, i) else (False, out))"
  by (intro conjI parseId_True parseId_too_big)

text \<open>a flood error of TDLib becomes 429, in either of its two texts and whatever its code, and the
  number of seconds in it becomes the \<^verbatim>\<open>Retry-After\<close> header, unless it does not fit a \<^verbatim>\<open>long\<close>, when the
  header is left out.\<close>

theorem flood_error_response:
  "c \<noteq> 400 \<Longrightarrow> msg \<in> {''Too Many Requests: retry after '', ''FLOOD_WAIT_''} \<Longrightarrow>
   rs_status (telegramError (TdError c (msg @ nat_to_string n))) = 429
   \<and> rs_headers (telegramError (TdError c (msg @ nat_to_string n))) =
       (if int n \<le> int64_max then [(''Retry-After'', nat_to_string n)] else [])"
  by (auto simp: telegramError_def Let_def flood_status retryAfterSeconds_text retryAfterSeconds_code
      jsonResponse_def int_to_string_def simp del: append.simps)

theorem flood_error_response_witness:
  "rs_headers (telegramError (TdError 429 (''FLOOD_WAIT_'' @ nat_to_string 42))) =
     [(''Retry-After'', nat_to_string 42)]"
  using flood_error_response [of 429 "''FLOOD_WAIT_''" 42] by (simp add: int64_max_def)

text \<open>the status of a TDLib error is one of four: 400 and 404 for TDLib's code 400 and for nothing else,
  429 for floods, 502 for the rest; and it does not depend on the case of the message.\<close>

theorem td_error_status:
  "httpStatusForTdError e \<in> {400, 404, 429, 502}
   \<and> (httpStatusForTdError e \<in> {400, 404} \<longleftrightarrow> err_code e = 400)
   \<and> httpStatusForTdError (TdError (err_code e) (lowered (err_message e))) = httpStatusForTdError e
   \<and> rs_status (telegramError e) = httpStatusForTdError e"
  by (auto simp: httpStatusForTdError_def containsNoCase_def startsWithNoCase_def telegramError_def
      jsonResponse_def Let_def split: option.splits)

end
