(* ===== verification/Tokens.thy ===== *)
theory Tokens
  imports HttpHelpers
begin

text \<open>
  API tokens and the bearer filter: \<^verbatim>\<open>src/src/auth/token_store.{hpp,cpp}\<close>, \<^verbatim>\<open>src/src/http/scope_policy.hpp\<close>,
  \<^verbatim>\<open>bearer_auth.hpp\<close>, \<^verbatim>\<open>bearer_filter.cpp\<close> and \<^verbatim>\<open>route_table.hpp\<close>. SHA-256 (OpenSSL) is the parameter
  \<open>sha256\<close>; what the code relies on, that no other token has the hash of one that is presented, is a
  hypothesis where it is used. A request is what the code reads of Drogon's: an absent header or
  parameter reads as the empty string.
\<close>

datatype http_method = Get | Post | Patch | Delete | Head | MethodOther

record request =
  rq_method :: http_method
  rq_path :: string
  rq_header :: "string \<Rightarrow> string"
  rq_param :: "string \<Rightarrow> string"
  rq_json :: "json option"

section \<open>The token store\<close>

datatype scope = ScopeRead | ScopeWrite | ScopeAdmin

definition scopeBit :: "scope \<Rightarrow> u8" where
  "scopeBit s = (case s of ScopeRead \<Rightarrow> 1 | ScopeWrite \<Rightarrow> 2 | ScopeAdmin \<Rightarrow> 4)"

definition kAllScopes :: u8 where
  "kAllScopes = 7"

definition scopeAllows :: "u8 \<Rightarrow> scope \<Rightarrow> bool" where
  "scopeAllows m s \<longleftrightarrow> m AND scopeBit s \<noteq> 0"

definition addScope :: "u8 \<Rightarrow> string \<Rightarrow> u8" where
  "addScope m item =
     (if item = ''read'' then m OR scopeBit ScopeRead
      else if item = ''write'' then m OR scopeBit ScopeWrite
      else if item = ''admin'' then m OR scopeBit ScopeAdmin
      else m)"

definition parseScopes :: "string \<Rightarrow> u8" where
  "parseScopes spec = foldl addScope 0 (getlines (CHR '','') spec)"

record token_entry =
  te_hash :: string
  te_scopes :: u8

definition is_blank :: "char \<Rightarrow> bool" where
  "is_blank c \<longleftrightarrow> c = CHR '' '' \<or> c = CHR 0x09"

text \<open>One line of the configuration: the token up to the first blank, then the scopes.\<close>

definition lineToken :: "string \<Rightarrow> string" where
  "lineToken line = (case find_char (CHR '' '') line of None \<Rightarrow> line | Some space \<Rightarrow> take space line)"

definition lineScopes :: "string \<Rightarrow> u8" where
  "lineScopes line = (case find_char (CHR '' '') line of
     None \<Rightarrow> kAllScopes
   | Some space \<Rightarrow>
       (let spec = dropWhile is_blank (drop (Suc space) line)
        in if spec \<noteq> [] then parseScopes spec else kAllScopes))"

definition load :: "(string \<Rightarrow> string) \<Rightarrow> string list \<Rightarrow> token_entry list" where
  "load sha256 lines =
     map (\<lambda>line. \<lparr>te_hash = sha256 (lineToken line), te_scopes = lineScopes line\<rparr>)
       (filter (\<lambda>line. lineToken line \<noteq> []) lines)"

fun verify_loop :: "string \<Rightarrow> token_entry list \<Rightarrow> bool \<Rightarrow> u8 \<Rightarrow> bool \<times> u8" where
  "verify_loop hash [] matched scopes = (matched, scopes)"
| "verify_loop hash (e # es) matched scopes =
     (let hit = (hash = te_hash e)
      in verify_loop hash es (matched \<or> hit) (scopes OR (if hit then te_scopes e else 0)))"

definition verify :: "(string \<Rightarrow> string) \<Rightarrow> token_entry list \<Rightarrow> string \<Rightarrow> u8 option" where
  "verify sha256 entries presented =
     (let (matched, scopes) = verify_loop (sha256 presented) entries False 0
      in if matched then Some scopes else None)"

section \<open>The scope a path needs\<close>

definition kAuthPathPrefix :: string where
  "kAuthPathPrefix = ''/v1/auth/''"

definition kWebhooksPathPrefix :: string where
  "kWebhooksPathPrefix = ''/v1/webhooks''"

text \<open>The prefix is a literal in lower case; only the path's characters are lowered.\<close>

fun pathMatches :: "string \<Rightarrow> string \<Rightarrow> bool" where
  "pathMatches path [] = True"
| "pathMatches [] (p # ps) = False"
| "pathMatches (c # cs) (p # ps) = (if ascii_lower c \<noteq> p then False else pathMatches cs ps)"

definition pathStartsWithNoCase :: "string \<Rightarrow> string \<Rightarrow> bool" where
  "pathStartsWithNoCase path prefix =
     (if length path < length prefix then False else pathMatches path prefix)"

definition isAuthPath :: "string \<Rightarrow> bool" where
  "isAuthPath path = pathStartsWithNoCase path kAuthPathPrefix"

definition isWebhooksPath :: "string \<Rightarrow> bool" where
  "isWebhooksPath path =
     (if \<not> pathStartsWithNoCase path kWebhooksPathPrefix then False
      else length path = length kWebhooksPathPrefix \<or> path ! length kWebhooksPathPrefix = CHR ''/'')"

definition requiredScopeFor :: "string \<Rightarrow> bool \<Rightarrow> scope" where
  "requiredScopeFor path is_read_method =
     (if isAuthPath path \<or> isWebhooksPath path then ScopeAdmin
      else if is_read_method then ScopeRead else ScopeWrite)"

section \<open>The filter\<close>

datatype bearer_result = Allowed | Unauthenticated | Forbidden

definition kBearerPrefix :: string where
  "kBearerPrefix = ''Bearer ''"

definition parseBearerToken :: "string \<Rightarrow> string option" where
  "parseBearerToken header =
     (if length header \<le> length kBearerPrefix then None
      else if take (length kBearerPrefix) header \<noteq> kBearerPrefix then None
      else Some (drop (length kBearerPrefix) header))"

definition evaluateBearerAuth :: "string \<Rightarrow> scope \<Rightarrow> (string \<Rightarrow> u8 option) \<Rightarrow> bearer_result" where
  "evaluateBearerAuth header required ver =
     (case parseBearerToken header of
        None \<Rightarrow> Unauthenticated
      | Some token \<Rightarrow>
          (case ver token of
             None \<Rightarrow> Unauthenticated
           | Some scopes \<Rightarrow> if \<not> scopeAllows scopes required then Forbidden else Allowed))"

definition requiredScope :: "request \<Rightarrow> scope" where
  "requiredScope req = requiredScopeFor (rq_path req) (rq_method req = Get \<or> rq_method req = Head)"

text \<open>\<^verbatim>\<open>doFilter\<close>: \<open>None\<close> is the call of \<^verbatim>\<open>next()\<close>, a response is the call of \<^verbatim>\<open>fail\<close> with it.\<close>

definition doFilter :: "(string \<Rightarrow> string) \<Rightarrow> token_entry list \<Rightarrow> request \<Rightarrow> response option" where
  "doFilter sha256 store req =
     (case evaluateBearerAuth (rq_header req ''Authorization'') (requiredScope req) (verify sha256 store) of
        Allowed \<Rightarrow> None
      | Forbidden \<Rightarrow> Some (serviceError ''INSUFFICIENT_SCOPE''
                        ''token lacks the scope required for this endpoint'' 403)
      | Unauthenticated \<Rightarrow> Some (serviceError ''UNAUTHENTICATED'' ''missing or invalid bearer token'' 401))"

section \<open>The route table\<close>

record route_spec =
  rt_path :: string
  rt_method :: http_method
  rt_requires_auth :: bool

datatype http_constraint = ConMethod http_method | ConFilter string

definition kBearerFilterName :: string where
  "kBearerFilterName = ''tgw::http::BearerAuthFilter''"

definition constraintsFor :: "route_spec \<Rightarrow> http_constraint list" where
  "constraintsFor spec =
     ConMethod (rt_method spec) # (if rt_requires_auth spec then [ConFilter kBearerFilterName] else [])"

definition route :: "string \<Rightarrow> http_method \<Rightarrow> bool \<Rightarrow> route_spec" where
  "route p m a = \<lparr>rt_path = p, rt_method = m, rt_requires_auth = a\<rparr>"

definition kAuthSessionExportRoute :: route_spec where
  "kAuthSessionExportRoute = route ''/v1/auth/session/export'' Get True"

definition kRoutesTable :: "route_spec list" where
  "kRoutesTable =
     [route ''/v1/health'' Get False,
      route ''/v1/ready'' Get False,
      kAuthSessionExportRoute,
      route ''/v1/auth/state'' Get True,
      route ''/v1/auth/session'' Post True,
      route ''/v1/auth/phone'' Post True,
      route ''/v1/auth/qr'' Post True,
      route ''/v1/auth/code/resend'' Post True,
      route ''/v1/auth/code'' Post True,
      route ''/v1/auth/password'' Post True,
      route ''/v1/auth/logout'' Post True,
      route ''/v1/me'' Get True,
      route ''/v1/webhooks'' Post True,
      route ''/v1/webhooks'' Get True,
      route ''/v1/webhooks/{id}'' Delete True]"

definition routeEnabled :: "route_spec \<Rightarrow> bool \<Rightarrow> bool" where
  "routeEnabled spec session_export_enabled \<longleftrightarrow>
     session_export_enabled \<or> rt_path spec \<noteq> rt_path kAuthSessionExportRoute"

section \<open>Facts: scopes\<close>

definition scopeName :: "scope \<Rightarrow> string" where
  "scopeName s = (case s of ScopeRead \<Rightarrow> ''read'' | ScopeWrite \<Rightarrow> ''write'' | ScopeAdmin \<Rightarrow> ''admin'')"

lemma scopeAllows_0 [simp]: "\<not> scopeAllows 0 s"
  by (simp add: scopeAllows_def)

lemma scopeAllows_or [simp]: "scopeAllows (a OR b) s \<longleftrightarrow> scopeAllows a s \<or> scopeAllows b s"
  by (simp add: scopeAllows_def bit.conj_disj_distrib2 or_eq_0_iff)

lemma scopeAllows_bit [simp]: "scopeAllows (scopeBit a) s \<longleftrightarrow> a = s"
  by (cases a; cases s) (simp_all add: scopeAllows_def scopeBit_def)

lemma scopeAllows_all [simp]: "scopeAllows kAllScopes s"
  by (cases s) (simp_all add: scopeAllows_def scopeBit_def kAllScopes_def)

lemma scopeAllows_addScope [simp]:
  "scopeAllows (addScope m item) s \<longleftrightarrow> scopeAllows m s \<or> item = scopeName s"
  by (cases s) (auto simp: addScope_def scopeName_def)

lemma scopeAllows_parse: "scopeAllows (parseScopes spec) s \<longleftrightarrow> scopeName s \<in> set (getlines (CHR '','') spec)"
proof -
  have "scopeAllows (foldl addScope m items) s \<longleftrightarrow> scopeAllows m s \<or> scopeName s \<in> set items" for m items
    by (induction items arbitrary: m) auto
  then show ?thesis by (simp add: parseScopes_def)
qed

lemma verify_loop_matched:
  "fst (verify_loop hash es m s) \<longleftrightarrow> m \<or> hash \<in> te_hash ` set es"
  by (induction es arbitrary: m s) (auto simp: Let_def)

lemma verify_loop_scopes:
  "scopeAllows (snd (verify_loop hash es m s)) x \<longleftrightarrow>
     scopeAllows s x \<or> (\<exists>e \<in> set es. te_hash e = hash \<and> scopeAllows (te_scopes e) x)"
  by (induction es arbitrary: m s) (auto simp: Let_def)

lemma verify_None: "verify sha256 es t = None \<longleftrightarrow> sha256 t \<notin> te_hash ` set es"
  using verify_loop_matched [of "sha256 t" es False 0]
  by (auto simp: verify_def split: prod.splits)

lemma verify_Some:
  "verify sha256 es t = Some m \<Longrightarrow>
   scopeAllows m x \<longleftrightarrow> (\<exists>e \<in> set es. te_hash e = sha256 t \<and> scopeAllows (te_scopes e) x)"
  using verify_loop_scopes [of "sha256 t" es False 0]
  by (auto simp: verify_def split: prod.splits if_splits)

section \<open>Facts: paths\<close>

lemma pathMatches_iff: "pathMatches path p \<longleftrightarrow> (\<exists>r. lowered path = p @ lowered r)"
proof (induction path p rule: pathMatches.induct)
  case (3 c cs p ps)
  then show ?case by auto
qed auto

lemma pathStartsWith_lowered:
  "pathStartsWithNoCase path p \<longleftrightarrow> (\<exists>r. lowered path = p @ lowered r)"
proof -
  have len: "\<not> length path < length p" if "\<exists>r. lowered path = p @ lowered r"
    using that by (metis length_append length_map not_add_less1)
  then show ?thesis by (auto simp: pathStartsWithNoCase_def pathMatches_iff)
qed

lemma isAuthPath_iff: "isAuthPath path \<longleftrightarrow> (\<exists>r. lowered path = ''/v1/auth/'' @ lowered r)"
  by (simp add: isAuthPath_def pathStartsWith_lowered kAuthPathPrefix_def)

lemma lowered_slash: "ascii_lower c = CHR ''/'' \<longleftrightarrow> c = CHR ''/''"
proof
  assume a: "ascii_lower c = CHR ''/''"
  show "c = CHR ''/''"
  proof (rule ccontr)
    assume n: "c \<noteq> CHR ''/''"
    with a have r: "65 \<le> (of_char c :: nat)" "(of_char c :: nat) \<le> 90" and
      e: "char_of ((of_char c :: nat) + 32) = CHR ''/''"
      by (auto simp: ascii_lower_def split: if_splits)
    from arg_cong [OF e, of "of_char :: char \<Rightarrow> nat"] r show False by simp
  qed
qed (simp add: ascii_lower_def)

lemma isWebhooksPath_iff:
  "isWebhooksPath path \<longleftrightarrow>
     lowered path = ''/v1/webhooks'' \<or> (\<exists>r. lowered path = ''/v1/webhooks/'' @ lowered r)"
proof -
  have iff: "isWebhooksPath path \<longleftrightarrow> (\<exists>r. lowered path = kWebhooksPathPrefix @ lowered r \<and>
     (r = [] \<or> hd r = CHR ''/''))"
  proof -
    have "length path = length kWebhooksPathPrefix \<or> path ! length kWebhooksPathPrefix = CHR ''/''
        \<longleftrightarrow> r = [] \<or> hd r = CHR ''/''"
      if e: "lowered path = kWebhooksPathPrefix @ lowered r" for r
    proof -
      have len: "length path = length kWebhooksPathPrefix + length r"
        using arg_cong [OF e, of length] by simp
      show ?thesis
      proof (cases r)
        case (Cons c cs)
        then have "length kWebhooksPathPrefix < length path" using len by simp
        then have "ascii_lower (path ! length kWebhooksPathPrefix) = ascii_lower c"
          using arg_cong [OF e, of "\<lambda>l. l ! length kWebhooksPathPrefix"] Cons by (simp add: nth_append)
        then have "path ! length kWebhooksPathPrefix = CHR ''/'' \<longleftrightarrow> c = CHR ''/''"
          by (metis lowered_slash)
        then show ?thesis using Cons len by simp
      qed (use len in simp)
    qed
    then show ?thesis
      by (auto simp: isWebhooksPath_def pathStartsWith_lowered)
  qed
  show ?thesis
  proof
    assume "isWebhooksPath path"
    then obtain r where r: "lowered path = kWebhooksPathPrefix @ lowered r" "r = [] \<or> hd r = CHR ''/''"
      unfolding iff by blast
    then show "lowered path = ''/v1/webhooks'' \<or> (\<exists>r. lowered path = ''/v1/webhooks/'' @ lowered r)"
      by (cases r) (auto simp: kWebhooksPathPrefix_def ascii_lower_def)
  next
    assume "lowered path = ''/v1/webhooks'' \<or> (\<exists>r. lowered path = ''/v1/webhooks/'' @ lowered r)"
    then show "isWebhooksPath path"
    proof
      assume "lowered path = ''/v1/webhooks''"
      then show ?thesis unfolding iff by (intro exI [of _ "[]"]) (simp add: kWebhooksPathPrefix_def)
    next
      assume "\<exists>r. lowered path = ''/v1/webhooks/'' @ lowered r"
      then obtain r where "lowered path = ''/v1/webhooks/'' @ lowered r" by blast
      then show ?thesis
        unfolding iff
        by (intro exI [of _ "CHR ''/'' # r"]) (simp add: kWebhooksPathPrefix_def ascii_lower_def)
    qed
  qed
qed

section \<open>What the filter promises\<close>

lemma evaluate_Allowed:
  "evaluateBearerAuth hdr req ver = Allowed \<longleftrightarrow>
     (\<exists>tok m. hdr = kBearerPrefix @ tok \<and> tok \<noteq> [] \<and> ver tok = Some m \<and> scopeAllows m req)"
proof
  assume a: "evaluateBearerAuth hdr req ver = Allowed"
  then obtain m where l: "length kBearerPrefix < length hdr"
    and t: "take (length kBearerPrefix) hdr = kBearerPrefix"
    and m: "ver (drop (length kBearerPrefix) hdr) = Some m" "scopeAllows m req"
    by (auto simp: evaluateBearerAuth_def parseBearerToken_def split: if_splits option.splits)
  from t have "hdr = kBearerPrefix @ drop (length kBearerPrefix) hdr"
    by (metis append_take_drop_id)
  with l m show "\<exists>tok m. hdr = kBearerPrefix @ tok \<and> tok \<noteq> [] \<and> ver tok = Some m \<and> scopeAllows m req"
    by (metis drop_eq_Nil2 linorder_not_le)
qed (auto simp: evaluateBearerAuth_def parseBearerToken_def)

lemma verify_load:
  assumes "\<forall>line \<in> set lines. sha256 (lineToken line) = sha256 tok \<longrightarrow> lineToken line = tok" "tok \<noteq> []"
  shows "verify sha256 (load sha256 lines) tok = None \<longleftrightarrow> (\<forall>line \<in> set lines. lineToken line \<noteq> tok)"
    and "verify sha256 (load sha256 lines) tok = Some m \<Longrightarrow>
         scopeAllows m s \<longleftrightarrow> (\<exists>line \<in> set lines. lineToken line = tok \<and> scopeAllows (lineScopes line) s)"
proof -
  have "sha256 tok \<in> te_hash ` set (load sha256 lines) \<longleftrightarrow> (\<exists>line \<in> set lines. lineToken line = tok)"
    using assms by (auto simp: load_def image_iff)
  then show "verify sha256 (load sha256 lines) tok = None \<longleftrightarrow> (\<forall>line \<in> set lines. lineToken line \<noteq> tok)"
    by (auto simp: verify_None)
  assume "verify sha256 (load sha256 lines) tok = Some m"
  from verify_Some [OF this, of s] assms
  show "scopeAllows m s \<longleftrightarrow> (\<exists>line \<in> set lines. lineToken line = tok \<and> scopeAllows (lineScopes line) s)"
    by (auto simp: load_def)
qed

text \<open>verification of a presented token against the configured lines, on every branch: unknown exactly when
  no line has the token; otherwise the scopes are the union of the scopes of all lines that have it.
  What is relied on of SHA-256 is that no configured token collides with the presented one.\<close>

theorem verify_presented_token:
  assumes "\<forall>line \<in> set lines. sha256 (lineToken line) = sha256 tok \<longrightarrow> lineToken line = tok"
    and "tok \<noteq> []"
  shows "(case verify sha256 (load sha256 lines) tok of
      None \<Rightarrow> \<forall>line \<in> set lines. lineToken line \<noteq> tok
    | Some m \<Rightarrow> (\<exists>line \<in> set lines. lineToken line = tok) \<and>
        (\<forall>s. scopeAllows m s \<longleftrightarrow> (\<exists>line \<in> set lines. lineToken line = tok \<and> scopeAllows (lineScopes line) s)))"
  using verify_load [OF assms] by (auto split: option.split)

theorem verify_presented_token_witness:
  "verify id (load id [''tok read'', ''other'']) ''tok'' = Some 1
   \<and> (\<exists>line \<in> set [''tok read'', ''other'']. lineToken line = ''tok'')"
proof -
  have v: "verify id (load id [''tok read'', ''other'']) ''tok'' = Some 1" by code_simp
  from verify_presented_token [of "[''tok read'', ''other'']" id "''tok''"] v show ?thesis by simp
qed

text \<open>C2: the administration paths are closed to a token without the admin scope, however the path is cased:
  if the filter lets a request to \<^verbatim>\<open>/v1/auth/...\<close> or \<^verbatim>\<open>/v1/webhooks[/...]\<close> pass, then the header carries a
  non-empty token, and one of the configured lines of that token names no scopes at all or names
  \<^verbatim>\<open>admin\<close>.\<close>

theorem admin_paths_guarded:
  assumes pass: "doFilter sha256 (load sha256 lines) req = None"
    and path: "lowered (rq_path req) = ''/v1/auth/'' @ lowered rest \<or> lowered (rq_path req) = ''/v1/webhooks''
      \<or> lowered (rq_path req) = ''/v1/webhooks/'' @ lowered rest"
    and inj: "inj_on sha256 (insert tok (lineToken ` set lines))"
    and hdr: "rq_header req ''Authorization'' = ''Bearer '' @ tok"
  shows "\<exists>line \<in> set lines. lineToken line = tok \<and> tok \<noteq> [] \<and>
    (dropWhile is_blank (drop (Suc (length tok)) line) = []
     \<or> ''admin'' \<in> set (getlines (CHR '','') (dropWhile is_blank (drop (Suc (length tok)) line))))"
proof -
  have adm: "requiredScope req = ScopeAdmin"
    using path by (auto simp: requiredScope_def requiredScopeFor_def isAuthPath_iff isWebhooksPath_iff)
  from pass adm have "evaluateBearerAuth (rq_header req ''Authorization'') ScopeAdmin (verify sha256 (load sha256 lines)) = Allowed"
    by (auto simp: doFilter_def split: bearer_result.splits)
  then obtain m where t: "tok \<noteq> []" and m: "verify sha256 (load sha256 lines) tok = Some m" "scopeAllows m ScopeAdmin"
    using hdr by (auto simp: evaluate_Allowed kBearerPrefix_def)
  have i: "\<forall>line \<in> set lines. sha256 (lineToken line) = sha256 tok \<longrightarrow> lineToken line = tok"
    using inj_onD [OF inj] by blast
  from verify_load(2) [OF i t m(1)] m(2) obtain line where
    l: "line \<in> set lines" "lineToken line = tok" "scopeAllows (lineScopes line) ScopeAdmin" by blast
  have "dropWhile is_blank (drop (Suc (length tok)) line) = []
     \<or> ''admin'' \<in> set (getlines (CHR '','') (dropWhile is_blank (drop (Suc (length tok)) line)))"
  proof (cases "find_char (CHR '' '') line")
    case None
    then have "line = tok" using l(2) by (simp add: lineToken_def del: find_char_None)
    then show ?thesis by simp
  next
    case (Some k)
    then have "length tok = k" using l(2) find_char_Some [OF Some] by (auto simp: lineToken_def)
    then show ?thesis
      using l(3) Some by (auto simp: lineScopes_def scopeAllows_parse scopeName_def Let_def split: if_splits)
  qed
  with l t show ?thesis by blast
qed

theorem admin_paths_guarded_witness:
  "\<exists>line \<in> set [''root'', ''bot read'']. lineToken line = ''root''"
proof -
  let ?req = "\<lparr>rq_method = Get, rq_path = ''/V1/Auth/session/export'',
     rq_header = (\<lambda>_. ''Bearer root''), rq_param = (\<lambda>_. []), rq_json = None\<rparr>"
  have p: "doFilter id (load id [''root'', ''bot read'']) ?req = None" by code_simp
  have l: "lowered (rq_path ?req) = ''/v1/auth/'' @ lowered ''session/export''" by code_simp
  show ?thesis
    using admin_paths_guarded [OF p, of "''session/export''" "''root''"] l by auto
qed

text \<open>the route table: only the two probes are open; every other entry carries the filter among its
  constraints, and those under the administration paths need the admin scope; no two entries share a
  path and a method; and switching the session export off removes exactly that route.\<close>

theorem route_table_protected:
  "list_all (\<lambda>r. ConFilter kBearerFilterName \<in> set (constraintsFor r)
       \<longleftrightarrow> rt_path r \<notin> {''/v1/health'', ''/v1/ready''}) kRoutesTable
   \<and> list_all (\<lambda>r. requiredScopeFor (rt_path r) (rt_method r = Get) = ScopeAdmin
       \<longleftrightarrow> rt_path r \<notin> {''/v1/health'', ''/v1/ready'', ''/v1/me''}) kRoutesTable
   \<and> distinct (map (\<lambda>r. (rt_path r, rt_method r)) kRoutesTable)
   \<and> filter (\<lambda>r. \<not> routeEnabled r False) kRoutesTable = [kAuthSessionExportRoute]
   \<and> list_all (\<lambda>r. routeEnabled r True) kRoutesTable"
  by code_simp

end
