(* ===== verification/Idempotency.thy ===== *)
theory Idempotency
  imports Prelude
begin

text \<open>
  \<^verbatim>\<open>src/src/http/idempotency_cache.hpp\<close>: the cache from an \<^verbatim>\<open>Idempotency-Key\<close> to the response of the
  request that used it. Every method runs under one mutex, so a run of the program is a sequence of
  method calls in the order the mutex grants; \<open>run_ops\<close> is such a sequence. The three values \<^verbatim>\<open>claim\<close>
  returns, 0, 1 and 2, are the constructors of \<open>claim_result\<close>, the last with the two output arguments.
\<close>

record idem_entry =
  ie_done :: bool
  ie_status :: nat
  ie_body :: string

record idem_cache =
  max_entries :: nat
  entries :: "string \<rightharpoonup> idem_entry"
  order :: "string list"

datatype claim_result = ClaimFree | ClaimInFlight | ClaimDone nat string

definition kMaxEntries :: nat where
  "kMaxEntries = 1024"

definition emptyCache :: "nat \<Rightarrow> idem_cache" where
  "emptyCache m = \<lparr>max_entries = m, entries = Map.empty, order = []\<rparr>"

fun evict_loop :: "nat \<Rightarrow> (string \<rightharpoonup> idem_entry) \<Rightarrow> string list \<Rightarrow> (string \<rightharpoonup> idem_entry) \<times> string list" where
  "evict_loop m es [] = (es, [])"
| "evict_loop m es (k # ks) =
     (if m \<le> length (k # ks) then evict_loop m (es(k := None)) ks else (es, k # ks))"

definition evictIfNeeded :: "idem_cache \<Rightarrow> idem_cache" where
  "evictIfNeeded c =
     (let (es, ks) = evict_loop (max_entries c) (entries c) (order c)
      in c\<lparr>entries := es, order := ks\<rparr>)"

definition claim :: "string \<Rightarrow> idem_cache \<Rightarrow> claim_result \<times> idem_cache" where
  "claim key c =
     (case entries c key of
        None \<Rightarrow>
          (let c1 = evictIfNeeded c
           in (ClaimFree,
               c1\<lparr>entries := (entries c1)(key \<mapsto> \<lparr>ie_done = False, ie_status = 0, ie_body = []\<rparr>),
                  order := order c1 @ [key]\<rparr>))
      | Some e \<Rightarrow>
          if \<not> ie_done e then (ClaimInFlight, c)
          else (ClaimDone (ie_status e) (ie_body e), c))"

definition store :: "string \<Rightarrow> nat \<Rightarrow> string \<Rightarrow> idem_cache \<Rightarrow> idem_cache" where
  "store key status body c =
     (case entries c key of
        None \<Rightarrow> c
      | Some e \<Rightarrow>
          c\<lparr>entries := (entries c)(key \<mapsto> \<lparr>ie_done = True, ie_status = status, ie_body = body\<rparr>)\<rparr>)"

definition release :: "string \<Rightarrow> idem_cache \<Rightarrow> idem_cache" where
  "release key c = c\<lparr>entries := (entries c)(key := None), order := remove1 key (order c)\<rparr>"

section \<open>Runs\<close>

datatype idem_op = OpClaim string | OpStore string nat string | OpRelease string

fun apply_op :: "idem_op \<Rightarrow> idem_cache \<Rightarrow> idem_cache" where
  "apply_op (OpClaim k) c = snd (claim k c)"
| "apply_op (OpStore k s b) c = store k s b c"
| "apply_op (OpRelease k) c = release k c"

fun run_ops :: "idem_op list \<Rightarrow> idem_cache \<Rightarrow> idem_cache" where
  "run_ops [] c = c"
| "run_ops (x # xs) c = run_ops xs (apply_op x c)"

lemma run_ops_append: "run_ops (xs @ ys) c = run_ops ys (run_ops xs c)"
  by (induction xs arbitrary: c) auto

section \<open>The invariant of the source's comment\<close>

definition cache_ok :: "idem_cache \<Rightarrow> bool" where
  "cache_ok c \<longleftrightarrow> distinct (order c) \<and> set (order c) = dom (entries c)
     \<and> length (order c) \<le> max 1 (max_entries c)"

lemma evict_loop_spec:
  "distinct ks \<Longrightarrow> evict_loop m es ks = (es', ks') \<Longrightarrow>
   ks' = drop (Suc (length ks) - m) ks \<and> es' = es |` (- set (take (Suc (length ks) - m) ks))"
proof (induction m es ks rule: evict_loop.induct)
  case (1 m es)
  then show ?case by simp
next
  case (2 m es k ks)
  show ?case
  proof (cases "m \<le> length (k # ks)")
    case True
    then have e: "evict_loop m (es(k := None)) ks = (es', ks')" using 2 by simp
    have "distinct ks" using 2(2) by simp
    from 2(1) [OF True this e] have IH: "ks' = drop (Suc (length ks) - m) ks"
      "es' = es(k := None) |` (- set (take (Suc (length ks) - m) ks))" by blast+
    have s: "Suc (length (k # ks)) - m = Suc (Suc (length ks) - m)" using True by simp
    show ?thesis unfolding s IH by (intro conjI ext) (auto simp: restrict_map_def)
  next
    case False
    with 2 show ?thesis by auto
  qed
qed

lemma evict_order:
  "distinct (order c) \<Longrightarrow> order (evictIfNeeded c) = drop (Suc (length (order c)) - max_entries c) (order c)"
  "max_entries (evictIfNeeded c) = max_entries c"
  using evict_loop_spec [of "order c" "max_entries c" "entries c"]
  by (auto simp: evictIfNeeded_def split: prod.splits)

lemma evict_entries:
  "distinct (order c) \<Longrightarrow>
   entries (evictIfNeeded c) =
     entries c |` (- set (take (Suc (length (order c)) - max_entries c) (order c)))"
  using evict_loop_spec [of "order c" "max_entries c" "entries c"]
  by (auto simp: evictIfNeeded_def split: prod.splits)

lemma evict_ok:
  assumes "cache_ok c"
  shows "distinct (order (evictIfNeeded c))" "set (order (evictIfNeeded c)) = dom (entries (evictIfNeeded c))"
    "Suc (length (order (evictIfNeeded c))) \<le> max 1 (max_entries c)"
    "dom (entries (evictIfNeeded c)) \<subseteq> dom (entries c)"
proof -
  let ?n = "Suc (length (order c)) - max_entries c"
  have d: "distinct (order c)" and s: "set (order c) = dom (entries c)"
    using assms by (auto simp: cache_ok_def)
  show "distinct (order (evictIfNeeded c))" using d by (simp add: evict_order)
  have "set (drop ?n (order c)) = set (order c) - set (take ?n (order c))"
    using d by (metis append_take_drop_id distinct_append Diff_cancel Un_Diff Un_commute Diff_triv
        inf_commute set_append sup_bot.left_neutral)
  then show "set (order (evictIfNeeded c)) = dom (entries (evictIfNeeded c))"
    using d s by (auto simp: evict_order evict_entries)
  show "Suc (length (order (evictIfNeeded c))) \<le> max 1 (max_entries c)"
    using d by (auto simp: evict_order)
  show "dom (entries (evictIfNeeded c)) \<subseteq> dom (entries c)"
    using d by (auto simp: evict_entries)
qed

lemma claim_ok [inv_intros]:
  assumes "cache_ok c"
  shows "cache_ok (snd (claim k c))"
proof (cases "entries c k")
  case None
  then have "k \<notin> set (order (evictIfNeeded c))"
    using evict_ok [OF assms] by auto
  with None evict_ok [OF assms] show ?thesis
    by (simp add: claim_def Let_def cache_ok_def evict_order(2))
next
  case (Some e)
  with assms show ?thesis by (simp add: claim_def)
qed

lemma store_ok [inv_intros]: "cache_ok c \<Longrightarrow> cache_ok (store k s b c)"
  by (auto simp: store_def cache_ok_def split: option.splits)

lemma release_ok [inv_intros]: "cache_ok c \<Longrightarrow> cache_ok (release k c)"
  by (auto simp: release_def cache_ok_def length_remove1)

lemma run_ops_ok: "cache_ok c \<Longrightarrow> cache_ok (run_ops xs c)"
proof (induction xs arbitrary: c)
  case (Cons x xs)
  then show ?case by (cases x) (auto intro: inv_intros)
qed simp

lemma emptyCache_ok: "cache_ok (emptyCache m)"
  by (simp add: cache_ok_def emptyCache_def)

lemma max_entries_run [simp]: "max_entries (run_ops xs c) = max_entries c"
proof (induction xs arbitrary: c)
  case (Cons x xs)
  have "max_entries (apply_op x c) = max_entries c"
    by (cases x)
      (auto simp: claim_def store_def release_def Let_def evictIfNeeded_def split: option.splits prod.splits)
  with Cons show ?case by simp
qed simp

section \<open>How long a key is held\<close>

text \<open>\<open>k\<close> is in the cache with entry \<open>e\<close>, and at most \<open>n\<close> keys were claimed after it.\<close>

definition held :: "string \<Rightarrow> idem_entry \<Rightarrow> nat \<Rightarrow> idem_cache \<Rightarrow> bool" where
  "held k e n c \<longleftrightarrow> entries c k = Some e \<and> (\<exists>pre post. order c = pre @ k # post \<and> length post \<le> n)"

fun is_claim :: "idem_op \<Rightarrow> bool" where
  "is_claim (OpClaim k) = True"
| "is_claim _ = False"

text \<open>The operations that change what is kept for \<open>k\<close>: only the request that claimed it issues them.\<close>

fun owner_op :: "string \<Rightarrow> idem_op \<Rightarrow> bool" where
  "owner_op k (OpStore k' s b) = (k' = k)"
| "owner_op k (OpRelease k') = (k' = k)"
| "owner_op k (OpClaim k') = False"

lemma held_evict:
  assumes "cache_ok c" "held k e n c" "Suc n < max_entries c"
  shows "held k e n (evictIfNeeded c)"
proof -
  from assms(2) obtain pre post where o: "order c = pre @ k # post" "length post \<le> n" "entries c k = Some e"
    by (auto simp: held_def)
  let ?n = "Suc (length (order c)) - max_entries c"
  have d: "distinct (order c)" using assms(1) by (simp add: cache_ok_def)
  have n: "?n \<le> length pre" using assms(3) o by simp
  then have "drop ?n (order c) = drop ?n pre @ k # post" "k \<notin> set (take ?n (order c))"
    using d o(1) by (auto dest: in_set_takeD)
  then show ?thesis
    unfolding held_def evict_order(1) [OF d] evict_entries [OF d] using o(2,3) by auto
qed

lemma held_step:
  assumes "cache_ok c" "held k e n c" "\<not> owner_op k x" "is_claim x \<Longrightarrow> Suc n < max_entries c"
  shows "held k e (if is_claim x then Suc n else n) (apply_op x c)"
proof (cases x)
  case (OpClaim k')
  show ?thesis
  proof (cases "entries c k'")
    case None
    from held_evict [OF assms(1,2)] assms(4) OpClaim have "held k e n (evictIfNeeded c)" by simp
    then obtain pre post where "order (evictIfNeeded c) = pre @ k # post" "length post \<le> n"
      "entries (evictIfNeeded c) k = Some e" by (auto simp: held_def)
    moreover have "k' \<noteq> k" using None assms(2) by (auto simp: held_def)
    moreover from calculation have "order (snd (claim k' c)) = pre @ k # (post @ [k'])"
      using None by (simp add: claim_def Let_def)
    moreover have "length (post @ [k']) \<le> Suc n" using calculation by simp
    ultimately have "held k e (Suc n) (snd (claim k' c))"
      using None unfolding held_def by (intro conjI exI) (auto simp: claim_def Let_def)
    then show ?thesis using OpClaim by simp
  next
    case (Some e')
    then have "snd (claim k' c) = c" by (simp add: claim_def)
    with assms(2) OpClaim show ?thesis by (auto simp: held_def intro: le_SucI)
  qed
next
  case (OpStore k' s b)
  with assms(2,3) show ?thesis by (auto simp: held_def store_def split: option.splits)
next
  case (OpRelease k')
  with assms(3) have k': "k' \<noteq> k" by simp
  from assms(2) obtain pre post where o: "order c = pre @ k # post" "length post \<le> n" "entries c k = Some e"
    by (auto simp: held_def)
  have "\<exists>pre' post'. remove1 k' (order c) = pre' @ k # post' \<and> length post' \<le> n"
  proof (cases "k' \<in> set pre")
    case True
    then show ?thesis using o by (auto simp: remove1_append)
  next
    case False
    then have "remove1 k' (order c) = pre @ k # remove1 k' post" using o k' by (simp add: remove1_append)
    moreover have "length (remove1 k' post) \<le> n" using o(2) by (auto simp: length_remove1)
    ultimately show ?thesis by blast
  qed
  with OpRelease o(3) k' show ?thesis by (auto simp: held_def release_def)
qed

lemma held_run:
  assumes "cache_ok c" "held k e n c" "\<forall>x \<in> set xs. \<not> owner_op k x"
    "n + length (filter is_claim xs) < max_entries c"
  shows "held k e (n + length (filter is_claim xs)) (run_ops xs c)"
  using assms
proof (induction xs arbitrary: c n)
  case Nil
  then show ?case by simp
next
  case (Cons x xs)
  have ok: "cache_ok (apply_op x c)" using run_ops_ok [OF Cons.prems(1), of "[x]"] by simp
  have mx: "max_entries (apply_op x c) = max_entries c" using max_entries_run [of "[x]" c] by simp
  have h: "held k e (if is_claim x then Suc n else n) (apply_op x c)"
    using Cons.prems by (intro held_step) auto
  show ?case
    using Cons.IH [OF ok h] Cons.prems(3,4) mx by (cases "is_claim x") simp_all
qed

lemma held_claim: "held k e n c \<Longrightarrow>
  fst (claim k c) = (if ie_done e then ClaimDone (ie_status e) (ie_body e) else ClaimInFlight)"
  by (simp add: held_def claim_def)

lemma held_new:
  "cache_ok c \<Longrightarrow> entries c k = None \<Longrightarrow>
   held k \<lparr>ie_done = False, ie_status = 0, ie_body = []\<rparr> 0 (snd (claim k c))"
  by (auto simp: claim_def Let_def held_def)

lemma held_store: "held k e n c \<Longrightarrow> held k \<lparr>ie_done = True, ie_status = s, ie_body = b\<rparr> n (store k s b c)"
  by (auto simp: held_def store_def)

text \<open>A held key is refused and then replayed.\<close>

lemma claim_replays:
  assumes "cache_ok c" "entries c k = None"
    and "\<forall>x \<in> set (during @ after). \<not> owner_op k x"
    and "length (filter is_claim (during @ after)) < max_entries c"
  shows "fst (claim k c) = ClaimFree
    \<and> fst (claim k (run_ops during (snd (claim k c)))) = ClaimInFlight
    \<and> fst (claim k (run_ops after (store k s b (run_ops during (snd (claim k c)))))) = ClaimDone s b"
proof -
  let ?c1 = "run_ops during (snd (claim k c))"
  have mx: "max_entries (snd (claim k c)) = max_entries c"
    using max_entries_run [of "[OpClaim k]" c] by simp
  have c1: "cache_ok (snd (claim k c))" using assms(1) by (rule claim_ok)
  have h1: "held k \<lparr>ie_done = False, ie_status = 0, ie_body = []\<rparr> (length (filter is_claim during)) ?c1"
    using held_run [OF c1 held_new [OF assms(1,2)], of during] assms(3,4) mx by simp
  have c2: "cache_ok (store k s b ?c1)" by (intro store_ok run_ops_ok c1)
  have "max_entries (store k s b ?c1) = max_entries c"
    using max_entries_run [of "during @ [OpStore k s b]" "snd (claim k c)"] mx by (simp add: run_ops_append)
  then have h2: "held k \<lparr>ie_done = True, ie_status = s, ie_body = b\<rparr>
      (length (filter is_claim during) + length (filter is_claim after)) (run_ops after (store k s b ?c1))"
    using held_run [OF c2 held_store [OF h1], of after] assms(3,4) by simp
  have "fst (claim k c) = ClaimFree" using assms(2) by (simp add: claim_def Let_def)
  then show ?thesis using held_claim [OF h1] held_claim [OF h2] by simp
qed

section \<open>What the cache promises\<close>

text \<open>the invariant of the source's comment, for every sequence of calls on a fresh cache: the order list has
  no duplicates and holds exactly the keys of the map, and the cache never holds more than its limit.\<close>

theorem idempotency_invariant:
  "distinct (order (run_ops xs (emptyCache m)))
   \<and> set (order (run_ops xs (emptyCache m))) = dom (entries (run_ops xs (emptyCache m)))
   \<and> card (dom (entries (run_ops xs (emptyCache m)))) \<le> max 1 m"
proof -
  have ok: "cache_ok (run_ops xs (emptyCache m))" by (intro run_ops_ok emptyCache_ok)
  moreover have "max_entries (run_ops xs (emptyCache m)) = m" by (simp add: emptyCache_def)
  ultimately show ?thesis by (auto simp: cache_ok_def distinct_card [symmetric])
qed

text \<open>C10: a repeated request is not executed twice. From the claim of a free key on, whatever other requests do
  in between, another claim of the key is refused while the first is in flight, and answered with the
  stored response after it is stored, as long as fewer claims than the cache's limit were made since.\<close>

theorem idempotency_replay:
  assumes "cache_ok c" "entries c k = None"
    and "\<forall>x \<in> set (during @ after). \<not> owner_op k x"
    and "length (filter is_claim (during @ after)) < max_entries c"
  shows "fst (claim k c) = ClaimFree
    \<and> fst (claim k (run_ops during (snd (claim k c)))) = ClaimInFlight
    \<and> fst (claim k (run_ops after (store k s b (run_ops during (snd (claim k c)))))) = ClaimDone s b"
  using assms by (rule claim_replays)

theorem idempotency_replay_witness:
  "fst (claim ''k'' (run_ops [OpClaim ''z''] (store ''k'' 202 ''ok''
     (run_ops [OpClaim ''y''] (snd (claim ''k'' (emptyCache 3))))))) = ClaimDone 202 ''ok''"
  using idempotency_replay [of "emptyCache 3" "''k''" "[OpClaim ''y'']" "[OpClaim ''z'']" 202 "''ok''"]
  by (simp add: emptyCache_ok) (simp add: emptyCache_def)

lemma claim_fresh:
  assumes "cache_ok c" "entries c k = None"
  shows "order (snd (claim k c)) = drop (Suc (length (order c)) - max_entries c) (order c) @ [k]"
  using assms by (simp add: claim_def Let_def evict_order cache_ok_def)

text \<open>the bound of the previous property is sharp, and the entry of a request still in flight is not
  spared: after as many claims of new keys as the cache's limit, a second claim of the key succeeds
  although the first request neither stored nor released, so both are executed.\<close>

theorem in_flight_key_evicted:
  assumes "distinct (k # ks)" "0 < m" "length ks = m"
  shows "fst (claim k (run_ops (map OpClaim ks) (snd (claim k (emptyCache m))))) = ClaimFree"
proof -
  let ?c = "snd (claim k (emptyCache m))"
  have gen: "order (run_ops (map OpClaim ys) ?c) = drop (Suc (length ys) - m) (k # ys)"
    if "distinct (k # ys)" for ys
    using that
  proof (induction ys rule: rev_induct)
    case Nil
    then show ?case using assms(2) by (simp add: claim_def emptyCache_def Let_def evictIfNeeded_def)
  next
    case (snoc y ys)
    let ?d = "run_ops (map OpClaim ys) ?c"
    have ok: "cache_ok ?d" by (intro run_ops_ok claim_ok emptyCache_ok)
    have mx: "max_entries ?d = m"
      using max_entries_run [of "[OpClaim k]" "emptyCache m"] by (simp add: emptyCache_def)
    have o: "order ?d = drop (Suc (length ys) - m) (k # ys)" using snoc by auto
    have "y \<notin> set (order ?d)" unfolding o using snoc.prems by (auto dest: in_set_dropD)
    then have "entries ?d y = None" using ok by (auto simp: cache_ok_def)
    then have "order (snd (claim y ?d)) = drop (Suc (length (order ?d)) - m) (order ?d) @ [y]"
      using claim_fresh [OF ok] mx by simp
    also have "\<dots> = drop (Suc (length (ys @ [y])) - m) (k # ys @ [y])"
      using assms(2) unfolding o by (cases "Suc (length ys) \<le> m") (auto simp: Suc_diff_le drop_Cons')
    finally show ?case by (simp add: run_ops_append)
  qed
  let ?e = "run_ops (map OpClaim ks) ?c"
  have "order ?e = ks" using gen [OF assms(1)] assms(2,3) by simp
  moreover have "cache_ok ?e" by (intro run_ops_ok claim_ok emptyCache_ok)
  ultimately have "entries ?e k = None" using assms(1) by (auto simp: cache_ok_def)
  then show ?thesis by (simp add: claim_def Let_def)
qed

theorem in_flight_key_evicted_witness:
  "fst (claim ''a'' (run_ops [OpClaim ''b'', OpClaim ''c''] (snd (claim ''a'' (emptyCache 2))))) = ClaimFree"
  using in_flight_key_evicted [of "''a''" "[''b'', ''c'']" 2] by simp

end
