(* ===== verification/AuthFsm.thy ===== *)
theory AuthFsm
  imports TdApi
begin

text \<open>
  \<^verbatim>\<open>src/src/auth/auth_state.hpp\<close> and \<^verbatim>\<open>auth_state_manager.{hpp,cpp}\<close>: the authorization state the gateway
  keeps, set by TDLib's updates only. The receiver thread is the one writer and takes the mutex for each
  update, the setters and the expected-shutdown flag come from other threads; a run is the sequence of
  these calls. The two callbacks are recorded in \<open>au_calls\<close> in the order they are called. The waiting
  functions return when their condition on the generation or the state holds, which is the condition
  modelled; the counters are the 64-bit words of the source.
\<close>

datatype auth_state =
    Unknown | WaitTdlibParameters | WaitPhoneNumber | WaitCode | WaitPassword
  | WaitOtherDeviceConfirmation | Ready | LoggingOut | Closing | Closed | Unsupported

definition authStateFromTd :: "authorization_state \<Rightarrow> auth_state" where
  "authStateFromTd s = (case s of
     AsWaitTdlibParameters \<Rightarrow> WaitTdlibParameters
   | AsWaitPhoneNumber \<Rightarrow> WaitPhoneNumber
   | AsWaitCode _ \<Rightarrow> WaitCode
   | AsWaitPassword \<Rightarrow> WaitPassword
   | AsWaitOtherDeviceConfirmation _ \<Rightarrow> WaitOtherDeviceConfirmation
   | AsReady \<Rightarrow> Ready
   | AsLoggingOut \<Rightarrow> LoggingOut
   | AsClosing \<Rightarrow> Closing
   | AsClosed \<Rightarrow> Closed
   | AsOther \<Rightarrow> Unsupported)"

definition authStateName :: "auth_state \<Rightarrow> string" where
  "authStateName s = (case s of
     Unknown \<Rightarrow> ''unknown''
   | WaitTdlibParameters \<Rightarrow> ''wait_tdlib_parameters''
   | WaitPhoneNumber \<Rightarrow> ''wait_phone_number''
   | WaitCode \<Rightarrow> ''wait_code''
   | WaitPassword \<Rightarrow> ''wait_password''
   | WaitOtherDeviceConfirmation \<Rightarrow> ''wait_other_device_confirmation''
   | Ready \<Rightarrow> ''ready''
   | LoggingOut \<Rightarrow> ''logging_out''
   | Closing \<Rightarrow> ''closing''
   | Closed \<Rightarrow> ''closed''
   | Unsupported \<Rightarrow> ''unsupported_state'')"

record code_info =
  cd_type :: string
  cd_next_type :: string
  cd_length :: int
  cd_timeout :: int

definition emptyCodeInfo :: code_info where
  "emptyCodeInfo = \<lparr>cd_type = [], cd_next_type = [], cd_length = 0, cd_timeout = 0\<rparr>"

datatype auth_call = TerminationCall | ReadyCall

record auth =
  au_state :: auth_state
  au_expect_shutdown :: bool
  au_termination_reported :: bool
  au_ready_reported :: bool
  au_has_termination_cb :: bool
  au_has_ready_cb :: bool
  au_generation :: u64
  au_update_count :: u64
  au_code_info :: code_info
  au_qr_link :: string
  au_calls :: "auth_call list"

definition auth_init :: auth where
  "auth_init = \<lparr>au_state = Unknown, au_expect_shutdown = False, au_termination_reported = False,
     au_ready_reported = False, au_has_termination_cb = False, au_has_ready_cb = False,
     au_generation = 0, au_update_count = 0, au_code_info = emptyCodeInfo, au_qr_link = [], au_calls = []\<rparr>"

section \<open>Updates\<close>

text \<open>The name of a code type, and the length it stores over the one given.\<close>

definition codeTypeToString :: "code_type option \<Rightarrow> int \<Rightarrow> string \<times> int" where
  "codeTypeToString t len = (case t of
     None \<Rightarrow> ([], len)
   | Some (CodeTelegramMessage l) \<Rightarrow> (''telegram_message'', l)
   | Some (CodeSms l) \<Rightarrow> (''sms'', l)
   | Some (CodeCall l) \<Rightarrow> (''call'', l)
   | Some CodeFlashCall \<Rightarrow> (''flash_call'', len)
   | Some CodeMissedCall \<Rightarrow> (''missed_call'', len)
   | Some CodeFragment \<Rightarrow> (''fragment'', len)
   | Some CodeOther \<Rightarrow> (''other'', len))"

definition codeInfoOf :: "code_info_obj option \<Rightarrow> code_info" where
  "codeInfoOf ci = (case ci of
     None \<Rightarrow> emptyCodeInfo
   | Some c \<Rightarrow>
       (let (ty, len) = codeTypeToString (ci_type c) 0
        in \<lparr>cd_type = ty, cd_next_type = fst (codeTypeToString (ci_next_type c) 0),
            cd_length = len, cd_timeout = ci_timeout c\<rparr>))"

definition isTerminal :: "auth_state \<Rightarrow> bool" where
  "isTerminal s \<longleftrightarrow> s = LoggingOut \<or> s = Closing \<or> s = Closed"

text \<open>
  \<^verbatim>\<open>setState\<close>: the flags are exchanged only when the conditions before them hold, and a flag set while no
  callback is installed stays set.
\<close>

definition setState :: "auth_state \<Rightarrow> auth \<Rightarrow> auth" where
  "setState s a =
     (let a1 = a\<lparr>au_state := s, au_generation := au_generation a + 1\<rparr>;
          try_term = (isTerminal s \<and> \<not> au_expect_shutdown a1);
          term = (try_term \<and> \<not> au_termination_reported a1 \<and> au_has_termination_cb a1);
          a2 = (if try_term then a1\<lparr>au_termination_reported := True\<rparr> else a1);
          try_ready = (s = Ready);
          rdy = (try_ready \<and> \<not> au_ready_reported a2 \<and> au_has_ready_cb a2);
          a3 = (if try_ready then a2\<lparr>au_ready_reported := True\<rparr> else a2)
      in a3\<lparr>au_calls := au_calls a3 @ (if term then [TerminationCall] else [])
                         @ (if rdy then [ReadyCall] else [])\<rparr>)"

definition auth_onUpdate :: "td_object option \<Rightarrow> auth \<Rightarrow> auth" where
  "auth_onUpdate update a = (case update of
     None \<Rightarrow> a
   | Some (UpdateAuthorizationState None) \<Rightarrow> a
   | Some (UpdateAuthorizationState (Some s)) \<Rightarrow>
       (let a1 = (case s of AsWaitOtherDeviceConfirmation link \<Rightarrow> a\<lparr>au_qr_link := link\<rparr> | _ \<Rightarrow> a);
            a2 = (case s of AsWaitCode ci \<Rightarrow> a1\<lparr>au_code_info := codeInfoOf ci\<rparr> | _ \<Rightarrow> a1)
        in setState (authStateFromTd s) a2)
   | Some _ \<Rightarrow> a\<lparr>au_update_count := au_update_count a + 1\<rparr>)"

definition expectShutdown :: "auth \<Rightarrow> auth" where
  "expectShutdown a = a\<lparr>au_expect_shutdown := True\<rparr>"

definition cancelExpectShutdown :: "auth \<Rightarrow> auth" where
  "cancelExpectShutdown a = a\<lparr>au_expect_shutdown := False\<rparr>"

definition setOnUnexpectedTermination :: "auth \<Rightarrow> auth" where
  "setOnUnexpectedTermination a = a\<lparr>au_has_termination_cb := True\<rparr>"

definition setOnReady :: "auth \<Rightarrow> auth" where
  "setOnReady a = a\<lparr>au_has_ready_cb := True\<rparr>"

text \<open>The conditions the waiting functions return on.\<close>

definition firstSeen :: "auth \<Rightarrow> bool" where
  "firstSeen a \<longleftrightarrow> 0 < au_generation a"

definition changedSince :: "u64 \<Rightarrow> auth \<Rightarrow> bool" where
  "changedSince prev a \<longleftrightarrow> prev < au_generation a"

section \<open>Runs\<close>

datatype auth_event =
    Update "td_object option" | ExpectShutdown | CancelExpectShutdown | InstallTermination | InstallReady

fun auth_op :: "auth_event \<Rightarrow> auth \<Rightarrow> auth" where
  "auth_op (Update u) a = auth_onUpdate u a"
| "auth_op ExpectShutdown a = expectShutdown a"
| "auth_op CancelExpectShutdown a = cancelExpectShutdown a"
| "auth_op InstallTermination a = setOnUnexpectedTermination a"
| "auth_op InstallReady a = setOnReady a"

definition auth_run :: "auth_event list \<Rightarrow> auth \<Rightarrow> auth" where
  "auth_run ops a = fold auth_op ops a"

text \<open>The authorization states a run brings, in order.\<close>

fun stateOf :: "auth_event \<Rightarrow> authorization_state list" where
  "stateOf (Update (Some (UpdateAuthorizationState (Some s)))) = [s]"
| "stateOf _ = []"

definition statesOf :: "auth_event list \<Rightarrow> authorization_state list" where
  "statesOf ops = concat (map stateOf ops)"

section \<open>Facts\<close>

lemma auth_op_cases:
  obtains (state) s where "x = Update (Some (UpdateAuthorizationState (Some s)))" | (other) "stateOf x = []"
  by (cases x rule: stateOf.cases) auto

lemma auth_op_other:
  "stateOf x = [] \<Longrightarrow> au_state (auth_op x a) = au_state a \<and> au_generation (auth_op x a) = au_generation a
   \<and> au_calls (auth_op x a) = au_calls a \<and> au_code_info (auth_op x a) = au_code_info a
   \<and> au_termination_reported (auth_op x a) = au_termination_reported a
   \<and> au_ready_reported (auth_op x a) = au_ready_reported a"
  by (cases x rule: stateOf.cases)
    (auto simp: auth_onUpdate_def expectShutdown_def cancelExpectShutdown_def setOnUnexpectedTermination_def
      setOnReady_def split: option.splits td_object.splits)

lemma auth_op_state [step_simps]:
  "au_state (auth_onUpdate (Some (UpdateAuthorizationState (Some s))) a) = authStateFromTd s"
  "au_generation (auth_onUpdate (Some (UpdateAuthorizationState (Some s))) a) = au_generation a + 1"
  "au_code_info (auth_onUpdate (Some (UpdateAuthorizationState (Some s))) a) =
     (case s of AsWaitCode ci \<Rightarrow> codeInfoOf ci | _ \<Rightarrow> au_code_info a)"
  "au_expect_shutdown (auth_onUpdate (Some (UpdateAuthorizationState (Some s))) a) = au_expect_shutdown a"
  "au_has_termination_cb (auth_onUpdate (Some (UpdateAuthorizationState (Some s))) a) = au_has_termination_cb a"
  "au_has_ready_cb (auth_onUpdate (Some (UpdateAuthorizationState (Some s))) a) = au_has_ready_cb a"
  "au_termination_reported (auth_onUpdate (Some (UpdateAuthorizationState (Some s))) a) \<longleftrightarrow>
     au_termination_reported a \<or> (isTerminal (authStateFromTd s) \<and> \<not> au_expect_shutdown a)"
  "au_ready_reported (auth_onUpdate (Some (UpdateAuthorizationState (Some s))) a) \<longleftrightarrow>
     au_ready_reported a \<or> s = AsReady"
  "au_calls (auth_onUpdate (Some (UpdateAuthorizationState (Some s))) a) = au_calls a
     @ (if isTerminal (authStateFromTd s) \<and> \<not> au_expect_shutdown a \<and> \<not> au_termination_reported a
           \<and> au_has_termination_cb a then [TerminationCall] else [])
     @ (if s = AsReady \<and> \<not> au_ready_reported a \<and> au_has_ready_cb a then [ReadyCall] else [])"
  by (cases s; simp add: auth_onUpdate_def setState_def Let_def authStateFromTd_def isTerminal_def)+

lemma auth_run_simps [simp]:
  "auth_run [] a = a"
  "auth_run (x # xs) a = auth_run xs (auth_op x a)"
  "auth_run (xs @ ys) a = auth_run ys (auth_run xs a)"
  by (simp_all add: auth_run_def)

lemma statesOf_simps [simp]:
  "statesOf [] = []" "statesOf (x # xs) = stateOf x @ statesOf xs" "statesOf (xs @ ys) = statesOf xs @ statesOf ys"
  by (simp_all add: statesOf_def)

lemma calls_bounded:
  "count_list (au_calls (auth_run ops a)) TerminationCall
     \<le> count_list (au_calls a) TerminationCall + (if au_termination_reported a then 0 else 1)
   \<and> count_list (au_calls (auth_run ops a)) ReadyCall
     \<le> count_list (au_calls a) ReadyCall + (if au_ready_reported a then 0 else 1)"
proof (induction ops arbitrary: a)
  case (Cons x xs)
  show ?case
  proof (cases x rule: auth_op_cases)
    case (state s)
    then show ?thesis
      using Cons [of "auth_op x a"] by (auto simp: step_simps split: if_splits)
  next
    case other
    then show ?thesis using Cons [of "auth_op x a"] auth_op_other [OF other, of a] by simp
  qed
qed simp

lemma run_state:
  "au_state (auth_run ops a) = (if statesOf ops = [] then au_state a else authStateFromTd (last (statesOf ops)))
   \<and> au_generation (auth_run ops a) = au_generation a + of_nat (length (statesOf ops))
   \<and> au_code_info (auth_run ops a) =
       foldl (\<lambda>c s. case s of AsWaitCode ci \<Rightarrow> codeInfoOf ci | _ \<Rightarrow> c) (au_code_info a) (statesOf ops)"
proof (induction ops arbitrary: a)
  case (Cons x xs)
  show ?case
  proof (cases x rule: auth_op_cases)
    case (state s)
    then show ?thesis using Cons [of "auth_op x a"] by (simp add: step_simps)
  next
    case other
    then show ?thesis using Cons [of "auth_op x a"] auth_op_other [OF other, of a] by simp
  qed
qed simp

lemma flags_kept:
  "stateOf x = [] \<Longrightarrow> x \<noteq> ExpectShutdown \<Longrightarrow> au_has_termination_cb a \<Longrightarrow> au_has_ready_cb a \<Longrightarrow>
   \<not> au_expect_shutdown a \<Longrightarrow>
   au_has_termination_cb (auth_op x a) \<and> au_has_ready_cb (auth_op x a) \<and> \<not> au_expect_shutdown (auth_op x a)"
  by (cases x rule: stateOf.cases)
    (auto simp: auth_onUpdate_def cancelExpectShutdown_def setOnUnexpectedTermination_def
      setOnReady_def split: option.splits td_object.splits)

lemma calls_exact:
  "ExpectShutdown \<notin> set ops \<Longrightarrow> au_has_termination_cb a \<Longrightarrow> au_has_ready_cb a \<Longrightarrow> \<not> au_expect_shutdown a \<Longrightarrow>
   count_list (au_calls (auth_run ops a)) TerminationCall = count_list (au_calls a) TerminationCall
     + (if \<not> au_termination_reported a \<and> (\<exists>s \<in> set (statesOf ops). isTerminal (authStateFromTd s)) then 1 else 0)
   \<and> count_list (au_calls (auth_run ops a)) ReadyCall = count_list (au_calls a) ReadyCall
     + (if \<not> au_ready_reported a \<and> AsReady \<in> set (statesOf ops) then 1 else 0)"
proof (induction ops arbitrary: a)
  case (Cons x xs)
  then have nx: "ExpectShutdown \<notin> set xs" and ne: "x \<noteq> ExpectShutdown" by auto
  show ?case
  proof (cases x rule: auth_op_cases)
    case (state s)
    then show ?thesis
      using Cons.IH [OF nx, of "auth_op x a"] Cons.prems by (auto simp: step_simps)
  next
    case other
    have "au_has_termination_cb (auth_op x a) \<and> au_has_ready_cb (auth_op x a) \<and> \<not> au_expect_shutdown (auth_op x a)"
      using flags_kept [OF other ne] Cons.prems by blast
    then show ?thesis
      using Cons.IH [OF nx, of "auth_op x a"] auth_op_other [OF other, of a] other by simp
  qed
qed simp

section \<open>What the manager promises\<close>

text \<open>the state served to clients is that of the last authorization update and nothing else changes it; the
  generation counts those updates, so that a waiter misses no change; and the code information is that
  of the last \<^verbatim>\<open>wait_code\<close> (it is never cleared when that state is left, so outside \<^verbatim>\<open>wait_code\<close> it is
  stale and not empty, as the header's comment says).\<close>

theorem auth_state_follows_updates:
  "au_state (auth_run ops auth_init) =
     (if statesOf ops = [] then Unknown else authStateFromTd (last (statesOf ops)))
   \<and> au_generation (auth_run ops auth_init) = of_nat (length (statesOf ops))
   \<and> au_code_info (auth_run ops auth_init) =
       foldl (\<lambda>c s. case s of AsWaitCode ci \<Rightarrow> codeInfoOf ci | _ \<Rightarrow> c) emptyCodeInfo (statesOf ops)"
  using run_state [of ops auth_init] by (simp add: auth_init_def)

text \<open>with both callbacks installed and no shutdown announced, the callback for an unexpected end of the
  session is called exactly once when a terminal state ever comes and never otherwise, and the one for
  readiness likewise, whatever the sequence of updates.\<close>

theorem auth_callbacks_exactly_once:
  assumes "ExpectShutdown \<notin> set ops"
  shows "count_list (au_calls (auth_run (InstallTermination # InstallReady # ops) auth_init)) TerminationCall =
      (if \<exists>s \<in> set (statesOf ops). isTerminal (authStateFromTd s) then 1 else 0)
    \<and> count_list (au_calls (auth_run (InstallTermination # InstallReady # ops) auth_init)) ReadyCall =
      (if AsReady \<in> set (statesOf ops) then 1 else 0)"
  using calls_exact [OF assms, of "setOnReady (setOnUnexpectedTermination auth_init)"]
  by (simp add: auth_init_def setOnReady_def setOnUnexpectedTermination_def)

theorem auth_callbacks_exactly_once_witness:
  "count_list (au_calls (auth_run [InstallTermination, InstallReady,
      Update (Some (UpdateAuthorizationState (Some AsReady))),
      Update (Some (UpdateAuthorizationState (Some AsLoggingOut))),
      Update (Some (UpdateAuthorizationState (Some AsClosed)))] auth_init)) TerminationCall = 1"
  using auth_callbacks_exactly_once [of "[Update (Some (UpdateAuthorizationState (Some AsReady))),
      Update (Some (UpdateAuthorizationState (Some AsLoggingOut))),
      Update (Some (UpdateAuthorizationState (Some AsClosed)))]"]
  by (simp add: authStateFromTd_def isTerminal_def)

text \<open>once shutdown is announced and while it is not called off, no terminal state triggers the callback for
  an unexpected end.\<close>

theorem expected_shutdown_silent:
  assumes "au_expect_shutdown a" "CancelExpectShutdown \<notin> set ops"
  shows "count_list (au_calls (auth_run ops a)) TerminationCall = count_list (au_calls a) TerminationCall"
  using assms
proof (induction ops arbitrary: a)
  case (Cons x xs)
  show ?case
  proof (cases x rule: auth_op_cases)
    case (state s)
    then show ?thesis using Cons by (simp add: step_simps)
  next
    case other
    have "au_expect_shutdown (auth_op x a)"
      using Cons.prems other
      by (cases x rule: stateOf.cases)
        (auto simp: auth_onUpdate_def expectShutdown_def setOnUnexpectedTermination_def setOnReady_def
          split: option.splits td_object.splits)
    then show ?thesis using Cons auth_op_other [OF other, of a] by simp
  qed
qed simp

theorem expected_shutdown_silent_witness:
  "au_calls (auth_run [Update (Some (UpdateAuthorizationState (Some AsClosed)))]
     (expectShutdown (setOnUnexpectedTermination auth_init))) = []"
proof -
  let ?a = "expectShutdown (setOnUnexpectedTermination auth_init)"
  let ?ops = "[Update (Some (UpdateAuthorizationState (Some AsClosed)))]"
  have "count_list (au_calls (auth_run ?ops ?a)) TerminationCall = count_list (au_calls ?a) TerminationCall"
    by (rule expected_shutdown_silent) (simp_all add: expectShutdown_def)
  then show ?thesis
    by (simp add: step_simps auth_init_def expectShutdown_def setOnUnexpectedTermination_def)
qed

end
