(* ===== verification/ResolveOnce.thy ===== *)
theory ResolveOnce
  imports Prelude "HOL-Library.Multiset"
begin

text \<open>
  The discipline that the TDLib bridge and the message send tracker share, as their comments say: a
  waiting coroutine has one shared state; a table under a mutex maps a key to it; whoever takes the
  node out of the table, by one atomic find-and-erase, owns the resolving of that state; resolving
  stores the result once and hands the coroutine to its event loop, which resumes it. Several threads
  do this at once, so what matters is what holds after any interleaving of the atomic actions.

  \<open>('k, 'r) once\<close> is the memory they share. A shared state is the index of its slot; \<open>claimed\<close> holds the
  states that some thread has taken out of the table and not yet resolved, with the result it is about
  to store; \<open>queued\<close> the states whose coroutine waits in its event loop; \<open>resumed\<close> is the history of
  resumptions with the value \<^verbatim>\<open>await_resume\<close> returned.
\<close>

record ('k, 'r) once =
  table :: "('k \<times> nat) list"
  slots :: "'r option list"
  claimed :: "(nat \<times> 'r) list"
  queued :: "nat list"
  resumed :: "(nat \<times> 'r) list"

definition once_empty :: "('k, 'r) once" where
  "once_empty = \<lparr>table = [], slots = [], claimed = [], queued = [], resumed = []\<rparr>"

section \<open>The atomic actions\<close>

text \<open>A coroutine suspends: its fresh state enters the table under a key that is not there.\<close>

definition once_insert :: "'k \<Rightarrow> ('k, 'r) once \<Rightarrow> ('k, 'r) once" where
  "once_insert k c = c\<lparr>table := table c @ [(k, length (slots c))], slots := slots c @ [None]\<rparr>"

text \<open>A coroutine is not suspended: the result is there at once and \<^verbatim>\<open>await_resume\<close> returns it.\<close>

definition once_reject :: "'r \<Rightarrow> ('k, 'r) once \<Rightarrow> ('k, 'r) once" where
  "once_reject r c = c\<lparr>slots := slots c @ [Some r], resumed := resumed c @ [(length (slots c), r)]\<rparr>"

text \<open>Find and erase, and the owner's intention to resolve with \<open>r\<close>; nothing when the key is not there.\<close>

definition once_claim :: "'k \<Rightarrow> 'r \<Rightarrow> ('k, 'r) once \<Rightarrow> ('k, 'r) once" where
  "once_claim k r c = (case map_of (table c) k of
     None \<Rightarrow> c
   | Some i \<Rightarrow> c\<lparr>table := filter (\<lambda>e. fst e \<noteq> k) (table c), claimed := claimed c @ [(i, r)]\<rparr>)"

text \<open>The same for every node that passes a test, in one critical section.\<close>

definition once_claim_all :: "(nat \<Rightarrow> bool) \<Rightarrow> 'r \<Rightarrow> ('k, 'r) once \<Rightarrow> ('k, 'r) once" where
  "once_claim_all P r c =
     c\<lparr>table := filter (\<lambda>e. \<not> P (snd e)) (table c),
       claimed := claimed c @ map (\<lambda>e. (snd e, r)) (filter (\<lambda>e. P (snd e)) (table c))\<rparr>"

text \<open>
  The owner stores its result, under the state's own mutex, unless one is there already, and then
  resumes the coroutine through its event loop or, when that loop is not running, on the spot.
\<close>

definition once_resolve :: "bool \<Rightarrow> nat \<times> 'r \<Rightarrow> ('k, 'r) once \<Rightarrow> ('k, 'r) once" where
  "once_resolve loop_running e c =
     (let c1 = c\<lparr>claimed := remove1 e (claimed c)\<rparr>; i = fst e; r = snd e
      in if slots c ! i \<noteq> None then c1
         else (let c2 = c1\<lparr>slots := (slots c1)[i := Some r]\<rparr>
               in if loop_running then c2\<lparr>queued := queued c2 @ [i]\<rparr>
                  else c2\<lparr>resumed := resumed c2 @ [(i, r)]\<rparr>))"

text \<open>The event loop runs a queued resumption.\<close>

definition once_resume :: "nat \<Rightarrow> ('k, 'r) once \<Rightarrow> ('k, 'r) once" where
  "once_resume i c =
     (case slots c ! i of
        None \<Rightarrow> c
      | Some r \<Rightarrow> c\<lparr>queued := remove1 i (queued c), resumed := resumed c @ [(i, r)]\<rparr>)"

section \<open>The invariant\<close>

text \<open>
  Every state ever made is in exactly one place: in the table, claimed, queued, or resumed, and in that
  place once. Before it is resolved its slot is empty, afterwards it holds what was or will be returned.
\<close>

definition places :: "('k, 'r) once \<Rightarrow> nat multiset" where
  "places c = mset (map snd (table c)) + mset (map fst (claimed c)) + mset (queued c)
     + mset (map fst (resumed c))"

definition once_inv :: "('k, 'r) once \<Rightarrow> bool" where
  "once_inv c \<longleftrightarrow>
     distinct (map fst (table c)) \<and> places c = mset [0..<length (slots c)]
     \<and> (\<forall>e \<in> set (table c). slots c ! snd e = None)
     \<and> (\<forall>e \<in> set (claimed c). slots c ! fst e = None)
     \<and> (\<forall>i \<in> set (queued c). slots c ! i \<noteq> None)
     \<and> (\<forall>e \<in> set (resumed c). slots c ! fst e = Some (snd e))"

lemma once_inv_empty [intro, simp]: "once_inv once_empty"
  by (simp add: once_inv_def once_empty_def places_def)

lemma in_places_less:
  assumes "once_inv c" "i \<in># places c"
  shows "i < length (slots c)"
  using assms by (simp add: once_inv_def)

lemma place_bounds:
  assumes "once_inv c"
  shows "e \<in> set (table c) \<Longrightarrow> snd e < length (slots c)"
    "x \<in> set (claimed c) \<Longrightarrow> fst x < length (slots c)"
    "i \<in> set (queued c) \<Longrightarrow> i < length (slots c)"
    "x \<in> set (resumed c) \<Longrightarrow> fst x < length (slots c)"
  using in_places_less [OF assms] by (auto simp: places_def)

lemma places_once:
  assumes "once_inv c"
  shows "distinct (map snd (table c) @ map fst (claimed c) @ queued c @ map fst (resumed c))"
proof -
  have "mset (map snd (table c) @ map fst (claimed c) @ queued c @ map fst (resumed c)) =
      mset [0..<length (slots c)]"
    using assms by (simp add: once_inv_def places_def ac_simps)
  then show ?thesis by (metis distinct_upt mset_eq_imp_distinct_iff)
qed

lemma once_insert_inv [inv_intros]:
  assumes "once_inv c" "k \<notin> fst ` set (table c)"
  shows "once_inv (once_insert k c)"
proof -
  note b = place_bounds [OF assms(1)]
  show ?thesis
    using assms b
    by (auto simp: once_inv_def once_insert_def places_def nth_append image_iff)
qed

lemma once_reject_inv [inv_intros]:
  assumes "once_inv c"
  shows "once_inv (once_reject r c)"
proof -
  note b = place_bounds [OF assms]
  show ?thesis
    using assms b by (auto simp: once_inv_def once_reject_def places_def nth_append)
qed

lemma table_split:
  assumes "distinct (map fst xs)" "map_of xs k = Some i"
  shows "mset (map snd xs) = mset (map snd (filter (\<lambda>e. fst e \<noteq> k) xs)) + {#i#}"
  using assms
proof (induction xs)
  case (Cons e xs)
  show ?case
  proof (cases "fst e = k")
    case True
    then have "filter (\<lambda>e. fst e \<noteq> k) xs = xs" using Cons.prems(1) by (auto simp: filter_id_conv image_iff)
    then show ?thesis using True Cons.prems(2) by (cases e) simp
  next
    case False
    then show ?thesis using Cons by (cases e) simp
  qed
qed simp

lemma once_claim_inv [inv_intros]:
  assumes "once_inv c"
  shows "once_inv (once_claim k r c)"
proof (cases "map_of (table c) k")
  case None
  with assms show ?thesis by (simp add: once_claim_def)
next
  case (Some i)
  then have "(k, i) \<in> set (table c)" by (rule map_of_SomeD)
  moreover have "distinct (map fst (filter (\<lambda>e. fst e \<noteq> k) (table c)))"
    using assms by (auto simp: once_inv_def distinct_map_filter)
  moreover have "mset (map snd (table c)) = mset (map snd (filter (\<lambda>e. fst e \<noteq> k) (table c))) + {#i#}"
    using assms Some by (intro table_split) (simp_all add: once_inv_def)
  ultimately show ?thesis
    using assms Some by (auto simp: once_inv_def once_claim_def places_def)
qed

lemma mset_split: "mset (map f (filter (\<lambda>e. \<not> P e) xs)) + mset (map f (filter P xs)) = mset (map f xs)"
  by (induction xs) auto

lemma once_claim_all_inv [inv_intros]:
  assumes "once_inv c"
  shows "once_inv (once_claim_all P r c)"
proof -
  have "mset (map snd (filter (\<lambda>e. \<not> P (snd e)) (table c))) + mset (map snd (filter (\<lambda>e. P (snd e)) (table c)))
      = mset (map snd (table c))"
    by (rule mset_split)
  moreover have "distinct (map fst (filter (\<lambda>e. \<not> P (snd e)) (table c)))"
    using assms by (auto simp: once_inv_def distinct_map_filter)
  ultimately show ?thesis
    using assms by (auto simp: once_inv_def once_claim_all_def places_def comp_def ac_simps)
qed

lemma once_resolve_inv [inv_intros]:
  assumes "once_inv c" "e \<in> set (claimed c)"
  shows "once_inv (once_resolve b e c)"
proof -
  obtain i r where e: "e = (i, r)" by (cases e)
  note d = places_once [OF assms(1)]
  have i: "i < length (slots c)" "slots c ! i = None" "i \<in> fst ` set (claimed c)"
    using place_bounds(2) [OF assms] assms e by (auto simp: once_inv_def) force
  obtain C where C: "mset (claimed c) = add_mset e C"
    using assms(2) by (metis multi_member_split set_mset_mset)
  then have cl: "mset (map fst (claimed c)) = mset (map fst (remove1 e (claimed c))) + {#i#}"
    using e by simp
  have ni: "i \<notin> snd ` set (table c)" "i \<notin> set (queued c)" "i \<notin> fst ` set (resumed c)"
    using d i(3) by auto
  have nr: "i \<notin> fst ` set (remove1 e (claimed c))"
  proof -
    have "distinct (map fst (claimed c))" using d by simp
    then have "distinct (i # map fst (remove1 e (claimed c)))"
      using cl by (metis mset_eq_imp_distinct_iff mset.simps(2) add_mset_add_single)
    then show ?thesis by simp
  qed
  have upd: "(slots c)[i := Some r] ! j = (if j = i then Some r else slots c ! j)" for j
    using i(1) by (simp add: nth_list_update)
  have rem: "x \<in> set (remove1 e (claimed c)) \<Longrightarrow> x \<in> set (claimed c) \<and> fst x \<noteq> i" for x
    using nr notin_set_remove1 [of x "claimed c" e] by (auto simp: image_iff)
  have "places (once_resolve b e c) = places c"
    using e i cl by (cases b) (simp_all add: once_resolve_def places_def Let_def)
  moreover have "slots (once_resolve b e c) = (slots c)[i := Some r]"
    using e i by (simp add: once_resolve_def Let_def)
  moreover have "table (once_resolve b e c) = table c"
    "set (claimed (once_resolve b e c)) = set (remove1 e (claimed c))"
    "set (queued (once_resolve b e c)) = (if b then insert i (set (queued c)) else set (queued c))"
    "set (resumed (once_resolve b e c)) = (if b then set (resumed c) else insert (i, r) (set (resumed c)))"
    using e i by (simp_all add: once_resolve_def Let_def)
  moreover have "\<forall>x \<in> set (table c). snd x \<noteq> i" "\<forall>x \<in> set (resumed c). fst x \<noteq> i"
    using ni by (auto simp: image_iff)
  ultimately show ?thesis
    using assms(1) rem ni(2) by (auto simp: once_inv_def upd)
qed

lemma once_resume_inv [inv_intros]:
  assumes "once_inv c" "i \<in> set (queued c)"
  shows "once_inv (once_resume i c)"
proof -
  obtain r where r: "slots c ! i = Some r" using assms by (auto simp: once_inv_def)
  obtain Q where Q: "mset (queued c) = add_mset i Q"
    using assms(2) by (metis multi_member_split set_mset_mset)
  then have "places (once_resume i c) = places c"
    using r by (simp add: places_def once_resume_def)
  moreover have "length (slots (once_resume i c)) = length (slots c)"
    using r by (simp add: once_resume_def)
  ultimately show ?thesis
    using assms r by (auto simp: once_inv_def once_resume_def dest: notin_set_remove1)
qed

section \<open>The table as an interface\<close>

text \<open>
  What the discipline needs of the table: an insertion that is accepted under a free key binds it and
  nothing else, one that is refused changes nothing, and a claim returns the binding and removes it.
\<close>

locale claim_table =
  fixes look :: "'t \<Rightarrow> 'k \<Rightarrow> 'v option"
    and tins :: "'k \<Rightarrow> 'v \<Rightarrow> 't \<Rightarrow> bool \<times> 't"
    and tclaim :: "'k \<Rightarrow> 't \<Rightarrow> 'v option \<times> 't"
  assumes claim_found: "fst (tclaim k t) = look t k"
    and claim_erased: "look (snd (tclaim k t)) = (look t)(k := None)"
    and ins_accepted: "fst (tins k v t) \<Longrightarrow> look t k = None \<Longrightarrow> look (snd (tins k v t)) = (look t)(k \<mapsto> v)"
    and ins_refused: "\<not> fst (tins k v t) \<Longrightarrow> snd (tins k v t) = t"
begin

lemma claim_twice: "fst (tclaim k (snd (tclaim k t))) = None"
  by (simp add: claim_found claim_erased)

lemma claim_other: "k' \<noteq> k \<Longrightarrow> fst (tclaim k' (snd (tclaim k t))) = fst (tclaim k' t)"
  by (simp add: claim_found claim_erased)

text \<open>Of any sequence of claims, by whatever threads, the first for a key gets its value and no other.\<close>

lemma claims_after_None:
  "look t k = None \<Longrightarrow>
   look (fold (\<lambda>k t. snd (tclaim k t)) ks t) k = None"
  by (induction ks arbitrary: t) (simp_all add: claim_erased)

lemma claims_look:
  "look (fold (\<lambda>k t. snd (tclaim k t)) ks t) k = (if k \<in> set ks then None else look t k)"
  by (induction ks arbitrary: t) (simp_all add: claim_erased)

lemma one_owner:
  assumes "fst (tins k v t)" "look t k = None"
  shows "fst (tclaim k (fold (\<lambda>k t. snd (tclaim k t)) ks (snd (tins k v t)))) =
    (if k \<in> set ks then None else Some v)"
  using ins_accepted [OF assms] by (simp add: claim_found claims_look)

end

text \<open>Find and erase on an association list, the table of both users of the discipline.\<close>

definition table_claim :: "'k \<Rightarrow> ('k \<times> 'v) list \<Rightarrow> 'v option \<times> ('k \<times> 'v) list" where
  "table_claim k t = (map_of t k, filter (\<lambda>e. fst e \<noteq> k) t)"

lemma map_of_filter_neq: "map_of (filter (\<lambda>e. fst e \<noteq> k) t) = (map_of t)(k := None)"
  by (induction t) (auto simp: fun_eq_iff)

lemma table_claim_laws:
  "fst (table_claim k t) = map_of t k"
  "map_of (snd (table_claim k t)) = (map_of t)(k := None)"
  by (simp_all add: table_claim_def map_of_filter_neq)

lemma once_claim_table:
  "once_claim k r c = (case table_claim k (table c) of
     (None, _) \<Rightarrow> c
   | (Some i, t) \<Rightarrow> c\<lparr>table := t, claimed := claimed c @ [(i, r)]\<rparr>)"
  by (simp add: once_claim_def table_claim_def)

section \<open>Running to the end\<close>

text \<open>All claimed states resolved and all queued resumptions run, in the order they stand.\<close>

definition settle :: "bool \<Rightarrow> ('k, 'r) once \<Rightarrow> ('k, 'r) once" where
  "settle loop_running c =
     (let c1 = fold (once_resolve loop_running) (claimed c) c
      in fold once_resume (queued c1) c1)"

lemma once_resolve_frame:
  assumes "e \<in> set (claimed c)"
  shows "table (once_resolve b e c) = table c" "length (slots (once_resolve b e c)) = length (slots c)"
    "claimed (once_resolve b e c) = remove1 e (claimed c)"
  using assms by (simp_all add: once_resolve_def Let_def)

lemma once_resume_frame:
  "table (once_resume i c) = table c" "slots (once_resume i c) = slots c"
  "claimed (once_resume i c) = claimed c"
  by (simp_all add: once_resume_def split: option.splits)

lemma once_resume_queued: "once_inv c \<Longrightarrow> i \<in> set (queued c) \<Longrightarrow> queued (once_resume i c) = remove1 i (queued c)"
  by (auto simp: once_resume_def once_inv_def split: option.splits)

lemma fold_resolve:
  "once_inv c \<Longrightarrow> claimed c = es \<Longrightarrow>
   once_inv (fold (once_resolve b) es c) \<and> claimed (fold (once_resolve b) es c) = []
   \<and> table (fold (once_resolve b) es c) = table c
   \<and> length (slots (fold (once_resolve b) es c)) = length (slots c)"
proof (induction es arbitrary: c)
  case (Cons e es)
  then have e: "e \<in> set (claimed c)" by simp
  have cl: "claimed (once_resolve b e c) = es" using once_resolve_frame(3) [OF e] Cons.prems(2) by simp
  show ?case
    using Cons.IH [OF once_resolve_inv [OF Cons.prems(1) e] cl] once_resolve_frame(1,2) [OF e, of b] by simp
qed simp

lemma fold_resume:
  "once_inv c \<Longrightarrow> queued c = qs \<Longrightarrow>
   once_inv (fold once_resume qs c) \<and> queued (fold once_resume qs c) = []
   \<and> table (fold once_resume qs c) = table c \<and> claimed (fold once_resume qs c) = claimed c
   \<and> slots (fold once_resume qs c) = slots c"
proof (induction qs arbitrary: c)
  case (Cons q qs)
  then have q: "q \<in> set (queued c)" by simp
  have qu: "queued (once_resume q c) = qs" using once_resume_queued [OF Cons.prems(1) q] Cons.prems(2) by simp
  show ?case
    using Cons.IH [OF once_resume_inv [OF Cons.prems(1) q] qu] once_resume_frame [of q c] by simp
qed simp

lemma settle_inv: "once_inv c \<Longrightarrow>
  once_inv (settle b c) \<and> claimed (settle b c) = [] \<and> queued (settle b c) = []
  \<and> table (settle b c) = table c \<and> length (slots (settle b c)) = length (slots c)"
  using fold_resolve [of c "claimed c" b]
    fold_resume [of "fold (once_resolve b) (claimed c) c" "queued (fold (once_resolve b) (claimed c) c)"]
  by (simp add: settle_def Let_def)

lemma settled_all_resumed:
  assumes "once_inv c" "table c = []"
  shows "mset (map fst (resumed (settle b c))) = mset [0..<length (slots c)]"
  using settle_inv [OF assms(1), of b] assms(2) by (auto simp: once_inv_def places_def)

end
