(* ===== verification/SendTracker.thy ===== *)
theory SendTracker
  imports ResolveOnce Json
begin

text \<open>
  \<^verbatim>\<open>src/src/bridge/message_send_tracker.{hpp,cpp}\<close>: a handler that has sent a message waits here for
  TDLib to confirm it under the temporary id. The waiter's state is resolved by the receiver thread
  (the outcome), by the timer of its own event loop, or by the drain at shutdown (no outcome), and the
  discipline is the one of \<open>ResolveOnce\<close>. \<open>None\<close> as a result is the \<^verbatim>\<open>nullopt\<close> of a timeout. A timer is
  never cancelled; it knows its message id only, and claims whatever is in the table under that id.
\<close>

datatype send_outcome = SendSucceeded json | SendFailed int string

record tracker =
  t_once :: "(int, send_outcome option) once"
  t_ids :: "int list"
  t_timers :: "int list"
  t_reported :: "(int \<times> send_outcome) list"

definition tracker_init :: tracker where
  "tracker_init = \<lparr>t_once = once_empty, t_ids = [], t_timers = [], t_reported = []\<rparr>"

section \<open>The operations\<close>

text \<open>\<^verbatim>\<open>emplace\<close> under a key that is there inserts nothing and says so.\<close>

definition track_tryInsert :: "'k \<Rightarrow> 'v \<Rightarrow> ('k \<times> 'v) list \<Rightarrow> bool \<times> ('k \<times> 'v) list" where
  "track_tryInsert k v t = (if map_of t k \<noteq> None then (False, t) else (True, t @ [(k, v)]))"

interpretation track: claim_table map_of track_tryInsert table_claim
  by unfold_locales
    (auto simp: table_claim_laws track_tryInsert_def map_add_def fun_eq_iff split: option.splits if_splits)

text \<open>\<^verbatim>\<open>Awaitable::await_suspend\<close>: registered first, the timer set after; not suspended at all when the id is taken.\<close>

definition track_suspend :: "int \<Rightarrow> tracker \<Rightarrow> tracker" where
  "track_suspend mid t =
     (let t1 = t\<lparr>t_ids := t_ids t @ [mid]\<rparr>
      in case track_tryInsert mid (length (slots (t_once t))) (table (t_once t)) of
           (False, _) \<Rightarrow> t1\<lparr>t_once := once_reject None (t_once t)\<rparr>
         | (True, tbl) \<Rightarrow>
             t1\<lparr>t_once := (t_once t)\<lparr>table := tbl, slots := slots (t_once t) @ [None]\<rparr>,
                t_timers := t_timers t @ [mid]\<rparr>)"

text \<open>The timer's callback up to the end of its claim, then its resolving: the coroutine is resumed on the spot.\<close>

definition timer_claim :: "int \<Rightarrow> tracker \<Rightarrow> tracker" where
  "timer_claim mid t =
     t\<lparr>t_timers := remove1 mid (t_timers t), t_once := once_claim mid None (t_once t)\<rparr>"

text \<open>\<^verbatim>\<open>resolveWith\<close> up to the end of its claim.\<close>

definition outcome_claim :: "int \<Rightarrow> send_outcome \<Rightarrow> tracker \<Rightarrow> tracker" where
  "outcome_claim mid out t =
     t\<lparr>t_reported := t_reported t @ [(mid, out)], t_once := once_claim mid (Some out) (t_once t)\<rparr>"

definition track_resolve :: "bool \<Rightarrow> nat \<times> send_outcome option \<Rightarrow> tracker \<Rightarrow> tracker" where
  "track_resolve loop_running e t = t\<lparr>t_once := once_resolve loop_running e (t_once t)\<rparr>"

definition track_resolve_claimed :: "bool \<Rightarrow> tracker \<Rightarrow> tracker" where
  "track_resolve_claimed loop_running t = fold (track_resolve loop_running) (claimed (t_once t)) t"

definition resolveWith :: "bool \<Rightarrow> int \<Rightarrow> send_outcome \<Rightarrow> tracker \<Rightarrow> tracker" where
  "resolveWith loop_running mid out t = track_resolve_claimed loop_running (outcome_claim mid out t)"

definition resolveSucceeded :: "bool \<Rightarrow> int \<Rightarrow> json \<Rightarrow> tracker \<Rightarrow> tracker" where
  "resolveSucceeded lr mid msg t = resolveWith lr mid (SendSucceeded msg) t"

definition resolveFailed :: "bool \<Rightarrow> int \<Rightarrow> int \<Rightarrow> string \<Rightarrow> tracker \<Rightarrow> tracker" where
  "resolveFailed lr mid code msg t = resolveWith lr mid (SendFailed code msg) t"

definition timer_fires :: "int \<Rightarrow> tracker \<Rightarrow> tracker" where
  "timer_fires mid t = track_resolve_claimed False (timer_claim mid t)"

text \<open>\<^verbatim>\<open>drainAll\<close>: the whole table at once, each state resolved without an outcome.\<close>

definition drain_claim :: "tracker \<Rightarrow> tracker" where
  "drain_claim t = t\<lparr>t_once := once_claim_all (\<lambda>_. True) None (t_once t)\<rparr>"

definition drainAll :: "bool \<Rightarrow> tracker \<Rightarrow> tracker" where
  "drainAll loop_running t = track_resolve_claimed loop_running (drain_claim t)"

section \<open>Interleaving\<close>

inductive tstep :: "tracker \<Rightarrow> tracker \<Rightarrow> bool" where
  t_suspend: "tstep t (track_suspend mid t)"
| t_timer: "mid \<in> set (t_timers t) \<Longrightarrow> tstep t (timer_claim mid t)"
| t_outcome: "tstep t (outcome_claim mid out t)"
| t_drain: "tstep t (drain_claim t)"
| t_resolve: "e \<in> set (claimed (t_once t)) \<Longrightarrow> tstep t (track_resolve lr e t)"
| t_resume: "i \<in> set (queued (t_once t)) \<Longrightarrow> tstep t (t\<lparr>t_once := once_resume i (t_once t)\<rparr>)"

inductive tracker_reachable :: "tracker \<Rightarrow> bool" where
  t_init: "tracker_reachable tracker_init"
| t_step: "tracker_reachable t \<Longrightarrow> tstep t t' \<Longrightarrow> tracker_reachable t'"

section \<open>The invariant\<close>

text \<open>A result is no outcome, or one that was reported for the waiter's own message id.\<close>

definition own_outcome :: "tracker \<Rightarrow> nat \<Rightarrow> send_outcome option \<Rightarrow> bool" where
  "own_outcome t i r \<longleftrightarrow> (case r of None \<Rightarrow> True | Some out \<Rightarrow> (t_ids t ! i, out) \<in> set (t_reported t))"

definition tracker_inv :: "tracker \<Rightarrow> bool" where
  "tracker_inv t \<longleftrightarrow>
     once_inv (t_once t) \<and> length (t_ids t) = length (slots (t_once t))
     \<and> (\<forall>e \<in> set (table (t_once t)). fst e = t_ids t ! snd e)
     \<and> (\<forall>e \<in> set (claimed (t_once t)). own_outcome t (fst e) (snd e))
     \<and> (\<forall>i < length (slots (t_once t)). \<forall>r. slots (t_once t) ! i = Some r \<longrightarrow> own_outcome t i r)"

lemma tracker_invD:
  assumes "tracker_inv t"
  shows "once_inv (t_once t)" "length (t_ids t) = length (slots (t_once t))"
    "e \<in> set (table (t_once t)) \<Longrightarrow> fst e = t_ids t ! snd e"
    "x \<in> set (claimed (t_once t)) \<Longrightarrow> own_outcome t (fst x) (snd x)"
    "i < length (slots (t_once t)) \<Longrightarrow> slots (t_once t) ! i = Some r \<Longrightarrow> own_outcome t i r"
  using assms by (auto simp: tracker_inv_def)

lemma tracker_invI:
  assumes "once_inv (t_once t)" "length (t_ids t) = length (slots (t_once t))"
    "\<And>e. e \<in> set (table (t_once t)) \<Longrightarrow> fst e = t_ids t ! snd e"
    "\<And>x. x \<in> set (claimed (t_once t)) \<Longrightarrow> own_outcome t (fst x) (snd x)"
    "\<And>i r. i < length (slots (t_once t)) \<Longrightarrow> slots (t_once t) ! i = Some r \<Longrightarrow> own_outcome t i r"
  shows "tracker_inv t"
  unfolding tracker_inv_def using assms by blast

lemma tracker_inv_init: "tracker_inv tracker_init"
  by (simp add: tracker_inv_def tracker_init_def once_inv_empty [unfolded once_empty_def] once_empty_def)

lemma own_grow: "own_outcome t i r \<Longrightarrow> i < length (t_ids t) \<Longrightarrow> t_ids t' = t_ids t @ x \<Longrightarrow>
   set (t_reported t) \<subseteq> set (t_reported t') \<Longrightarrow> own_outcome t' i r"
  by (auto simp: own_outcome_def nth_append split: option.splits)

lemma own_None [simp]: "own_outcome t i None"
  by (simp add: own_outcome_def)

lemma track_suspend_inv [inv_intros]:
  assumes "tracker_inv t"
  shows "tracker_inv (track_suspend mid t)"
proof -
  note D = tracker_invD [OF assms]
  let ?t = "track_suspend mid t"
  have ids: "t_ids ?t = t_ids t @ [mid]" "t_reported ?t = t_reported t"
    by (simp_all add: track_suspend_def track_tryInsert_def Let_def)
  have once: "t_once ?t = (if map_of (table (t_once t)) mid = None then once_insert mid (t_once t)
      else once_reject None (t_once t))"
    by (auto simp: track_suspend_def track_tryInsert_def Let_def once_insert_def)
  have len: "length (t_ids t) = length (slots (t_once t))" by (rule D(2))
  have old: "own_outcome t i r \<Longrightarrow> i < length (slots (t_once t)) \<Longrightarrow> own_outcome ?t i r" for i r
    by (rule own_grow [OF _ _ ids(1)]) (simp_all add: len ids)
  have slots: "slots (t_once ?t) = slots (t_once t) @ [if map_of (table (t_once t)) mid = None then None else Some None]"
    by (simp add: once once_insert_def once_reject_def)
  show ?thesis
  proof (rule tracker_invI)
    show "once_inv (t_once ?t)"
      using once_insert_inv [OF D(1), of mid] once_reject_inv [OF D(1)]
      by (simp add: once map_of_eq_None_iff)
    show "length (t_ids ?t) = length (slots (t_once ?t))" by (simp add: ids slots len)
    show "fst e = t_ids ?t ! snd e" if "e \<in> set (table (t_once ?t))" for e
    proof (cases "e \<in> set (table (t_once t))")
      case True
      then show ?thesis using D(3) place_bounds(1) [OF D(1)] by (simp add: ids nth_append len)
    next
      case False
      then have "e = (mid, length (slots (t_once t)))"
        using that by (auto simp: once once_insert_def once_reject_def split: if_splits)
      then show ?thesis by (simp add: ids nth_append len)
    qed
    show "own_outcome ?t (fst x) (snd x)" if "x \<in> set (claimed (t_once ?t))" for x
    proof -
      have "x \<in> set (claimed (t_once t))"
        using that by (auto simp: once once_insert_def once_reject_def split: if_splits)
      then show ?thesis using D(4) place_bounds(2) [OF D(1)] by (intro old)
    qed
    show "own_outcome ?t i r" if "i < length (slots (t_once ?t))" "slots (t_once ?t) ! i = Some r" for i r
    proof (cases "i < length (slots (t_once t))")
      case True
      then have "slots (t_once t) ! i = Some r" using that(2) by (simp add: slots nth_append)
      then show ?thesis using D(5) True by (intro old)
    next
      case False
      then have "i = length (slots (t_once t))" using that(1) by (simp add: slots)
      then have "r = None" using that(2) by (simp add: slots split: if_splits)
      then show ?thesis by simp
    qed
  qed
qed

text \<open>The steps that make no new waiter.\<close>

lemma track_frame:
  assumes inv: "tracker_inv t" and once: "once_inv c"
    and "\<And>e. e \<in> set (table c) \<Longrightarrow> e \<in> set (table (t_once t))"
    and "length (slots c) = length (slots (t_once t))"
    and cl: "\<And>x. x \<in> set (claimed c) \<Longrightarrow> x \<in> set (claimed (t_once t)) \<or> own_outcome (t\<lparr>t_reported := rep\<rparr>) (fst x) (snd x)"
    and sl: "\<And>i r. slots c ! i = Some r \<Longrightarrow> slots (t_once t) ! i = Some r \<or> own_outcome t i r"
    and rep: "set (t_reported t) \<subseteq> set rep"
  shows "tracker_inv (t\<lparr>t_timers := ts, t_reported := rep, t_once := c\<rparr>)"
proof -
  note D = tracker_invD [OF inv]
  let ?t = "t\<lparr>t_timers := ts, t_reported := rep, t_once := c\<rparr>"
  have up: "own_outcome t i r \<Longrightarrow> own_outcome ?t i r" for i r
    using rep by (auto simp: own_outcome_def split: option.splits)
  have up2: "own_outcome (t\<lparr>t_reported := rep\<rparr>) i r \<Longrightarrow> own_outcome ?t i r" for i r
    by (auto simp: own_outcome_def split: option.splits)
  show ?thesis
  proof (rule tracker_invI)
    show "own_outcome ?t (fst x) (snd x)" if "x \<in> set (claimed (t_once ?t))" for x
      using cl [of x] that D(4) up up2 by auto
    show "own_outcome ?t i r" if "i < length (slots (t_once ?t))" "slots (t_once ?t) ! i = Some r" for i r
      using sl [of i r] that D(5) [of i r] up assms(4) by auto
  qed (use assms D in auto)
qed

lemma claim_frame:
  assumes "tracker_inv t" "set (t_reported t) \<subseteq> set rep"
    "\<And>i. i < length (t_ids t) \<Longrightarrow> t_ids t ! i = mid \<Longrightarrow> own_outcome (t\<lparr>t_reported := rep\<rparr>) i r"
  shows "tracker_inv (t\<lparr>t_timers := ts, t_reported := rep, t_once := once_claim mid r (t_once t)\<rparr>)"
proof (rule track_frame [OF assms(1) once_claim_inv _ _ _ _ assms(2)])
  note D = tracker_invD [OF assms(1)]
  show "once_inv (t_once t)" by (rule D(1))
  show "x \<in> set (claimed (t_once t)) \<or> own_outcome (t\<lparr>t_reported := rep\<rparr>) (fst x) (snd x)"
    if x: "x \<in> set (claimed (once_claim mid r (t_once t)))" for x
  proof (cases "x \<in> set (claimed (t_once t))")
    case False
    then obtain i where i: "map_of (table (t_once t)) mid = Some i" "x = (i, r)"
      using x False by (auto simp: once_claim_def split: option.splits)
    then have "t_ids t ! i = mid" "i < length (t_ids t)"
      using D(3) [OF map_of_SomeD [OF i(1)]] place_bounds(1) [OF D(1) map_of_SomeD [OF i(1)]] D(2) by simp_all
    then show ?thesis using assms(3) i(2) by simp
  qed simp
qed (auto simp: once_claim_def split: option.splits)

lemma timer_claim_inv [inv_intros]: "tracker_inv t \<Longrightarrow> tracker_inv (timer_claim mid t)"
  using claim_frame [of t "t_reported t" mid None "remove1 mid (t_timers t)"] by (simp add: timer_claim_def)

lemma outcome_claim_inv [inv_intros]: "tracker_inv t \<Longrightarrow> tracker_inv (outcome_claim mid out t)"
  using claim_frame [of t "t_reported t @ [(mid, out)]" mid "Some out" "t_timers t"]
  by (auto simp: outcome_claim_def own_outcome_def)

lemma drain_claim_inv [inv_intros]:
  assumes "tracker_inv t"
  shows "tracker_inv (drain_claim t)"
proof -
  have "tracker_inv (t\<lparr>t_timers := t_timers t, t_reported := t_reported t,
      t_once := once_claim_all (\<lambda>_. True) None (t_once t)\<rparr>)"
    by (rule track_frame [OF assms once_claim_all_inv [OF tracker_invD(1) [OF assms]]])
      (auto simp: once_claim_all_def)
  then show ?thesis by (simp add: drain_claim_def)
qed

lemma track_resolve_inv [inv_intros]:
  assumes "tracker_inv t" "e \<in> set (claimed (t_once t))"
  shows "tracker_inv (track_resolve lr e t)"
proof -
  note D = tracker_invD [OF assms(1)]
  note f = once_resolve_frame [OF assms(2), of lr]
  have i: "fst e < length (slots (t_once t))" by (rule place_bounds(2) [OF D(1) assms(2)])
  have n: "slots (t_once t) ! fst e = None" using D(1) assms(2) by (simp add: once_inv_def)
  have s: "slots (once_resolve lr e (t_once t)) = (slots (t_once t))[fst e := Some (snd e)]"
    using n by (simp add: once_resolve_def Let_def)
  have "tracker_inv (t\<lparr>t_timers := t_timers t, t_reported := t_reported t, t_once := once_resolve lr e (t_once t)\<rparr>)"
  proof (rule track_frame [OF assms(1) once_resolve_inv [OF D(1) assms(2)]])
    show "slots (t_once t) ! j = Some r \<or> own_outcome t j r"
      if "slots (once_resolve lr e (t_once t)) ! j = Some r" for j r
      using that D(4) [OF assms(2)] i by (auto simp: s nth_list_update split: if_splits)
    show "x \<in> set (claimed (t_once t)) \<or> own_outcome (t\<lparr>t_reported := t_reported t\<rparr>) (fst x) (snd x)"
      if "x \<in> set (claimed (once_resolve lr e (t_once t)))" for x
      using that set_remove1_subset [of e "claimed (t_once t)"] by (auto simp: f)
  qed (simp_all add: f)
  then show ?thesis by (simp add: track_resolve_def)
qed

lemma track_resume_inv [inv_intros]:
  assumes "tracker_inv t" "i \<in> set (queued (t_once t))"
  shows "tracker_inv (t\<lparr>t_once := once_resume i (t_once t)\<rparr>)"
  using track_frame [OF assms(1) once_resume_inv [OF tracker_invD(1) [OF assms(1)] assms(2)],
      of "t_reported t" "t_timers t"]
  by (simp add: once_resume_frame)

lemma tracker_reachable_inv: "tracker_reachable t \<Longrightarrow> tracker_inv t"
proof (induction rule: tracker_reachable.induct)
  case t_init
  then show ?case by (rule tracker_inv_init)
next
  case (t_step t t')
  from t_step(2,1,3) show ?case by (cases rule: tstep.cases) (auto intro: inv_intros)
qed

section \<open>What the tracker promises\<close>

lemma track_resolve_claimed_once:
  "track_resolve_claimed lr t = t\<lparr>t_once := fold (once_resolve lr) (claimed (t_once t)) (t_once t)\<rparr>"
proof -
  have "fold (track_resolve lr) es t = t\<lparr>t_once := fold (once_resolve lr) es (t_once t)\<rparr>" for es
    by (induction es arbitrary: t) (simp_all add: track_resolve_def)
  then show ?thesis by (simp add: track_resolve_claimed_def)
qed

lemma fold_track_resolve_reach:
  "tracker_reachable t \<Longrightarrow> claimed (t_once t) = es \<Longrightarrow> tracker_reachable (fold (track_resolve lr) es t)"
proof (induction es arbitrary: t)
  case (Cons e es)
  then have e: "e \<in> set (claimed (t_once t))" by simp
  have "tracker_reachable (track_resolve lr e t)"
    using Cons.prems(1) t_resolve [OF e] by (rule t_step)
  moreover have "claimed (t_once (track_resolve lr e t)) = es"
    using once_resolve_frame(3) [OF e, of lr] Cons.prems(2) by (simp add: track_resolve_def)
  ultimately show ?case using Cons.IH by simp
qed simp

lemma resolveWith_reach: "tracker_reachable t \<Longrightarrow> tracker_reachable (resolveWith lr mid out t)"
  unfolding resolveWith_def track_resolve_claimed_def
  by (intro fold_track_resolve_reach t_step [OF _ t_outcome]) simp_all

lemma drainAll_reach: "tracker_reachable t \<Longrightarrow> tracker_reachable (drainAll lr t)"
  unfolding drainAll_def track_resolve_claimed_def
  by (intro fold_track_resolve_reach t_step [OF _ t_drain]) simp_all

text \<open>a waiter is resumed at most once and never lost, whichever of outcome, timer and drain come in
  whatever order; and when it is resumed with an outcome, that outcome was reported for its own id.\<close>

theorem tracker_exactly_once:
  assumes "tracker_reachable t"
  shows "distinct (map fst (resumed (t_once t)))
    \<and> places (t_once t) = mset [0..<length (t_ids t)]
    \<and> (\<forall>x \<in> set (resumed (t_once t)). case snd x of
          None \<Rightarrow> True | Some out \<Rightarrow> (t_ids t ! fst x, out) \<in> set (t_reported t))"
proof -
  note D = tracker_invD [OF tracker_reachable_inv [OF assms]]
  have "own_outcome t (fst x) (snd x)" if "x \<in> set (resumed (t_once t))" for x
    using that D(1) by (intro D(5) place_bounds(4) [OF D(1) that]) (simp add: once_inv_def)
  then show ?thesis
    using D(1,2) places_once [OF D(1)] by (simp add: once_inv_def own_outcome_def)
qed

theorem tracker_exactly_once_witness:
  "resumed (t_once (resolveWith False 7 (SendFailed 420 ''x'') (track_suspend 7 tracker_init))) = [(0, Some (SendFailed 420 ''x''))]
   \<and> distinct (map fst (resumed (t_once (resolveWith False 7 (SendFailed 420 ''x'') (track_suspend 7 tracker_init)))))"
proof -
  let ?t = "resolveWith False 7 (SendFailed 420 ''x'') (track_suspend 7 tracker_init)"
  have "tracker_reachable ?t" by (intro resolveWith_reach t_step [OF t_init t_suspend])
  from tracker_exactly_once [OF this] show ?thesis
    by (simp add: resolveWith_def outcome_claim_def track_resolve_claimed_def track_suspend_def tracker_init_def
        once_empty_def track_tryInsert_def once_claim_def track_resolve_def once_resolve_def Let_def)
qed

text \<open>shutdown leaves no handler waiting for a confirmation: after \<^verbatim>\<open>drainAll\<close>, once the event loops have run
  what is queued, every waiter has been resumed exactly once; and of the claims that race for a
  waiter's node the first alone gets it.\<close>

theorem tracker_drain_complete:
  assumes "tracker_reachable t"
  shows "table (t_once (drainAll lr t)) = []
    \<and> mset (map fst (resumed (settle lr (t_once (drainAll lr t))))) = mset [0..<length (t_ids t)]
    \<and> (fst (track_tryInsert mid ref tbl) \<longrightarrow>
        fst (table_claim mid (fold (\<lambda>k t. snd (table_claim k t)) ks (snd (track_tryInsert mid ref tbl)))) =
          (if mid \<in> set ks then None else Some ref))"
proof -
  have inv: "once_inv (t_once (drain_claim t))"
    using drain_claim_inv [OF tracker_reachable_inv [OF assms]] by (rule tracker_invD(1))
  have tb: "table (t_once (drain_claim t)) = []" by (simp add: drain_claim_def once_claim_all_def)
  have "table (t_once (drainAll lr t)) = []"
    using fold_resolve [OF inv refl, of lr] tb by (simp add: drainAll_def track_resolve_claimed_once)
  moreover have i2: "tracker_inv (drainAll lr t)"
    by (intro tracker_reachable_inv drainAll_reach assms)
  moreover have "t_ids (drainAll lr t) = t_ids t"
    by (simp add: drainAll_def track_resolve_claimed_once drain_claim_def)
  moreover have "fst (table_claim mid (fold (\<lambda>k t. snd (table_claim k t)) ks (snd (track_tryInsert mid ref tbl)))) =
          (if mid \<in> set ks then None else Some ref)" if "fst (track_tryInsert mid ref tbl)"
    using that by (intro track.one_owner) (auto simp: track_tryInsert_def split: if_splits)
  ultimately show ?thesis
    using settled_all_resumed [OF tracker_invD(1) [OF i2], of lr] tracker_invD(2) [OF i2] by simp
qed

theorem tracker_drain_complete_witness:
  "table (t_once (drainAll True (track_suspend 7 tracker_init))) = []"
proof -
  have "tracker_reachable (track_suspend 7 tracker_init)" by (rule t_step [OF t_init t_suspend])
  from conjunct1 [OF tracker_drain_complete [OF this]] show ?thesis .
qed

text \<open>An outcome reported before anybody waits for it is dropped: the waiter that comes later times out.\<close>

lemma early_outcome_dropped:
  "map_of (table (t_once t)) mid = None \<Longrightarrow> t_once (outcome_claim mid out t) = t_once t"
  by (simp add: outcome_claim_def once_claim_def)

end
