(* ===== verification/Tasks.thy ===== *)
theory Tasks
  imports HttpHelpers Tokens Idempotency AuthFsm SendTracker
begin

text \<open>
  The handlers of \<^verbatim>\<open>src/src/http\<close> are callbacks and coroutines: between two of their effects other code runs.
  A handler is therefore a tree: each node is one call the handler makes of the rest of the program (TDLib
  through the bridge, the idempotency cache, the authorization state, the send tracker, timers, the file
  system), its branches are the answers, and a leaf is the one response. \<open>Crash\<close> is the leaf where the C++
  code has no defined behaviour or lets an exception out of the handler. \<open>serve\<close> runs a tree against an
  environment, which chooses each answer from all that happened before; so a theorem for every environment
  holds whatever the other requests, the updates and TDLib do in between.
\<close>

section \<open>Trees\<close>

datatype parse_mode = Markdown2 | Html

datatype task =
    Respond response
  | Crash
  | Invoke td_function "td_object option \<Rightarrow> task"
  | OneWay td_function task
  | ParseEntities string parse_mode "(td_error, formatted_text) result option \<Rightarrow> task"
  | Sleep int task
  | Jitter "rat \<Rightarrow> task"
  | IdemClaim string "claim_result \<Rightarrow> task"
  | IdemStore string nat json task
  | IdemRelease string task
  | WaitFor int int "send_outcome option \<Rightarrow> task"
  | ReadAuth "auth \<Rightarrow> task"
  | SetAuth auth_event task
  | RateAllowed "bool \<Rightarrow> task"
  | DisableSync task
  | ExportSession "string option \<Rightarrow> task"
  | FileSize string "u64 option \<Rightarrow> task"
  | NextUpload "u64 \<Rightarrow> task"
  | CreateDirs string "bool \<Rightarrow> task"
  | WriteBody string "bool \<Rightarrow> task"
  | CloseBody string task
  | RemoveAll string task

datatype event =
    EvInvoke td_function "td_object option"
  | EvOneWay td_function
  | EvParse string parse_mode "(td_error, formatted_text) result option"
  | EvSleep int
  | EvJitter rat
  | EvClaim string claim_result
  | EvStore string nat json
  | EvRelease string
  | EvWait int int "send_outcome option"
  | EvReadAuth auth
  | EvSetAuth auth_event
  | EvRate bool
  | EvDisableSync
  | EvExport "string option"
  | EvFileSize string "u64 option"
  | EvUploadSeq u64
  | EvCreateDirs string bool
  | EvWriteBody string bool
  | EvCloseBody string bool
  | EvRemoveAll string

section \<open>Running\<close>

record env =
  e_invoke :: "event list \<Rightarrow> td_function \<Rightarrow> td_object option"
  e_parse :: "event list \<Rightarrow> string \<Rightarrow> parse_mode \<Rightarrow> (td_error, formatted_text) result option"
  e_jitter :: "event list \<Rightarrow> rat"
  e_claim :: "event list \<Rightarrow> string \<Rightarrow> claim_result"
  e_wait :: "event list \<Rightarrow> int \<Rightarrow> int \<Rightarrow> send_outcome option"
  e_auth :: "event list \<Rightarrow> auth"
  e_rate :: "event list \<Rightarrow> bool"
  e_export :: "event list \<Rightarrow> string option"
  e_size :: "event list \<Rightarrow> string \<Rightarrow> u64 option"
  e_seq :: "event list \<Rightarrow> u64"
  e_mkdir :: "event list \<Rightarrow> string \<Rightarrow> bool"
  e_write :: "event list \<Rightarrow> string \<Rightarrow> bool"
  e_close :: "event list \<Rightarrow> string \<Rightarrow> bool"

definition after_event :: "event \<Rightarrow> event list \<times> response option \<Rightarrow> event list \<times> response option" where
  "after_event x r = (x # fst r, snd r)"

primrec serve :: "env \<Rightarrow> task \<Rightarrow> event list \<Rightarrow> event list \<times> response option" where
  "serve e (Respond r) h = ([], Some r)"
| "serve e Crash h = ([], None)"
| "serve e (Invoke f k) h = after_event (EvInvoke f (e_invoke e h f))
     (serve e (k (e_invoke e h f)) (h @ [EvInvoke f (e_invoke e h f)]))"
| "serve e (OneWay f t) h = after_event (EvOneWay f) (serve e t (h @ [EvOneWay f]))"
| "serve e (ParseEntities s m k) h = after_event (EvParse s m (e_parse e h s m))
     (serve e (k (e_parse e h s m)) (h @ [EvParse s m (e_parse e h s m)]))"
| "serve e (Sleep n t) h = after_event (EvSleep n) (serve e t (h @ [EvSleep n]))"
| "serve e (Jitter k) h = after_event (EvJitter (e_jitter e h))
     (serve e (k (e_jitter e h)) (h @ [EvJitter (e_jitter e h)]))"
| "serve e (IdemClaim key k) h = after_event (EvClaim key (e_claim e h key))
     (serve e (k (e_claim e h key)) (h @ [EvClaim key (e_claim e h key)]))"
| "serve e (IdemStore key s d t) h = after_event (EvStore key s d) (serve e t (h @ [EvStore key s d]))"
| "serve e (IdemRelease key t) h = after_event (EvRelease key) (serve e t (h @ [EvRelease key]))"
| "serve e (WaitFor i n k) h = after_event (EvWait i n (e_wait e h i n))
     (serve e (k (e_wait e h i n)) (h @ [EvWait i n (e_wait e h i n)]))"
| "serve e (ReadAuth k) h = after_event (EvReadAuth (e_auth e h))
     (serve e (k (e_auth e h)) (h @ [EvReadAuth (e_auth e h)]))"
| "serve e (SetAuth x t) h = after_event (EvSetAuth x) (serve e t (h @ [EvSetAuth x]))"
| "serve e (RateAllowed k) h = after_event (EvRate (e_rate e h))
     (serve e (k (e_rate e h)) (h @ [EvRate (e_rate e h)]))"
| "serve e (DisableSync t) h = after_event EvDisableSync (serve e t (h @ [EvDisableSync]))"
| "serve e (ExportSession k) h = after_event (EvExport (e_export e h))
     (serve e (k (e_export e h)) (h @ [EvExport (e_export e h)]))"
| "serve e (FileSize p k) h = after_event (EvFileSize p (e_size e h p))
     (serve e (k (e_size e h p)) (h @ [EvFileSize p (e_size e h p)]))"
| "serve e (NextUpload k) h = after_event (EvUploadSeq (e_seq e h))
     (serve e (k (e_seq e h)) (h @ [EvUploadSeq (e_seq e h)]))"
| "serve e (CreateDirs p k) h = after_event (EvCreateDirs p (e_mkdir e h p))
     (serve e (k (e_mkdir e h p)) (h @ [EvCreateDirs p (e_mkdir e h p)]))"
| "serve e (WriteBody p k) h = after_event (EvWriteBody p (e_write e h p))
     (serve e (k (e_write e h p)) (h @ [EvWriteBody p (e_write e h p)]))"
| "serve e (CloseBody p t) h = after_event (EvCloseBody p (e_close e h p)) (serve e t (h @ [EvCloseBody p (e_close e h p)]))"
| "serve e (RemoveAll p t) h = after_event (EvRemoveAll p) (serve e t (h @ [EvRemoveAll p]))"

lemma after_event_simps [simp]:
  "fst (after_event x r) = x # fst r" "snd (after_event x r) = snd r"
  "after_event x r = (es, q) \<longleftrightarrow> (\<exists>es'. es = x # es' \<and> r = (es', q))"
  by (auto simp: after_event_def intro: prod_eqI)

section \<open>What the environment is documented to answer\<close>

text \<open>The class of the object TDLib documents as the result of each function; an error may come instead.\<close>

definition returns :: "td_function \<Rightarrow> td_object \<Rightarrow> bool" where
  "returns f v = (case f of
     LoadChats _ \<Rightarrow> v = ObjOk
   | GetChats _ \<Rightarrow> (\<exists>ids. v = ObjChats ids)
   | GetChat _ \<Rightarrow> (\<exists>c. v = ObjChat c)
   | GetChatHistory _ _ _ _ _ \<Rightarrow> (\<exists>ms. v = ObjMessages ms)
   | SendMessage _ _ _ \<Rightarrow> (\<exists>m. v = ObjMessage m)
   | ViewMessages _ _ _ \<Rightarrow> v = ObjOk
   | GetFile _ \<Rightarrow> (\<exists>x. v = ObjFile x)
   | DownloadFile _ _ _ _ _ \<Rightarrow> (\<exists>x. v = ObjFile x)
   | EditMessageText _ _ _ \<Rightarrow> (\<exists>m. v = ObjMessage m)
   | DeleteMessages _ _ _ \<Rightarrow> v = ObjOk
   | ForwardMessages _ _ _ _ _ \<Rightarrow> (\<exists>ms. v = ObjMessages ms)
   | SearchChatMessages _ _ _ _ _ \<Rightarrow> (\<exists>ms n i. v = ObjFoundChatMessages ms n i)
   | SearchMessages _ _ _ _ _ \<Rightarrow> (\<exists>ms n s. v = ObjFoundMessages ms n s)
   | AddMessageReaction _ _ _ _ _ \<Rightarrow> v = ObjOk
   | RemoveMessageReaction _ _ _ \<Rightarrow> v = ObjOk
   | SearchPublicChat _ \<Rightarrow> (\<exists>c. v = ObjChat c)
   | GetUser _ \<Rightarrow> (\<exists>u. v = ObjUser u)
   | GetMe \<Rightarrow> (\<exists>u. v = ObjUser u)
   | SearchChatMembers _ _ _ \<Rightarrow> (\<exists>ms n. v = ObjChatMembers ms n)
   | GetContacts \<Rightarrow> (\<exists>ids n. v = ObjUsers ids n)
   | _ \<Rightarrow> True)"

definition answer_ok :: "td_function \<Rightarrow> td_object option \<Rightarrow> bool" where
  "answer_ok f ob \<longleftrightarrow> (\<forall>v. ob = Some v \<longrightarrow> (\<exists>e. v = ObjError e) \<or> returns f v)"

text \<open>The tracker hands out the document its caller made of a message, which is an object; the random number
  is from the unit interval.\<close>

definition outcome_ok :: "send_outcome option \<Rightarrow> bool" where
  "outcome_ok x \<longleftrightarrow> (\<forall>j. x = Some (SendSucceeded j) \<longrightarrow> (\<exists>ms. j = JObj ms))"

definition env_ok :: "env \<Rightarrow> bool" where
  "env_ok e \<longleftrightarrow> (\<forall>h f. answer_ok f (e_invoke e h f)) \<and> (\<forall>h i n. outcome_ok (e_wait e h i n))
     \<and> (\<forall>h. 0 \<le> e_jitter e h \<and> e_jitter e h < 1)"

lemma env_okD:
  assumes "env_ok e"
  shows "answer_ok f (e_invoke e h f)" "outcome_ok (e_wait e h i n)" "0 \<le> e_jitter e h" "e_jitter e h < 1"
  using assms by (simp_all add: env_ok_def)

lemma expect_answer:
  assumes "answer_ok f ob"
  obtains er where "expect ob = Inl er" | v where "ob = Some v" "expect ob = Inr v" "returns f v"
proof (cases "expect ob")
  case (Inr v)
  then show ?thesis using assms that(2) by (auto simp: expect_Inr answer_ok_def)
qed (use that(1) in auto)

section \<open>Trees that never crash\<close>

text \<open>\<open>safe t\<close>: no branch the environment may choose ends in \<open>Crash\<close>.\<close>

primrec safe :: "task \<Rightarrow> bool" where
  "safe (Respond r) = True"
| "safe Crash = False"
| "safe (Invoke f k) = (\<forall>ob. answer_ok f ob \<longrightarrow> safe (k ob))"
| "safe (OneWay f t) = safe t"
| "safe (ParseEntities s m k) = (\<forall>x. safe (k x))"
| "safe (Sleep n t) = safe t"
| "safe (Jitter k) = (\<forall>q. 0 \<le> q \<and> q < 1 \<longrightarrow> safe (k q))"
| "safe (IdemClaim key k) = (\<forall>x. safe (k x))"
| "safe (IdemStore key s d t) = safe t"
| "safe (IdemRelease key t) = safe t"
| "safe (WaitFor i n k) = (\<forall>x. outcome_ok x \<longrightarrow> safe (k x))"
| "safe (ReadAuth k) = (\<forall>a. safe (k a))"
| "safe (SetAuth x t) = safe t"
| "safe (RateAllowed k) = (\<forall>b. safe (k b))"
| "safe (DisableSync t) = safe t"
| "safe (ExportSession k) = (\<forall>x. safe (k x))"
| "safe (FileSize p k) = (\<forall>x. safe (k x))"
| "safe (NextUpload k) = (\<forall>x. safe (k x))"
| "safe (CreateDirs p k) = (\<forall>x. safe (k x))"
| "safe (WriteBody p k) = (\<forall>x. safe (k x))"
| "safe (CloseBody p t) = safe t"
| "safe (RemoveAll p t) = safe t"

lemma safe_responds:
  assumes "env_ok e"
  shows "safe t \<Longrightarrow> snd (serve e t h) \<noteq> None"
  by (induction t arbitrary: h) (simp_all add: env_okD [OF assms])

lemma safe_answers:
  assumes "env_ok e" "safe t"
  shows "\<exists>es r. serve e t h = (es, Some r)"
  using safe_responds [OF assms, of h] by (cases "serve e t h") auto

end
