(* ===== verification/Dto.thy ===== *)
theory Dto
  imports HttpHelpers
begin

text \<open>
  \<^verbatim>\<open>src/src/dto/message_dto.cpp\<close> and \<^verbatim>\<open>file_dto.cpp\<close>: the projections of TDLib's objects into the JSON the
  gateway serves. The overloads of \<^verbatim>\<open>toJson\<close> get the name of their argument's class. Each definition
  builds the member list in the order of the source's assignments.
\<close>

section \<open>Content\<close>

definition putFileRef :: "td_file option \<Rightarrow> (string \<times> json) list" where
  "putFileRef file = (case file of
     None \<Rightarrow> []
   | Some f \<Rightarrow> [(''file_id'', jid (f_id f)),
                (''size'', JInt (if f_size f \<noteq> 0 then f_size f else f_expected_size f))])"

definition captionText :: "formatted_text option \<Rightarrow> string" where
  "captionText caption = (case caption of Some ft \<Rightarrow> ft_text ft | None \<Rightarrow> [])"

text \<open>The loop over the sizes of a photo: the first of the widest.\<close>

fun bestSize :: "photo_size option \<Rightarrow> photo_size option list \<Rightarrow> photo_size option" where
  "bestSize best [] = best"
| "bestSize best (None # sizes) = bestSize best sizes"
| "bestSize best (Some sz # sizes) =
     bestSize (case best of None \<Rightarrow> Some sz
                          | Some b \<Rightarrow> if ps_width b < ps_width sz then Some sz else Some b) sizes"

definition photoFields :: "photo_size option list option \<Rightarrow> (string \<times> json) list" where
  "photoFields photo = (case photo of
     None \<Rightarrow> []
   | Some sizes \<Rightarrow>
       (case bestSize None sizes of
          None \<Rightarrow> []
        | Some best \<Rightarrow>
            [(''width'', JInt (ps_width best)), (''height'', JInt (ps_height best))]
            @ putFileRef (ps_photo best)))"

definition contentFields :: "message_content \<Rightarrow> (string \<times> json) list" where
  "contentFields content = (case content of
     MessageText t \<Rightarrow>
       [(''supported'', JBool True), (''type'', JStr ''text''), (''text'', JStr (captionText t))]
   | MessagePhoto cap photo \<Rightarrow>
       [(''supported'', JBool True), (''type'', JStr ''photo''), (''caption'', JStr (captionText cap))]
       @ photoFields photo
   | MessageVideo cap video \<Rightarrow>
       [(''supported'', JBool True), (''type'', JStr ''video''), (''caption'', JStr (captionText cap))]
       @ (case video of None \<Rightarrow> []
          | Some v \<Rightarrow>
              [(''duration'', JInt (md_duration v)), (''width'', JInt (md_width v)),
               (''height'', JInt (md_height v)), (''file_name'', JStr (md_file_name v)),
               (''mime_type'', JStr (md_mime_type v))] @ putFileRef (md_file v))
   | MessageVoiceNote cap voice \<Rightarrow>
       [(''supported'', JBool True), (''type'', JStr ''voice''), (''caption'', JStr (captionText cap))]
       @ (case voice of None \<Rightarrow> []
          | Some v \<Rightarrow>
              [(''duration'', JInt (md_duration v)), (''mime_type'', JStr (md_mime_type v))]
              @ putFileRef (md_file v))
   | MessageAudio cap audio \<Rightarrow>
       [(''supported'', JBool True), (''type'', JStr ''audio''), (''caption'', JStr (captionText cap))]
       @ (case audio of None \<Rightarrow> []
          | Some a \<Rightarrow>
              [(''duration'', JInt (md_duration a)), (''title'', JStr (md_title a)),
               (''performer'', JStr (md_performer a)), (''file_name'', JStr (md_file_name a)),
               (''mime_type'', JStr (md_mime_type a))] @ putFileRef (md_file a))
   | MessageDocument cap document \<Rightarrow>
       [(''supported'', JBool True), (''type'', JStr ''document''), (''caption'', JStr (captionText cap))]
       @ (case document of None \<Rightarrow> []
          | Some d \<Rightarrow>
              [(''file_name'', JStr (md_file_name d)), (''mime_type'', JStr (md_mime_type d))]
              @ putFileRef (md_file d))
   | MessageSticker sticker \<Rightarrow>
       [(''supported'', JBool True), (''type'', JStr ''sticker'')]
       @ (case sticker of None \<Rightarrow> []
          | Some s \<Rightarrow>
              [(''emoji'', JStr (md_emoji s)), (''width'', JInt (md_width s)),
               (''height'', JInt (md_height s))] @ putFileRef (md_file s))
   | MessageAnimation cap animation \<Rightarrow>
       [(''supported'', JBool True), (''type'', JStr ''animation''), (''caption'', JStr (captionText cap))]
       @ (case animation of None \<Rightarrow> []
          | Some a \<Rightarrow>
              [(''duration'', JInt (md_duration a)), (''width'', JInt (md_width a)),
               (''height'', JInt (md_height a)), (''mime_type'', JStr (md_mime_type a))]
              @ putFileRef (md_file a))
   | MessageVideoNote video_note \<Rightarrow>
       [(''supported'', JBool True), (''type'', JStr ''video_note'')]
       @ (case video_note of None \<Rightarrow> []
          | Some v \<Rightarrow> (''duration'', JInt (md_duration v)) # putFileRef (md_file v))
   | MessageOther \<Rightarrow>
       [(''supported'', JBool False), (''type'', JStr ''unsupported'')])"

definition contentToJson :: "message_content \<Rightarrow> json" where
  "contentToJson content = JObj (contentFields content)"

section \<open>Reactions\<close>

definition reactionTypeToJson :: "reaction_type \<Rightarrow> json" where
  "reactionTypeToJson t = (case t of
     ReactionEmoji e \<Rightarrow> JObj [(''type'', JStr ''emoji''), (''emoji'', JStr e)]
   | ReactionCustomEmoji i \<Rightarrow> JObj [(''type'', JStr ''custom_emoji''), (''custom_emoji_id'', jid i)]
   | ReactionOther \<Rightarrow> JObj [(''type'', JStr ''other'')])"

definition reactionToJson :: "reaction \<Rightarrow> json" where
  "reactionToJson r = JObj
     ((case r_type r of None \<Rightarrow> [] | Some t \<Rightarrow> [(''reaction'', reactionTypeToJson t)])
      @ [(''total_count'', JInt (r_total_count r)), (''is_chosen'', JBool (r_is_chosen r))])"

definition reactionsToJson :: "reaction option list \<Rightarrow> json" where
  "reactionsToJson rs = JArr (map reactionToJson (List.map_filter id rs))"

section \<open>Messages, chats, users, members, files\<close>

definition messageFields :: "message \<Rightarrow> (string \<times> json) list" where
  "messageFields m =
     [(''id'', jid (m_id m)), (''chat_id'', jid (m_chat_id m)), (''date'', JInt (m_date m)),
      (''is_outgoing'', JBool (m_is_outgoing m))]
     @ (case m_content m of None \<Rightarrow> [] | Some c \<Rightarrow> [(''content'', contentToJson c)])
     @ (case m_interaction m of
          Some (Some rs) \<Rightarrow> [(''reactions'', reactionsToJson rs)]
        | _ \<Rightarrow> [])"

definition messageToJson :: "message \<Rightarrow> json" where
  "messageToJson m = JObj (messageFields m)"

definition chatFields :: "chat \<Rightarrow> (string \<times> json) list" where
  "chatFields c =
     ([(''id'', jid (c_id c)), (''title'', JStr (c_title c)), (''unread_count'', JInt (c_unread_count c))]
      @ (case c_type c of
           None \<Rightarrow> []
         | Some (ChatPrivate uid) \<Rightarrow> [(''type'', JStr ''private''), (''user_id'', jid uid)]
         | Some ChatBasicGroup \<Rightarrow> [(''type'', JStr ''group'')]
         | Some (ChatSupergroup is_channel) \<Rightarrow>
             [(''type'', JStr (if is_channel then ''channel'' else ''supergroup''))]
         | Some ChatSecret \<Rightarrow> [(''type'', JStr ''secret'')]
         | Some ChatOther \<Rightarrow> [(''type'', JStr ''other'')]))"

definition chatToJson :: "chat \<Rightarrow> json" where
  "chatToJson c = JObj (chatFields c)"

definition userStatusFields :: "user_status \<Rightarrow> (string \<times> json) list" where
  "userStatusFields st = (case st of
     StatusOnline \<Rightarrow> [(''status'', JStr ''online'')]
   | StatusOffline t \<Rightarrow> [(''status'', JStr ''offline''), (''was_online'', JInt t)]
   | StatusRecently \<Rightarrow> [(''status'', JStr ''recently'')]
   | StatusLastWeek \<Rightarrow> [(''status'', JStr ''last_week'')]
   | StatusLastMonth \<Rightarrow> [(''status'', JStr ''last_month'')]
   | StatusOther \<Rightarrow> [(''status'', JStr ''unknown'')])"

text \<open>What \<^verbatim>\<open>toJson(user)\<close> and the update router copy out of a status.\<close>

definition copyStatus :: "user_status option \<Rightarrow> (string \<times> json) list" where
  "copyStatus st = (case st of
     None \<Rightarrow> []
   | Some s \<Rightarrow>
       (let status = userStatusFields s
        in (''status'', jmember status ''status'')
           # (if isMember status ''was_online'' then [(''was_online'', jmember status ''was_online'')] else [])))"

definition userDtoToJson :: "user \<Rightarrow> json" where
  "userDtoToJson u = JObj
     ([(''id'', jid (u_id u)), (''first_name'', JStr (u_first_name u)), (''last_name'', JStr (u_last_name u))]
      @ (case u_usernames u of Some (n # _) \<Rightarrow> [(''username'', JStr n)] | _ \<Rightarrow> [])
      @ [(''phone_number'', JStr (u_phone_number u)), (''is_contact'', JBool (u_is_contact u)),
         (''is_premium'', JBool (u_is_premium u))]
      @ copyStatus (u_status u))"

definition memberToJson :: "chat_member \<Rightarrow> json" where
  "memberToJson m = JObj
     ((case cm_member m of
         Some (SenderUser i) \<Rightarrow> [(''user_id'', jid i)]
       | Some (SenderChat i) \<Rightarrow> [(''chat_id'', jid i)]
       | _ \<Rightarrow> [])
      @ [(''joined_date'', JInt (cm_joined m))]
      @ (case cm_status m of
           None \<Rightarrow> []
         | Some st \<Rightarrow>
             [(''status'', JStr (case st of
                 MemberCreator \<Rightarrow> ''creator'' | MemberAdministrator \<Rightarrow> ''administrator''
               | MemberMember \<Rightarrow> ''member'' | MemberRestricted \<Rightarrow> ''restricted''
               | MemberLeft \<Rightarrow> ''left'' | MemberBanned \<Rightarrow> ''banned''
               | MemberOther \<Rightarrow> ''unknown''))]))"

text \<open>\<^verbatim>\<open>progress\<close> is the quotient of the two sizes; its rounding to a double is not modelled.\<close>

definition fileToJson :: "td_file \<Rightarrow> json" where
  "fileToJson f =
     (let downloaded = (case f_local f of Some l \<Rightarrow> lf_downloaded_size l | None \<Rightarrow> 0);
          local_available = (case f_local f of Some l \<Rightarrow> lf_completed l | None \<Rightarrow> False)
      in JObj
        ([(''file_id'', jid (f_id f)), (''size'', JInt (f_size f))]
         @ (case f_remote f of
              None \<Rightarrow> []
            | Some r \<Rightarrow> [(''remote_unique_id'', JStr (rf_unique_id r)), (''remote_id'', JStr (rf_id r))])
         @ [(''downloaded_size'', JInt downloaded), (''local_available'', JBool local_available),
            (''progress'', JReal (if 0 < f_size f then of_int downloaded / of_int (f_size f) else 0))]))"

section \<open>The webhook's projection of a message\<close>

definition webhookSenderToJson :: "message_sender \<Rightarrow> json" where
  "webhookSenderToJson s = (case s of
     SenderUser i \<Rightarrow> JObj [(''id'', jid i)]
   | SenderChat i \<Rightarrow> JObj [(''id'', jid i)]
   | SenderOther \<Rightarrow> JNull)"

definition webhookEntityTypeFields :: "text_entity_type \<Rightarrow> (string \<times> json) list" where
  "webhookEntityTypeFields t = (case t of
     EntMention \<Rightarrow> [(''type'', JStr ''mention'')]
   | EntMentionName i \<Rightarrow> [(''type'', JStr ''mention_name''), (''user_id'', jid i)]
   | EntHashtag \<Rightarrow> [(''type'', JStr ''hashtag'')]
   | EntCashtag \<Rightarrow> [(''type'', JStr ''cashtag'')]
   | EntBotCommand \<Rightarrow> [(''type'', JStr ''bot_command'')]
   | EntUrl \<Rightarrow> [(''type'', JStr ''url'')]
   | EntTextUrl u \<Rightarrow> [(''type'', JStr ''text_url''), (''url'', JStr u)]
   | EntEmailAddress \<Rightarrow> [(''type'', JStr ''email_address'')]
   | EntPhoneNumber \<Rightarrow> [(''type'', JStr ''phone_number'')]
   | EntBold \<Rightarrow> [(''type'', JStr ''bold'')]
   | EntItalic \<Rightarrow> [(''type'', JStr ''italic'')]
   | EntUnderline \<Rightarrow> [(''type'', JStr ''underline'')]
   | EntStrikethrough \<Rightarrow> [(''type'', JStr ''strikethrough'')]
   | EntSpoiler \<Rightarrow> [(''type'', JStr ''spoiler'')]
   | EntCode \<Rightarrow> [(''type'', JStr ''code'')]
   | EntPre \<Rightarrow> [(''type'', JStr ''pre'')]
   | EntPreCode \<Rightarrow> [(''type'', JStr ''pre_code'')]
   | EntBlockQuote \<Rightarrow> [(''type'', JStr ''block_quote'')]
   | EntCustomEmoji \<Rightarrow> [(''type'', JStr ''custom_emoji'')]
   | EntOther \<Rightarrow> [(''type'', JStr ''other'')])"

fun webhookEntities :: "text_entity option list \<Rightarrow> json list" where
  "webhookEntities [] = []"
| "webhookEntities (None # es) = webhookEntities es"
| "webhookEntities (Some e # es) =
     (case te_type e of
        None \<Rightarrow> webhookEntities es
      | Some t \<Rightarrow>
          JObj (webhookEntityTypeFields t
                @ [(''offset'', JInt (te_offset e)), (''length'', JInt (te_length e))])
          # webhookEntities es)"

definition webhookExtractFormattedText :: "message_content \<Rightarrow> formatted_text option" where
  "webhookExtractFormattedText c = (case c of
     MessageText t \<Rightarrow> t
   | MessagePhoto cap _ \<Rightarrow> cap
   | MessageVideo cap _ \<Rightarrow> cap
   | MessageVoiceNote cap _ \<Rightarrow> cap
   | MessageAudio cap _ \<Rightarrow> cap
   | MessageDocument cap _ \<Rightarrow> cap
   | MessageAnimation cap _ \<Rightarrow> cap
   | _ \<Rightarrow> None)"

definition webhookMessageFields :: "message \<Rightarrow> (string \<times> json) list" where
  "webhookMessageFields m =
     (let formatted = (case m_content m of None \<Rightarrow> None | Some c \<Rightarrow> webhookExtractFormattedText c);
          content_json = (case m_content m of None \<Rightarrow> [] | Some c \<Rightarrow> contentFields c)
      in [(''id'', jid (m_id m)),
          (''chat'', JObj [(''id'', jid (m_chat_id m))]),
          (''date'', JInt (m_date m))]
         @ (case m_sender m of None \<Rightarrow> [] | Some s \<Rightarrow> [(''sender'', webhookSenderToJson s)])
         @ [(''text'', JStr (case formatted of Some ft \<Rightarrow> ft_text ft | None \<Rightarrow> [])),
            (''entities'', JArr (case formatted of Some ft \<Rightarrow> webhookEntities (ft_entities ft) | None \<Rightarrow> []))]
         @ (case m_content m of
              None \<Rightarrow> []
            | Some c \<Rightarrow>
                if jmember content_json ''type'' \<noteq> JStr ''text''
                then [(''attachment'', contentToJson c)] else [])
         @ (case m_reply_to m of
              Some (ReplyToMessage i) \<Rightarrow> [(''reply_to_message_id'', jid i)]
            | _ \<Rightarrow> []))"

definition webhookMessageToJson :: "message \<Rightarrow> json" where
  "webhookMessageToJson m = JObj (webhookMessageFields m)"

section \<open>Every document names its members once\<close>

lemma contentFields_distinct: "distinct (map fst (contentFields c))"
  by (cases c) (auto simp: contentFields_def photoFields_def putFileRef_def split: option.splits)

lemma messageFields_distinct: "distinct (map fst (messageFields m))"
proof -
  obtain xs where "(case m_content m of None \<Rightarrow> [] | Some c \<Rightarrow> [(''content'', contentToJson c)]) = xs"
      "map fst xs \<in> {[], [''content'']}"
    by (cases "m_content m") simp_all
  moreover obtain ys where "(case m_interaction m of Some (Some rs) \<Rightarrow> [(''reactions'', reactionsToJson rs)] | _ \<Rightarrow> []) = ys"
      "map fst ys \<in> {[], [''reactions'']}"
    by (simp split: option.split)
  ultimately show ?thesis by (auto simp: messageFields_def)
qed

lemma entityFields_distinct:
  "distinct (map fst (webhookEntityTypeFields t @ [(''offset'', a), (''length'', b)]))"
  by (cases t) (simp_all add: webhookEntityTypeFields_def)

lemma webhookMessageFields_distinct: "distinct (map fst (webhookMessageFields m))"
  by (simp add: webhookMessageFields_def Let_def split: option.splits reply_to.splits)

section \<open>Reading the projections back\<close>

definition readId :: "(string \<times> json) list \<Rightarrow> string \<Rightarrow> string option" where
  "readId ms k = str_of (jmember ms k)"

lemma message_members [simp]:
  "jmember (messageFields m) ''id'' = jid (m_id m)"
  "jmember (messageFields m) ''chat_id'' = jid (m_chat_id m)"
  by (simp_all add: messageFields_def)

lemma jmember_append: "jmember (a @ b) k = (if isMember a k then jmember a k else jmember b k)"
  by (simp add: jmember_def isMember_def map_add_def split: option.splits)

lemma isMember_append [simp]: "isMember (a @ b) k \<longleftrightarrow> isMember a k \<or> isMember b k"
  by (auto simp: isMember_def)

lemma webhook_members [simp]:
  "jmember (webhookMessageFields m) ''id'' = jid (m_id m)"
  "isMember (webhookMessageFields m) ''attachment'' \<longleftrightarrow>
     (\<exists>c. m_content m = Some c \<and> jmember (contentFields c) ''type'' \<noteq> JStr ''text'')"
  "isMember (webhookMessageFields m) ''reply_to_message_id'' \<longleftrightarrow>
     (\<exists>i. m_reply_to m = Some (ReplyToMessage i))"
  by (auto simp: webhookMessageFields_def Let_def split: option.splits reply_to.splits)

lemma content_type:
  "jmember (contentFields c) ''type'' = JStr (case c of
     MessageText _ \<Rightarrow> ''text'' | MessagePhoto _ _ \<Rightarrow> ''photo'' | MessageVideo _ _ \<Rightarrow> ''video''
   | MessageVoiceNote _ _ \<Rightarrow> ''voice'' | MessageAudio _ _ \<Rightarrow> ''audio''
   | MessageDocument _ _ \<Rightarrow> ''document'' | MessageSticker _ \<Rightarrow> ''sticker''
   | MessageAnimation _ _ \<Rightarrow> ''animation'' | MessageVideoNote _ \<Rightarrow> ''video_note''
   | MessageOther \<Rightarrow> ''unsupported'')"
  by (cases c) (simp_all add: contentFields_def)

lemma content_supported:
  "jmember (contentFields c) ''supported'' = JBool (c \<noteq> MessageOther)"
  by (cases c) (simp_all add: contentFields_def)

section \<open>The widest size of a photo\<close>

lemma bestSize_widest:
  "bestSize best sizes = Some b \<Longrightarrow>
   (best = Some b \<or> Some b \<in> set sizes)
   \<and> (\<forall>x. best = Some x \<or> Some x \<in> set sizes \<longrightarrow> ps_width x \<le> ps_width b)"
  by (induction best sizes rule: bestSize.induct) (auto split: option.splits if_splits)

lemma bestSize_None: "bestSize best sizes = None \<longleftrightarrow> best = None \<and> (\<forall>x \<in> set sizes. x = None)"
  by (induction best sizes rule: bestSize.induct) (auto split: option.splits if_splits)

section \<open>What the projections promise\<close>

text \<open>the two ids of a message leave as strings from which \<open>parseId\<close> reads the ids back, in both
  projections, whatever the rest of the message holds, for every 64-bit id.\<close>

theorem message_ids_roundtrip:
  assumes "int64_min \<le> m_id m" "m_id m \<le> int64_max" "int64_min \<le> m_chat_id m" "m_chat_id m \<le> int64_max"
  shows "Option.bind (readId (messageFields m) ''id'') idOf = Some (m_id m)
    \<and> Option.bind (readId (messageFields m) ''chat_id'') idOf = Some (m_chat_id m)
    \<and> Option.bind (readId (webhookMessageFields m) ''id'') idOf = Some (m_id m)"
  using assms by (simp add: readId_def idOf_def)

theorem message_ids_roundtrip_witness:
  "\<exists>m. m_id m = 9007199254740993 \<and>
     Option.bind (readId (messageFields m) ''id'') idOf = Some 9007199254740993"
proof -
  let ?m = "\<lparr>m_id = 9007199254740993, m_chat_id = -1001234567890, m_sender = None, m_date = 0,
    m_is_outgoing = False, m_is_channel_post = False, m_contains_unread_mention = False, m_content = Some MessageOther,
    m_interaction = None, m_reply_to = None\<rparr>"
  have "Option.bind (readId (messageFields ?m) ''id'') idOf = Some 9007199254740993"
    using message_ids_roundtrip [of ?m] by (simp add: int64_min_def int64_max_def)
  then show ?thesis by (intro exI [of _ ?m]) simp
qed

text \<open>a file's document says nothing of where the file lies on the gateway's disk: two files that differ in
  their local path only have the same document.\<close>

theorem file_path_not_leaked:
  "fileToJson (f\<lparr>f_local := map_option (\<lambda>l. l\<lparr>lf_path := p\<rparr>) (f_local f)\<rparr>) = fileToJson f"
  by (cases "f_local f") (simp_all add: fileToJson_def Let_def)

text \<open>the discriminator of a content is always there; \<^verbatim>\<open>supported\<close> is false exactly for the contents without
  a projection; the webhook carries an attachment exactly for contents that are not plain text; and no
  projection names a member twice.\<close>

theorem content_discriminated:
  "isMember (contentFields c) ''type''
   \<and> (jmember (contentFields c) ''supported'' = JBool False \<longleftrightarrow> c = MessageOther)
   \<and> (jmember (contentFields c) ''type'' = JStr ''unsupported'' \<longleftrightarrow> c = MessageOther)
   \<and> (isMember (webhookMessageFields (m\<lparr>m_content := Some c\<rparr>)) ''attachment'' \<longleftrightarrow>
        (\<nexists>t. c = MessageText t))
   \<and> distinct (map fst (contentFields c))
   \<and> distinct (map fst (webhookMessageFields m))"
proof -
  have "isMember (contentFields c) ''type''" by (cases c) (simp_all add: contentFields_def)
  moreover have "jmember (contentFields c) ''type'' = JStr ''unsupported'' \<longleftrightarrow> c = MessageOther"
    by (cases c) (simp_all add: content_type)
  moreover have "jmember (contentFields c) ''type'' = JStr ''text'' \<longleftrightarrow> (\<exists>t. c = MessageText t)"
    by (cases c) (simp_all add: content_type)
  ultimately show ?thesis
    by (simp add: content_supported contentFields_distinct webhookMessageFields_distinct)
qed

text \<open>of the sizes of a photo the projection serves one that is there and that no other exceeds in width;
  it serves none only when there is none.\<close>

theorem photo_size_widest:
  "(case bestSize None sizes of
      Some b \<Rightarrow> Some b \<in> set sizes \<and> (\<forall>x. Some x \<in> set sizes \<longrightarrow> ps_width x \<le> ps_width b)
    | None \<Rightarrow> (\<forall>x \<in> set sizes. x = None))"
  by (auto simp: bestSize_None dest: bestSize_widest split: option.split)

theorem photo_size_widest_witness:
  "let a = \<lparr>ps_width = 90, ps_height = 60, ps_photo = None\<rparr>; b = \<lparr>ps_width = 800, ps_height = 600, ps_photo = None\<rparr>
   in bestSize None [Some a, None, Some b] = Some b \<and> ps_width a \<le> ps_width b"
  using photo_size_widest [of "[Some \<lparr>ps_width = 90, ps_height = 60, ps_photo = None\<rparr>, None,
      Some \<lparr>ps_width = 800, ps_height = 600, ps_photo = None\<rparr>]"]
  by (simp add: Let_def)

end
