(* ===== verification/RouteHelpers.thy ===== *)
theory RouteHelpers
  imports Tasks Dto
begin

text \<open>
  What the route files share: \<^verbatim>\<open>launchInvoke\<close> of \<^verbatim>\<open>http_helpers.hpp\<close>, the reading of query parameters and of
  the JSON body, and the text formatting of \<^verbatim>\<open>message_routes.cpp\<close>. Reading the body as JSON is Drogon's work:
  \<open>rq_json\<close> is the document or \<open>None\<close>, and a handler that finds no object answers 400.
\<close>

section \<open>One call of TDLib and its answer\<close>

text \<open>A builder makes the response of the answer; \<open>None\<close> is an object of a class the code does not expect.\<close>

definition launchInvoke :: "td_function \<Rightarrow> (td_object option \<Rightarrow> response option) \<Rightarrow> task" where
  "launchInvoke f build = Invoke f (\<lambda>ob. case build ob of Some r \<Rightarrow> Respond r | None \<Rightarrow> Crash)"

definition validation :: "string \<Rightarrow> response" where
  "validation msg = serviceError ''VALIDATION_ERROR'' msg 400"

definition okBody :: "(string \<times> json) list \<Rightarrow> json" where
  "okBody ms = JObj ((''ok'', JBool True) # ms)"

text \<open>The pointers of a vector that are not null.\<close>

fun present :: "'a option list \<Rightarrow> 'a list" where
  "present [] = []"
| "present (None # xs) = present xs"
| "present (Some x # xs) = x # present xs"

section \<open>Query parameters\<close>

definition queryInt :: "string \<Rightarrow> int \<Rightarrow> int \<Rightarrow> int" where
  "queryInt value def mx =
     (if value = [] then def
      else (case stoi value of
              None \<Rightarrow> def
            | Some (parsed, _) \<Rightarrow> if parsed < 1 then def else if mx < parsed then mx else parsed))"

section \<open>The JSON body\<close>

definition bodyObject :: "request \<Rightarrow> (string \<times> json) list option" where
  "bodyObject req = (case rq_json req of Some (JObj ms) \<Rightarrow> Some ms | _ \<Rightarrow> None)"

text \<open>A member that is a non-empty string, and the flag \<^verbatim>\<open>v.isBool() && v.asBool()\<close>.\<close>

definition textField :: "request \<Rightarrow> string \<Rightarrow> string option" where
  "textField req field = (case bodyObject req of
     None \<Rightarrow> None
   | Some ms \<Rightarrow> (case jmember ms field of JStr s \<Rightarrow> if s = [] then None else Some s | _ \<Rightarrow> None))"

definition flagField :: "(string \<times> json) list \<Rightarrow> string \<Rightarrow> bool" where
  "flagField ms field \<longleftrightarrow> jmember ms field = JBool True"

definition parseModeField :: "(string \<times> json) list \<Rightarrow> string" where
  "parseModeField ms = (case jmember ms ''parse_mode'' of JStr s \<Rightarrow> s | _ \<Rightarrow> [])"

text \<open>The ids of an array: \<open>None\<close> when an item is not a string with an id.\<close>

fun idList :: "json list \<Rightarrow> int list option" where
  "idList [] = Some []"
| "idList (v # vs) = (case v of
     JStr s \<Rightarrow>
       (case idOf s of
          None \<Rightarrow> None
        | Some i \<Rightarrow> (case idList vs of None \<Rightarrow> None | Some is \<Rightarrow> Some (i # is)))
   | _ \<Rightarrow> None)"

fun idsIn :: "json list \<Rightarrow> int list" where
  "idsIn [] = []"
| "idsIn (v # vs) = (case v of
     JStr s \<Rightarrow> (case idOf s of None \<Rightarrow> idsIn vs | Some i \<Rightarrow> i # idsIn vs)
   | _ \<Rightarrow> idsIn vs)"

section \<open>Formatted text\<close>

definition quoted :: "string \<Rightarrow> string" where
  "quoted s = CHR 0x27 # s @ [CHR 0x27]"

definition makeFormattedText :: "string \<Rightarrow> string \<Rightarrow> (string + formatted_text \<Rightarrow> task) \<Rightarrow> task" where
  "makeFormattedText txt mode k =
     (if mode = [] then k (Inr \<lparr>ft_text = txt, ft_entities = []\<rparr>)
      else if mode = ''markdown'' \<or> mode = ''html'' then
        ParseEntities txt (if mode = ''markdown'' then Markdown2 else Html)
          (\<lambda>x. case x of
             None \<Rightarrow> k (Inl ''parseTextEntities failed'')
           | Some (Inl e) \<Rightarrow> k (Inl (err_message e))
           | Some (Inr t) \<Rightarrow> k (Inr t))
      else k (Inl (''parse_mode must be '' @ quoted ''markdown'' @ '' or '' @ quoted ''html'')))"

section \<open>Facts\<close>

lemma launchInvoke_safe:
  assumes "\<And>e. build (Some (ObjError e)) \<noteq> None" "build None \<noteq> None"
    and "\<And>v. returns f v \<Longrightarrow> build (Some v) \<noteq> None"
  shows "safe (launchInvoke f build)"
proof -
  have "safe (case build ob of Some r \<Rightarrow> Respond r | None \<Rightarrow> Crash)" if "answer_ok f ob" for ob
  proof -
    have "build ob \<noteq> None" using that assms by (cases ob) (auto simp: answer_ok_def)
    then show ?thesis by (cases "build ob") simp_all
  qed
  then show ?thesis by (simp add: launchInvoke_def)
qed

lemma serve_launchInvoke:
  "serve e (launchInvoke f build) h = ([EvInvoke f (e_invoke e h f)], build (e_invoke e h f))"
  by (simp add: launchInvoke_def after_event_def split: option.split)

lemma makeFormattedText_safe: "(\<And>x. safe (k x)) \<Longrightarrow> safe (makeFormattedText txt mode k)"
  by (auto simp: makeFormattedText_def split: option.split sum.split)

lemma queryInt_bounds: "1 \<le> def \<Longrightarrow> def \<le> mx \<Longrightarrow> 1 \<le> queryInt value def mx \<and> queryInt value def mx \<le> mx"
  by (auto simp: queryInt_def split: option.split)

lemma idList_length: "idList vs = Some is \<Longrightarrow> length is = length vs"
  by (induction vs arbitrary: "is") (auto split: json.splits option.splits)

lemma idList_idsIn: "idList vs = Some is \<Longrightarrow> idsIn vs = is"
  by (induction vs arbitrary: "is") (auto split: json.splits option.splits)

end
