(* ===== verification/TypingDelay.thy ===== *)
theory TypingDelay
  imports Complex_Main Prelude
begin

text \<open>
  \<^verbatim>\<open>src/src/http/typing_delay.hpp\<close>: the pause before a message is sent. The source computes in \<^verbatim>\<open>double\<close>; here
  the quotients are exact. A division by zero and a \<^verbatim>\<open>clamp\<close> with crossed bounds, which C++ leaves
  undefined, are \<open>None\<close>.
\<close>

definition utf8CodepointCount :: "string \<Rightarrow> nat" where
  "utf8CodepointCount text =
     length (filter (\<lambda>ch. (of_char ch :: u8) AND 0xC0 \<noteq> 0x80) text)"

record typing_params =
  tp_chars_per_minute :: int
  tp_jitter_percent :: int
  tp_min_delay_ms :: int
  tp_max_delay_ms :: int

definition clamp :: "rat \<Rightarrow> rat \<Rightarrow> rat \<Rightarrow> rat" where
  "clamp v lo hi = (if v < lo then lo else if hi < v then hi else v)"

text \<open>The cast to \<^verbatim>\<open>long long\<close> cuts off the fraction, towards zero.\<close>

definition trunc :: "rat \<Rightarrow> int" where
  "trunc x = (if 0 \<le> x then \<lfloor>x\<rfloor> else \<lceil>x\<rceil>)"

definition typingFactor :: "typing_params \<Rightarrow> rat \<Rightarrow> rat" where
  "typingFactor p sample =
     (let jitter = of_int (tp_jitter_percent p) / 100 in (1 - jitter) + sample * 2 * jitter)"

definition computeTypingDelay :: "nat \<Rightarrow> typing_params \<Rightarrow> rat \<Rightarrow> int option" where
  "computeTypingDelay text_length p sample =
     (let chars_per_ms = of_int (tp_chars_per_minute p) / 60000 :: rat;
          base_ms = of_nat text_length / chars_per_ms
      in if tp_chars_per_minute p = 0 \<or> tp_max_delay_ms p < tp_min_delay_ms p then None
         else Some (trunc (clamp (base_ms * typingFactor p sample)
                             (of_int (tp_min_delay_ms p)) (of_int (tp_max_delay_ms p)))))"

text \<open>What the configuration has to guarantee for the function to be used.\<close>

definition typing_params_ok :: "typing_params \<Rightarrow> bool" where
  "typing_params_ok p \<longleftrightarrow> 0 < tp_chars_per_minute p \<and> 0 \<le> tp_jitter_percent p \<and> tp_jitter_percent p \<le> 100
     \<and> tp_min_delay_ms p \<le> tp_max_delay_ms p"

section \<open>Facts\<close>

lemma utf8CodepointCount_le: "utf8CodepointCount s \<le> length s"
  by (simp add: utf8CodepointCount_def)

lemma trunc_of_int [simp]: "trunc (of_int n) = n"
  by (simp add: trunc_def)

lemma trunc_mono: "x \<le> y \<Longrightarrow> trunc x \<le> trunc y"
  by (auto simp: trunc_def floor_mono ceiling_mono intro: order_trans [of _ 0])

lemma clamp_bounds: "lo \<le> hi \<Longrightarrow> lo \<le> clamp v lo hi \<and> clamp v lo hi \<le> hi"
  by (auto simp: clamp_def)

lemma clamp_mono: "v \<le> w \<Longrightarrow> lo \<le> hi \<Longrightarrow> clamp v lo hi \<le> clamp w lo hi"
  by (auto simp: clamp_def)

lemma computeTypingDelay_defined:
  "computeTypingDelay n p q \<noteq> None \<longleftrightarrow> tp_chars_per_minute p \<noteq> 0 \<and> tp_min_delay_ms p \<le> tp_max_delay_ms p"
  by (auto simp: computeTypingDelay_def Let_def)

lemma computeTypingDelay_bounds:
  assumes "computeTypingDelay n p q = Some d"
  shows "tp_min_delay_ms p \<le> d \<and> d \<le> tp_max_delay_ms p"
proof -
  have le: "(of_int (tp_min_delay_ms p) :: rat) \<le> of_int (tp_max_delay_ms p)"
    using assms computeTypingDelay_defined [of n p q] by simp
  show ?thesis
    using assms clamp_bounds [OF le] trunc_mono [of "of_int (tp_min_delay_ms p)"] trunc_mono [of _ "of_int (tp_max_delay_ms p)"]
    by (auto simp: computeTypingDelay_def Let_def split: if_splits)
qed

lemma typingFactor_bounds:
  assumes "0 \<le> tp_jitter_percent p" "tp_jitter_percent p \<le> 100" "0 \<le> q" "q \<le> 1"
  shows "0 \<le> typingFactor p q"
proof -
  have "(of_int (tp_jitter_percent p) :: rat) \<le> of_int 100" using assms(2) by (simp only: of_int_le_iff)
  then have "0 \<le> 1 - (of_int (tp_jitter_percent p) / 100 :: rat)" by simp
  moreover have "0 \<le> q * 2 * (of_int (tp_jitter_percent p) / 100)" using assms by simp
  ultimately show ?thesis by (simp add: typingFactor_def Let_def)
qed

lemma typingFactor_half: "typingFactor p (1 / 2) = 1"
  by (simp add: typingFactor_def Let_def)

text \<open>The pause is defined for every configuration with a positive typing speed and ordered bounds, stays
  within the bounds, never gets shorter when the text gets longer, and without jitter in the sample is the time
  the text takes at the configured speed, cut to whole milliseconds.\<close>

theorem typing_delay_spec:
  assumes "typing_params_ok p" "0 \<le> q" "q \<le> 1" "m \<le> n"
  shows "\<exists>d e. computeTypingDelay m p q = Some d \<and> computeTypingDelay n p q = Some e
    \<and> tp_min_delay_ms p \<le> d \<and> d \<le> e \<and> e \<le> tp_max_delay_ms p
    \<and> computeTypingDelay n p (1 / 2) = Some (trunc (clamp (of_nat n * 60000 / of_int (tp_chars_per_minute p))
          (of_int (tp_min_delay_ms p)) (of_int (tp_max_delay_ms p))))"
proof -
  have p: "0 < tp_chars_per_minute p" "tp_min_delay_ms p \<le> tp_max_delay_ms p"
    using assms(1) by (simp_all add: typing_params_ok_def)
  obtain d e where de: "computeTypingDelay m p q = Some d" "computeTypingDelay n p q = Some e"
    using computeTypingDelay_defined [of m p q] computeTypingDelay_defined [of n p q] p by auto
  have f: "0 \<le> typingFactor p q" using assms by (intro typingFactor_bounds) (auto simp: typing_params_ok_def)
  have cp: "0 \<le> (60000 / of_int (tp_chars_per_minute p) :: rat)" using p(1) by simp
  have "of_nat m / (of_int (tp_chars_per_minute p) / 60000) * typingFactor p q
        \<le> of_nat n / (of_int (tp_chars_per_minute p) / 60000) * typingFactor p q"
    using assms(4) p(1) f by (intro mult_right_mono divide_right_mono) simp_all
  then have "d \<le> e"
    using de p by (auto simp: computeTypingDelay_def Let_def ac_simps intro!: trunc_mono clamp_mono)
  moreover have "computeTypingDelay n p (1 / 2) = Some (trunc (clamp (of_nat n * 60000 / of_int (tp_chars_per_minute p))
          (of_int (tp_min_delay_ms p)) (of_int (tp_max_delay_ms p))))"
    using p by (simp add: computeTypingDelay_def Let_def typingFactor_half)
  ultimately show ?thesis
    using de computeTypingDelay_bounds [OF de(1)] computeTypingDelay_bounds [OF de(2)] by blast
qed

theorem typing_delay_spec_witness:
  "computeTypingDelay 10 \<lparr>tp_chars_per_minute = 200, tp_jitter_percent = 20, tp_min_delay_ms = 1000,
      tp_max_delay_ms = 10000\<rparr> (1 / 2) = Some 3000"
proof -
  have "trunc (clamp (3000 :: rat) 1000 10000) = 3000"
    using trunc_of_int [of 3000] by (simp add: clamp_def)
  then show ?thesis
    using typing_delay_spec [of "\<lparr>tp_chars_per_minute = 200, tp_jitter_percent = 20, tp_min_delay_ms = 1000,
      tp_max_delay_ms = 10000\<rparr>" "1 / 2" 10 10] by (simp add: typing_params_ok_def) blast
qed

end
