(* ===== verification/ByteRange.thy ===== *)
theory ByteRange
  imports CppStrings
begin

text \<open>
  \<^verbatim>\<open>src/src/http/byte_range.hpp\<close>: the parser of a single \<^verbatim>\<open>Range: bytes=a-b\<close> header against a file
  size. Sizes are 64-bit words (\<^verbatim>\<open>std::uintmax_t\<close>). The source returns a flag and fills \<^verbatim>\<open>offset\<close> and
  \<^verbatim>\<open>length\<close>; the model returns \<open>None\<close> for false (the caller then answers 416 and reads neither) and
  \<open>Some (offset, length)\<close> for true.
\<close>

definition isAllDigits :: "string \<Rightarrow> bool" where
  "isAllDigits s \<longleftrightarrow> s \<noteq> [] \<and> list_all is_digit s"

definition parseDigits :: "string \<Rightarrow> u64 option" where
  "parseDigits s = (if \<not> isAllDigits s then None else stoull s)"

definition kRangePrefix :: string where
  "kRangePrefix = ''bytes=''"

definition parseByteRange :: "string \<Rightarrow> u64 \<Rightarrow> (u64 \<times> u64) option" where
  "parseByteRange header file_size =
     (if length header \<le> length kRangePrefix \<or> \<not> starts_with kRangePrefix header \<or> file_size = 0
      then None
      else
        let spec = drop (length kRangePrefix) header
        in case find_char (CHR ''-'') spec of
             None \<Rightarrow> None
           | Some dash \<Rightarrow>
               if find_char (CHR '','') spec \<noteq> None then None
               else
                 let from = take dash spec; to = drop (Suc dash) spec
                 in if from = []
                    then (case parseDigits to of
                            None \<Rightarrow> None
                          | Some n \<Rightarrow>
                              if n = 0 then None
                              else let len = min n file_size in Some (file_size - len, len))
                    else (case parseDigits from of
                            None \<Rightarrow> None
                          | Some offset \<Rightarrow>
                              if file_size \<le> offset then None
                              else
                                (case (if to = [] then Some (file_size - 1)
                                       else map_option (\<lambda>to_val. min to_val (file_size - 1)) (parseDigits to)) of
                                   None \<Rightarrow> None
                                 | Some last_pos \<Rightarrow>
                                     if last_pos < offset then None
                                     else Some (offset, last_pos - offset + 1))))"

section \<open>Digits\<close>

lemma parseDigits_nat:
  "parseDigits (nat_to_string n) = (if n \<le> uint64_max then Some (of_nat n) else None)"
  by (simp add: parseDigits_def isAllDigits_def list_all_iff stoull_digits)

lemma parseDigits_Nil [simp]: "parseDigits [] = None"
  by (simp add: parseDigits_def isAllDigits_def)

lemma parseDigits_Some:
  "parseDigits s = Some v \<Longrightarrow>
   isAllDigits s \<and> digits_value s \<le> uint64_max \<and> v = of_nat (digits_value s) \<and> unat v = digits_value s"
  by (auto simp: parseDigits_def isAllDigits_def stoull_digits unat_of_nat uint64_max_def
      split: if_splits)

section \<open>The words stay in range\<close>

lemma suffix_fits:
  fixes fs :: u64
  shows "n \<noteq> 0 \<Longrightarrow> fs \<noteq> 0 \<Longrightarrow> 0 < min n fs \<and> unat (fs - min n fs) + unat (min n fs) = unat fs"
  by (cases "n \<le> fs") (auto simp: min_def unat_sub word_le_nat_alt word_neq_0_conv)

lemma closed_range_fits:
  fixes fs :: u64
  assumes "a \<le> l" "l \<le> fs - 1" "fs \<noteq> 0"
  shows "unat (l - a + 1) = unat l - unat a + 1 \<and> unat l < unat fs"
proof -
  have fs: "unat (fs - 1) = unat fs - 1" "0 < unat fs"
    using assms(3) by (auto simp: unat_minus_one unat_gt_0)
  have l: "unat l \<le> unat fs - 1" using assms(2) fs by (simp add: word_le_nat_alt)
  have d: "unat (l - a) = unat l - unat a" using assms(1) by (simp add: unat_sub)
  have "unat l - unat a + 1 < 2 ^ 64" using l fs(2) unat_less_2_64 [of fs] by simp
  then have "unat (l - a + 1) = unat l - unat a + 1"
    using d by (simp add: unat_word_ariths)
  with l fs show ?thesis by simp
qed

lemma closed_range_inside:
  fixes fs :: u64
  assumes "a \<le> l" "l \<le> fs - 1" "fs \<noteq> 0"
  shows "0 < l - a + 1 \<and> unat a + unat (l - a + 1) \<le> unat fs"
  using closed_range_fits [OF assms] assms(1)
  by (auto simp: word_le_nat_alt word_less_nat_alt)

section \<open>What the parser yields\<close>

lemma spec_of_prefix [simp]:
  "length kRangePrefix = 6" "starts_with kRangePrefix (kRangePrefix @ s)"
  "drop 6 (kRangePrefix @ s) = s"
  by (simp_all add: kRangePrefix_def starts_with_def)

lemmas parseByteRange_eval = parseByteRange_def kRangePrefix_def starts_with_def parseDigits_def
  isAllDigits_def stoull_digits digits_value_def digit_val_def is_digit_def uint64_max_def

lemma parseByteRange_spec:
  assumes "CHR ''-'' \<notin> set from_txt" "CHR '','' \<notin> set from_txt" "CHR '','' \<notin> set to_txt"
  shows "parseByteRange (kRangePrefix @ from_txt @ CHR ''-'' # to_txt) fs =
    (if fs = 0 then None
     else if from_txt = []
     then (case parseDigits to_txt of
             None \<Rightarrow> None
           | Some n \<Rightarrow> if n = 0 then None else Some (fs - min n fs, min n fs))
     else (case parseDigits from_txt of
             None \<Rightarrow> None
           | Some a \<Rightarrow>
               if fs \<le> a then None
               else (case (if to_txt = [] then Some (fs - 1)
                           else map_option (\<lambda>b. min b (fs - 1)) (parseDigits to_txt)) of
                       None \<Rightarrow> None
                     | Some l \<Rightarrow> if l < a then None else Some (a, l - a + 1))))"
  using assms by (auto simp: parseByteRange_def find_char_first Let_def split: option.splits)

lemma of_nat_le_iff_64: "n \<le> uint64_max \<Longrightarrow> (fs :: u64) \<le> of_nat n \<longleftrightarrow> unat fs \<le> n"
  by (simp add: word_le_nat_alt unat_of_nat_64 uint64_max_def)

lemma word_unat_eqI: "unat (w :: u64) = n \<Longrightarrow> w = of_nat n"
  by auto

lemma fs_le_max: "unat (fs :: u64) \<le> uint64_max"
  using unat_less_2_64 [of fs] by (simp add: uint64_max_def)

lemma parseByteRange_suffix:
  "parseByteRange (kRangePrefix @ CHR ''-'' # nat_to_string b) fs =
     (if 0 < b \<and> b \<le> uint64_max \<and> 0 < fs
      then Some (of_nat (unat fs - min b (unat fs)), of_nat (min b (unat fs))) else None)"
proof (cases "0 < b \<and> b \<le> uint64_max \<and> 0 < fs")
  case True
  then have n: "unat (of_nat b :: u64) = b" by (simp add: unat_of_nat_64 uint64_max_def)
  with True have n0: "(of_nat b :: u64) \<noteq> 0" by (metis unat_0 less_irrefl)
  have m: "unat (min (of_nat b) fs) = min b (unat fs)"
    using n by (auto simp: min_def word_le_nat_alt)
  have d: "unat (fs - min (of_nat b) fs) = unat fs - min b (unat fs)"
    using m by (simp add: unat_sub)
  show ?thesis
    using True n0 word_unat_eqI [OF m] word_unat_eqI [OF d]
      parseByteRange_spec [of "[]" "nat_to_string b" fs]
    by (simp add: parseDigits_nat word_gt_0)
next
  case False
  then show ?thesis
    using parseByteRange_spec [of "[]" "nat_to_string b" fs]
    by (auto simp: parseDigits_nat word_gt_0)
qed

lemma parseByteRange_open:
  "parseByteRange (kRangePrefix @ nat_to_string a @ ''-'') fs =
     (if a < unat fs then Some (of_nat a, of_nat (unat fs - a)) else None)"
proof (cases "a < unat fs")
  case True
  then have a: "a \<le> uint64_max" using fs_le_max [of fs] by simp
  then have ua: "unat (of_nat a :: u64) = a" by (simp add: unat_of_nat_64 uint64_max_def)
  have fs: "fs \<noteq> 0" using True by auto
  have "\<not> fs - 1 < of_nat a"
    using True fs by (simp add: word_less_nat_alt ua unat_minus_one)
  moreover have "fs - 1 - of_nat a + 1 = fs - of_nat a" by simp
  moreover have "unat (fs - of_nat a) = unat fs - a"
    using True by (simp add: unat_sub word_le_nat_alt ua)
  ultimately show ?thesis
    using True a fs word_unat_eqI [of "fs - of_nat a"]
      parseByteRange_spec [of "nat_to_string a" "[]" fs]
    by (simp add: parseDigits_nat of_nat_le_iff_64)
next
  case False
  then show ?thesis
    using parseByteRange_spec [of "nat_to_string a" "[]" fs]
    by (auto simp: parseDigits_nat of_nat_le_iff_64)
qed

lemma parseByteRange_closed:
  "parseByteRange (kRangePrefix @ nat_to_string a @ CHR ''-'' # nat_to_string b) fs =
     (if a < unat fs \<and> a \<le> b \<and> b \<le> uint64_max
      then Some (of_nat a, of_nat (min b (unat fs - 1) - a + 1)) else None)"
proof (cases "a < unat fs \<and> b \<le> uint64_max")
  case True
  then have a: "a \<le> uint64_max" using fs_le_max [of fs] by simp
  then have ua: "unat (of_nat a :: u64) = a" by (simp add: unat_of_nat_64 uint64_max_def)
  have fs: "fs \<noteq> 0" using True by auto
  have ub: "unat (of_nat b :: u64) = b" using True by (simp add: unat_of_nat_64 uint64_max_def)
  let ?l = "min (of_nat b) (fs - 1) :: u64"
  have ul: "unat ?l = min b (unat fs - 1)"
    using fs ub by (auto simp: min_def word_le_nat_alt unat_minus_one)
  have lt: "?l < of_nat a \<longleftrightarrow> b < a"
    unfolding word_less_nat_alt ul ua using True by auto
  have len: "unat (?l - of_nat a + 1) = min b (unat fs - 1) - a + 1" if "a \<le> b"
  proof -
    have "of_nat a \<le> ?l" using lt that by (simp only: linorder_not_less [symmetric]) simp
    from closed_range_fits [OF this min.cobounded2 fs] show ?thesis by (simp add: ul ua)
  qed
  show ?thesis
    using True a fs lt word_unat_eqI [OF len]
      parseByteRange_spec [of "nat_to_string a" "nat_to_string b" fs]
    by (auto simp: parseDigits_nat of_nat_le_iff_64)
next
  case False
  then show ?thesis
    using parseByteRange_spec [of "nat_to_string a" "nat_to_string b" fs] fs_le_max [of fs]
    by (auto simp: parseDigits_nat of_nat_le_iff_64 split: option.splits)
qed

lemma parseByteRange_inside:
  assumes "parseByteRange header fs = Some (off, len)"
  shows "0 < len \<and> unat off + unat len \<le> unat fs"
proof -
  have fs: "fs \<noteq> 0" using assms by (auto simp: parseByteRange_def)
  have sfx: "0 < min n fs \<and> unat (fs - min n fs) + unat (min n fs) \<le> unat fs" if "n \<noteq> 0" for n
    using suffix_fits [OF that fs] by simp
  have cl: "0 < l - a + 1 \<and> unat a + unat (l - a + 1) \<le> unat fs"
    if "\<not> l < a" "l \<le> fs - 1" for l a :: u64
    using closed_range_inside [of a l fs] that fs by simp
  have cl2: "unat a + unat (fs - a) \<le> unat fs" if "\<not> fs \<le> a" for a
    using that by (simp add: unat_sub word_le_nat_alt)
  have len1: "min b (fs - 1) \<le> fs - 1" for b by simp
  show ?thesis
    using assms sfx cl cl2 cl [OF _ len1]
    by (auto simp: parseByteRange_def Let_def split: if_splits option.splits)
qed

text \<open>a range the parser accepts is a non-empty piece of the file: the length is positive and
  offset plus length, as unbounded numbers, does not pass the end of the file. No wrap-around of the
  64-bit arithmetic can widen it.\<close>

theorem byte_range_inside_file:
  assumes "parseByteRange header fs = Some (off, len)"
  shows "0 < len \<and> unat off + unat len \<le> unat fs"
  using assms by (rule parseByteRange_inside)

theorem byte_range_inside_file_witness:
  "unat (90 :: u64) + unat (10 :: u64) \<le> unat (100 :: u64)"
proof -
  have "parseByteRange ''bytes=90-'' 100 = Some (90, 10)"
    by (simp add: parseByteRange_eval)
  from byte_range_inside_file [OF this] show ?thesis by simp
qed

text \<open>the three forms of a byte range, on every branch. \<open>bytes=a-b\<close> is the closed interval cut at the
  end of the file, \<open>bytes=a-\<close> runs to the end, \<open>bytes=-n\<close> is the last \<open>n\<close> bytes (the whole file when it
  is shorter); each is refused exactly when it is empty, starts past the end, or has a number above
  the 64-bit range.\<close>

theorem byte_range_forms:
  "parseByteRange (''bytes='' @ nat_to_string a @ ''-'' @ nat_to_string b) fs =
     (if a < unat fs \<and> a \<le> b \<and> b \<le> uint64_max
      then Some (of_nat a, of_nat (min b (unat fs - 1) - a + 1)) else None)
   \<and> parseByteRange (''bytes='' @ nat_to_string a @ ''-'') fs =
     (if a < unat fs then Some (of_nat a, of_nat (unat fs - a)) else None)
   \<and> parseByteRange (''bytes=-'' @ nat_to_string b) fs =
     (if 0 < b \<and> b \<le> uint64_max \<and> 0 < fs
      then Some (of_nat (unat fs - min b (unat fs)), of_nat (min b (unat fs))) else None)"
  using parseByteRange_closed [of a b fs] parseByteRange_open [of a fs]
    parseByteRange_suffix [of b fs]
  by (simp add: kRangePrefix_def)

end
