(* ===== verification/MessageRoutes.thy ===== *)
theory MessageRoutes
  imports RouteHelpers TypingDelay ByteRange
begin

text \<open>
  \<^verbatim>\<open>src/src/http/message_routes.cpp\<close> and \<^verbatim>\<open>upload_sanitize.hpp\<close>: every handler as a tree. A handler takes the
  request and the pieces of its path; the bridge and the client id are constant and left out. The branches stand
  in the order of the code, early returns included.
\<close>

section \<open>Chats and history\<close>

text \<open>\<^verbatim>\<open>offset\<close> of the chat list: \<open>None\<close> when it is beyond the window.\<close>

definition offsetParam :: "string \<Rightarrow> int option" where
  "offsetParam value =
     (if value = [] then Some 0
      else (case stoi value of
              None \<Rightarrow> Some 0
            | Some (parsed, _) \<Rightarrow> if 900 < parsed then None else if 1 \<le> parsed then Some parsed else Some 0))"

fun chatCards :: "int list \<Rightarrow> json list \<Rightarrow> (json list \<Rightarrow> task) \<Rightarrow> task" where
  "chatCards [] arr k = k arr"
| "chatCards (i # is) arr k =
     Invoke (GetChat i) (\<lambda>ob. case expect ob of
        Inl _ \<Rightarrow> chatCards is arr k
      | Inr (ObjChat c) \<Rightarrow> chatCards is (arr @ [chatToJson c]) k
      | Inr _ \<Rightarrow> Crash)"

definition nextOffset :: "int \<Rightarrow> int list \<Rightarrow> (string \<times> json) list" where
  "nextOffset want ids =
     (if int (length ids) = want \<and> want \<le> 900 then [(''meta'', JObj [(''next_offset'', JInt want)])] else [])"

definition h_chats :: "request \<Rightarrow> task" where
  "h_chats req =
     (let limit = queryInt (rq_param req ''limit'') 20 100
      in case offsetParam (rq_param req ''offset'') of
           None \<Rightarrow> Respond (validation ''offset must not exceed 900'')
         | Some offset \<Rightarrow>
             (let want = offset + limit
              in Invoke (LoadChats want) (\<lambda>_. Invoke (GetChats want) (\<lambda>ob. case expect ob of
                   Inl e \<Rightarrow> Respond (telegramError e)
                 | Inr (ObjChats ids) \<Rightarrow>
                     chatCards (drop (nat offset) ids) []
                       (\<lambda>arr. Respond (jsonResponse (okBody ([(''data'', JArr arr)] @ nextOffset want ids)) 200))
                 | Inr _ \<Rightarrow> Crash))))"

definition historyBody :: "message option list \<Rightarrow> json" where
  "historyBody ms =
     okBody [(''data'', JArr (map messageToJson (present ms))),
             (''meta'', JObj [(''next_cursor'', if present ms = [] then JNull else jid (m_id (last (present ms))))])]"

definition h_history :: "string \<Rightarrow> request \<Rightarrow> task" where
  "h_history chat_str req =
     (case parseId chat_str 0 of
        (False, _) \<Rightarrow> Respond (validation ''invalid chat_id'')
      | (True, chat) \<Rightarrow>
          (let from = snd (parseId (rq_param req ''from_id'') 0);
               limit = queryInt (rq_param req ''limit'') 30 100
           in launchInvoke (GetChatHistory chat from 0 limit False)
                (\<lambda>ob. case expect ob of
                   Inl e \<Rightarrow> Some (telegramError e)
                 | Inr (ObjMessages ms) \<Rightarrow> Some (jsonResponse (historyBody ms) 200)
                 | Inr _ \<Rightarrow> None)))"

section \<open>Sending a text\<close>

record send_config =
  sc_humanize :: bool
  sc_typing :: typing_params
  sc_id_wait_ms :: int

function typingLoop :: "int \<Rightarrow> int \<Rightarrow> task \<Rightarrow> task" where
  "typingLoop chat remaining k =
     (if 0 < remaining
      then OneWay (SendChatActionTyping chat)
             (Sleep (min remaining 4000) (typingLoop chat (remaining - min remaining 4000) k))
      else k)"
  by pat_completeness auto
termination
  by (relation "measure (\<lambda>(chat, remaining, k). nat remaining)") auto

declare typingLoop.simps [simp del]

definition humanPause :: "send_config \<Rightarrow> int \<Rightarrow> nat \<Rightarrow> task \<Rightarrow> task" where
  "humanPause cfg chat text_length k =
     (if sc_humanize cfg
      then Jitter (\<lambda>q. case computeTypingDelay text_length (sc_typing cfg) q of
             None \<Rightarrow> Crash
           | Some remaining \<Rightarrow> typingLoop chat remaining k)
      else k)"

definition releaseKey :: "string \<Rightarrow> task \<Rightarrow> task" where
  "releaseKey key k = (if key = [] then k else IdemRelease key k)"

definition storeKey :: "string \<Rightarrow> nat \<Rightarrow> json \<Rightarrow> task \<Rightarrow> task" where
  "storeKey key status doc k = (if key = [] then k else IdemStore key status doc k)"

definition pendingDoc :: "message \<Rightarrow> json" where
  "pendingDoc m = okBody [(''data'', JObj [(''temporary_message_id'', jid (m_id m)),
     (''chat_id'', jid (m_chat_id m)), (''sending_state'', JStr ''pending'')])]"

definition answerPending :: "string \<Rightarrow> message \<Rightarrow> task" where
  "answerPending key m = storeKey key 202 (pendingDoc m) (Respond (jsonResponse (pendingDoc m) 202))"

text \<open>What happens once \<^verbatim>\<open>sendMessage\<close> has answered with the temporary message.\<close>

definition awaitConfirmation :: "send_config \<Rightarrow> string \<Rightarrow> message \<Rightarrow> task" where
  "awaitConfirmation cfg key m =
     (if sc_humanize cfg \<and> 0 < sc_id_wait_ms cfg
      then WaitFor (m_id m) (sc_id_wait_ms cfg) (\<lambda>confirmed. case confirmed of
             Some (SendSucceeded doc) \<Rightarrow>
               (case jset ''sending_state'' (JStr ''sent'') doc of
                  None \<Rightarrow> Crash
                | Some data \<Rightarrow>
                    storeKey key 200 (okBody [(''data'', data)])
                      (Respond (jsonResponse (okBody [(''data'', data)]) 200)))
           | Some (SendFailed code msg) \<Rightarrow>
               releaseKey key (Respond (telegramError (TdError code msg)))
           | None \<Rightarrow> answerPending key m)
      else answerPending key m)"

definition sendCoroutine :: "send_config \<Rightarrow> int \<Rightarrow> int option \<Rightarrow> formatted_text \<Rightarrow> nat \<Rightarrow> string \<Rightarrow> task" where
  "sendCoroutine cfg chat reply formatted text_length key =
     humanPause cfg chat text_length
       (Invoke (SendMessage chat reply (Some (InputText formatted))) (\<lambda>ob. case expect ob of
          Inl e \<Rightarrow> releaseKey key (Respond (telegramError e))
        | Inr (ObjMessage m) \<Rightarrow> awaitConfirmation cfg key m
        | Inr _ \<Rightarrow> Crash))"

text \<open>The optional \<^verbatim>\<open>reply_to_message_id\<close>: \<open>None\<close> when it is a string that is no id, or 0.\<close>

definition replyField :: "(string \<times> json) list \<Rightarrow> int option option" where
  "replyField ms = (case jmember ms ''reply_to_message_id'' of
     JStr s \<Rightarrow> (case idOf s of None \<Rightarrow> None | Some i \<Rightarrow> if i = 0 then None else Some (Some i))
   | _ \<Rightarrow> Some None)"

definition replayed :: "nat \<Rightarrow> string \<Rightarrow> response" where
  "replayed status body =
     \<lparr>rs_status = status, rs_headers = [(''Idempotency-Replayed'', ''true'')], rs_body = RawJson body\<rparr>"

definition sendClaimed :: "send_config \<Rightarrow> int \<Rightarrow> (string \<times> json) list \<Rightarrow> string \<Rightarrow> string \<Rightarrow> task" where
  "sendClaimed cfg chat ms txt key =
     makeFormattedText txt (parseModeField ms) (\<lambda>x. case x of
        Inl err \<Rightarrow> releaseKey key (Respond (validation err))
      | Inr formatted \<Rightarrow>
          (case replyField ms of
             None \<Rightarrow> releaseKey key (Respond (validation ''invalid reply_to_message_id''))
           | Some reply \<Rightarrow> sendCoroutine cfg chat reply formatted (utf8CodepointCount txt) key))"

definition h_send :: "send_config \<Rightarrow> string \<Rightarrow> request \<Rightarrow> task" where
  "h_send cfg chat_str req =
     (case parseId chat_str 0 of
        (False, _) \<Rightarrow> Respond (validation ''invalid chat_id'')
      | (True, chat) \<Rightarrow>
          (case (bodyObject req, textField req ''text'') of
             (Some ms, Some txt) \<Rightarrow>
               (let key = rq_header req ''Idempotency-Key''
                in if key = [] then sendClaimed cfg chat ms txt key
                   else IdemClaim key (\<lambda>state. case state of
                          ClaimInFlight \<Rightarrow> Respond (serviceError ''IDEMPOTENCY_KEY_REUSED''
                            ''request with this Idempotency-Key is in flight'' 409)
                        | ClaimDone status body \<Rightarrow> Respond (replayed status body)
                        | ClaimFree \<Rightarrow> sendClaimed cfg chat ms txt key))
           | _ \<Rightarrow> Respond (validation ''field 'text' is required'')))"

section \<open>Reading, files\<close>

text \<open>\<^verbatim>\<open>ok\<close> for any answer but an error.\<close>

definition okBuilder :: "td_object option \<Rightarrow> response option" where
  "okBuilder ob = (case ob of
     Some (ObjError e) \<Rightarrow> Some (telegramError e)
   | _ \<Rightarrow> Some (jsonResponse (okBody []) 200))"

definition h_read :: "string \<Rightarrow> request \<Rightarrow> task" where
  "h_read chat_str req =
     (case parseId chat_str 0 of
        (False, _) \<Rightarrow> Respond (validation ''invalid chat_id'')
      | (True, chat) \<Rightarrow>
          (case bodyObject req of
             None \<Rightarrow> Respond (validation ''field 'message_ids' (array) is required'')
           | Some ms \<Rightarrow>
               (case jmember ms ''message_ids'' of
                  JArr items \<Rightarrow> launchInvoke (ViewMessages chat (idsIn items) True) okBuilder
                | _ \<Rightarrow> Respond (validation ''field 'message_ids' (array) is required''))))"

definition rangeNotSatisfiable :: response where
  "rangeNotSatisfiable = \<lparr>rs_status = 416, rs_headers = [], rs_body = NoBody\<rparr>"

definition fileResponse :: "string \<Rightarrow> (u64 \<times> u64) option \<Rightarrow> response" where
  "fileResponse path rng =
     \<lparr>rs_status = (if rng = None then 200 else 206), rs_headers = [], rs_body = FileBody path rng\<rparr>"

definition serveFile :: "request \<Rightarrow> string \<Rightarrow> task" where
  "serveFile req path =
     (let range = rq_header req ''Range''
      in if range = [] then Respond (fileResponse path None)
         else FileSize path (\<lambda>size. case size of
                None \<Rightarrow> Respond rangeNotSatisfiable
              | Some fsize \<Rightarrow>
                  (case parseByteRange range fsize of
                     Some rng \<Rightarrow> Respond (fileResponse path (Some rng))
                   | None \<Rightarrow> Respond rangeNotSatisfiable)))"

text \<open>The path of a file that is there completely.\<close>

definition completePath :: "td_file \<Rightarrow> string option" where
  "completePath f = (case f_local f of
     None \<Rightarrow> None
   | Some l \<Rightarrow> if lf_completed l \<and> lf_path l \<noteq> [] then Some (lf_path l) else None)"

definition h_file :: "string \<Rightarrow> request \<Rightarrow> task" where
  "h_file file_str req =
     (case parseId file_str 0 of
        (False, _) \<Rightarrow> Respond (validation ''invalid file_id'')
      | (True, fid) \<Rightarrow>
          if fid < 1 \<or> int32_max < fid then Respond (validation ''invalid file_id'')
          else Invoke (GetFile fid) (\<lambda>ob. case expect ob of
                 Inl e \<Rightarrow> Respond (telegramError e)
               | Inr (ObjFile f) \<Rightarrow>
                   (case completePath f of
                      Some path \<Rightarrow> serveFile req path
                    | None \<Rightarrow>
                        Invoke (DownloadFile fid 1 0 0 False)
                          (\<lambda>_. Respond (jsonResponse (okBody [(''data'', fileToJson f)]) 202)))
               | Inr _ \<Rightarrow> Crash))"

section \<open>Uploading\<close>

text \<open>\<^verbatim>\<open>path::filename\<close>: what follows the last slash.\<close>

definition path_filename :: "string \<Rightarrow> string" where
  "path_filename p = rev (takeWhile (\<lambda>c. c \<noteq> CHR ''/'') (rev p))"

definition sanitizeUploadFilename :: "string \<Rightarrow> string" where
  "sanitizeUploadFilename requested =
     (let name = path_filename requested
      in if name = [] \<or> name = ''.'' \<or> name = ''..'' then ''upload.bin'' else name)"

text \<open>\<^verbatim>\<open>a / b\<close> on paths: an absolute right side replaces the left, a separator is added where none is.\<close>

definition path_join :: "string \<Rightarrow> string \<Rightarrow> string" where
  "path_join a b =
     (if (case b of c # _ \<Rightarrow> c = CHR ''/'' | [] \<Rightarrow> False) then b
      else if a = [] then b
      else if last a = CHR ''/'' then a @ b
      else a @ [CHR ''/''] @ b)"

definition mediaTypes :: "string list" where
  "mediaTypes = [''document'', ''photo'', ''video'', ''voice'', ''audio'']"

definition uploadContent :: "string \<Rightarrow> string \<Rightarrow> formatted_text option \<Rightarrow> input_content option" where
  "uploadContent media_type path caption =
     (if media_type = [] \<or> media_type = ''document'' then Some (InputDocument path caption)
      else if media_type = ''photo'' then Some (InputPhoto path caption)
      else if media_type = ''video'' then Some (InputVideo path caption True)
      else if media_type = ''voice'' then Some (InputVoiceNote path caption)
      else if media_type = ''audio'' then Some (InputAudio path caption)
      else None)"

definition pendingBuilder :: "td_object option \<Rightarrow> response option" where
  "pendingBuilder ob = (case expect ob of
     Inl e \<Rightarrow> Some (telegramError e)
   | Inr (ObjMessage m) \<Rightarrow> Some (jsonResponse (pendingDoc m) 202)
   | Inr _ \<Rightarrow> None)"

definition uploadCaption :: "string \<Rightarrow> formatted_text option" where
  "uploadCaption txt = (if txt = [] then None else Some \<lparr>ft_text = txt, ft_entities = []\<rparr>)"

text \<open>
  The task of the upload's queue. \<open>NextUpload\<close> is the process's counter (\<open>uploadNumber\<close>). The stream buffers: what \<open>WriteBody\<close>
  tells is whether the stream is good when \<^verbatim>\<open>write\<close> has returned, with the end of the body perhaps still in its
  buffer; that is flushed when the stream is closed at the end of its block, \<open>CloseBody\<close>, whose outcome nobody looks at.
\<close>

definition uploadNumber :: "nat \<Rightarrow> u64" where
  "uploadNumber n = of_nat n + 1"

definition uploadTask :: "string \<Rightarrow> int \<Rightarrow> request \<Rightarrow> task" where
  "uploadTask upload_dir chat req =
     (let media_type = rq_param req ''type''
      in if media_type \<noteq> [] \<and> media_type \<notin> set mediaTypes
         then Respond (validation ''type must be document|photo|video|voice|audio'')
         else
           (let name = sanitizeUploadFilename (rq_param req ''file_name'')
            in NextUpload (\<lambda>sq.
                 let dir = path_join upload_dir (CHR ''u'' # nat_to_string (unat sq))
                 in CreateDirs dir (\<lambda>made.
                      if \<not> made then Respond (serviceError ''INTERNAL'' ''cannot create upload directory'' 500)
                      else (let path = path_join dir name
                            in WriteBody path (\<lambda>written.
                                 if \<not> written
                                 then RemoveAll dir
                                        (Respond (serviceError ''INTERNAL'' ''failed to write uploaded file'' 500))
                                 else CloseBody path
                                        (launchInvoke
                                          (SendMessage chat None
                                            (uploadContent media_type path (uploadCaption (rq_param req ''caption''))))
                                          pendingBuilder)))))))"

definition h_upload :: "string \<Rightarrow> string \<Rightarrow> request \<Rightarrow> task" where
  "h_upload upload_dir chat_str req =
     (case parseId chat_str 0 of
        (False, _) \<Rightarrow> Respond (validation ''invalid chat_id'')
      | (True, chat) \<Rightarrow> uploadTask upload_dir chat req)"

section \<open>Changing messages\<close>

text \<open>The two ids of a path; the second is read only when the first is good.\<close>

definition twoIds :: "string \<Rightarrow> string \<Rightarrow> (int \<times> int) option" where
  "twoIds a b = (case parseId a 0 of
     (False, _) \<Rightarrow> None
   | (True, x) \<Rightarrow> (case parseId b 0 of (False, _) \<Rightarrow> None | (True, y) \<Rightarrow> Some (x, y)))"

definition messageBuilder :: "td_object option \<Rightarrow> response option" where
  "messageBuilder ob = (case expect ob of
     Inl e \<Rightarrow> Some (telegramError e)
   | Inr (ObjMessage m) \<Rightarrow> Some (jsonResponse (okBody [(''data'', messageToJson m)]) 200)
   | Inr _ \<Rightarrow> None)"

definition h_edit :: "string \<Rightarrow> string \<Rightarrow> request \<Rightarrow> task" where
  "h_edit chat_str message_str req =
     (case twoIds chat_str message_str of
        None \<Rightarrow> Respond (validation ''invalid chat_id/message_id'')
      | Some (chat, mid) \<Rightarrow>
          (case (bodyObject req, textField req ''text'') of
             (Some ms, Some txt) \<Rightarrow>
               makeFormattedText txt (parseModeField ms) (\<lambda>x. case x of
                  Inl err \<Rightarrow> Respond (validation err)
                | Inr formatted \<Rightarrow> launchInvoke (EditMessageText chat mid (InputText formatted)) messageBuilder)
           | _ \<Rightarrow> Respond (validation ''field 'text' is required'')))"

definition okOnlyBuilder :: "td_object option \<Rightarrow> response option" where
  "okOnlyBuilder ob = (case expect ob of
     Inl e \<Rightarrow> Some (telegramError e)
   | Inr _ \<Rightarrow> Some (jsonResponse (okBody []) 200))"

definition h_delete :: "string \<Rightarrow> request \<Rightarrow> task" where
  "h_delete chat_str req =
     (case parseId chat_str 0 of
        (False, _) \<Rightarrow> Respond (validation ''invalid chat_id'')
      | (True, chat) \<Rightarrow>
          (case bodyObject req of
             None \<Rightarrow> Respond (validation ''field 'message_ids' is required'')
           | Some ms \<Rightarrow>
               (case jmember ms ''message_ids'' of
                  JArr items \<Rightarrow>
                    if items = [] then Respond (validation ''field 'message_ids' is required'')
                    else (case idList items of
                            None \<Rightarrow> Respond (validation ''message_ids must be strings'')
                          | Some ids \<Rightarrow>
                              launchInvoke (DeleteMessages chat ids
                                (case jmember ms ''revoke'' of JBool b \<Rightarrow> b | _ \<Rightarrow> True)) okOnlyBuilder)
                | _ \<Rightarrow> Respond (validation ''field 'message_ids' is required''))))"

definition forwardBuilder :: "td_object option \<Rightarrow> response option" where
  "forwardBuilder ob = (case expect ob of
     Inl e \<Rightarrow> Some (telegramError e)
   | Inr (ObjMessages ms) \<Rightarrow>
       Some (jsonResponse (okBody [(''data'',
          JObj [(''temporary_message_ids'', JArr (map (\<lambda>m. jid (m_id m)) (present ms)))])]) 202)
   | Inr _ \<Rightarrow> None)"

definition h_forward :: "string \<Rightarrow> request \<Rightarrow> task" where
  "h_forward chat_str req =
     (case parseId chat_str 0 of
        (False, _) \<Rightarrow> Respond (validation ''invalid chat_id'')
      | (True, chat) \<Rightarrow>
          (case bodyObject req of
             None \<Rightarrow> Respond (validation ''fields 'from_chat_id' and 'message_ids' are required'')
           | Some ms \<Rightarrow>
               (case (jmember ms ''from_chat_id'', jmember ms ''message_ids'') of
                  (JStr from_str, JArr items) \<Rightarrow>
                    (case (idOf from_str, items) of
                       (Some from, _ # _) \<Rightarrow>
                         (case idList items of
                            None \<Rightarrow> Respond (validation ''message_ids must be strings'')
                          | Some ids \<Rightarrow>
                              launchInvoke (ForwardMessages chat from ids (flagField ms ''send_copy'')
                                (flagField ms ''remove_caption'')) forwardBuilder)
                     | _ \<Rightarrow> Respond (validation ''fields 'from_chat_id' and 'message_ids' are required''))
                | _ \<Rightarrow> Respond (validation ''fields 'from_chat_id' and 'message_ids' are required''))))"

section \<open>Searching\<close>

definition h_search :: "string \<Rightarrow> request \<Rightarrow> task" where
  "h_search chat_str req =
     (case parseId chat_str 0 of
        (False, _) \<Rightarrow> Respond (validation ''invalid chat_id'')
      | (True, chat) \<Rightarrow>
          (let query = rq_param req ''q''
           in if query = [] then Respond (validation ''query param 'q' is required'')
              else launchInvoke
                (SearchChatMessages chat query (snd (parseId (rq_param req ''from_id'') 0)) 0
                   (queryInt (rq_param req ''limit'') 20 100))
                (\<lambda>ob. case expect ob of
                   Inl e \<Rightarrow> Some (telegramError e)
                 | Inr (ObjFoundChatMessages ms cnt next) \<Rightarrow>
                     Some (jsonResponse (okBody [(''data'', JArr (map messageToJson (present ms))),
                       (''meta'', JObj ([(''total_count'', JInt cnt)]
                          @ (if next \<noteq> 0 then [(''next_from_id'', jid next)] else [])))]) 200)
                 | Inr _ \<Rightarrow> None)))"

definition h_search_all :: "request \<Rightarrow> task" where
  "h_search_all req =
     (let query = rq_param req ''q''
      in if query = [] then Respond (validation ''query param 'q' is required'')
         else launchInvoke
           (SearchMessages query (rq_param req ''offset'') (queryInt (rq_param req ''limit'') 20 100) 0 0)
           (\<lambda>ob. case expect ob of
              Inl e \<Rightarrow> Some (telegramError e)
            | Inr (ObjFoundMessages ms cnt next) \<Rightarrow>
                Some (jsonResponse (okBody [(''data'', JArr (map messageToJson (present ms))),
                  (''meta'', JObj ([(''total_count'', JInt cnt)]
                     @ (if next \<noteq> [] then [(''next_offset'', JStr next)] else [])))]) 200)
            | Inr _ \<Rightarrow> None))"

section \<open>Reactions\<close>

definition h_react :: "string \<Rightarrow> string \<Rightarrow> request \<Rightarrow> task" where
  "h_react chat_str message_str req =
     (case twoIds chat_str message_str of
        None \<Rightarrow> Respond (validation ''invalid chat_id/message_id'')
      | Some (chat, mid) \<Rightarrow>
          (case textField req ''emoji'' of
             None \<Rightarrow> Respond (validation ''field 'emoji' is required'')
           | Some emoji \<Rightarrow> launchInvoke (AddMessageReaction chat mid emoji False True) okBuilder))"

definition h_unreact :: "string \<Rightarrow> string \<Rightarrow> request \<Rightarrow> task" where
  "h_unreact chat_str message_str req =
     (case twoIds chat_str message_str of
        None \<Rightarrow> Respond (validation ''invalid chat_id/message_id'')
      | Some (chat, mid) \<Rightarrow>
          (case textField req ''emoji'' of
             None \<Rightarrow> Respond (validation ''field 'emoji' is required'')
           | Some emoji \<Rightarrow> launchInvoke (RemoveMessageReaction chat mid emoji) okBuilder))"

end
