(* ===== verification/DirectoryRoutes.thy ===== *)
theory DirectoryRoutes
  imports RouteHelpers
begin

text \<open>
  \<^verbatim>\<open>src/src/http/directory_routes.cpp\<close>: resolving a name, cards of chats and users, joining, members, contacts.
\<close>

definition chatBuilder :: "td_object option \<Rightarrow> response option" where
  "chatBuilder ob = (case expect ob of
     Inl e \<Rightarrow> Some (telegramError e)
   | Inr (ObjChat c) \<Rightarrow> Some (jsonResponse (okBody [(''data'', chatToJson c)]) 200)
   | Inr _ \<Rightarrow> None)"

definition h_resolve :: "request \<Rightarrow> task" where
  "h_resolve req =
     (let raw = rq_param req ''username'';
          username = (case raw of c # rest \<Rightarrow> if c = CHR ''@'' then rest else raw | [] \<Rightarrow> [])
      in if username = [] then Respond (validation ''query param 'username' is required'')
         else launchInvoke (SearchPublicChat username) chatBuilder)"

definition h_chat :: "string \<Rightarrow> task" where
  "h_chat chat_str =
     (case parseId chat_str 0 of
        (False, _) \<Rightarrow> Respond (validation ''invalid chat_id'')
      | (True, chat) \<Rightarrow> launchInvoke (GetChat chat) chatBuilder)"

definition userBuilder :: "td_object option \<Rightarrow> response option" where
  "userBuilder ob = (case expect ob of
     Inl e \<Rightarrow> Some (telegramError e)
   | Inr (ObjUser u) \<Rightarrow> Some (jsonResponse (okBody [(''data'', userDtoToJson u)]) 200)
   | Inr _ \<Rightarrow> None)"

definition h_user :: "string \<Rightarrow> task" where
  "h_user user_str =
     (case parseId user_str 0 of
        (False, _) \<Rightarrow> Respond (validation ''invalid user_id'')
      | (True, i) \<Rightarrow> launchInvoke (GetUser i) userBuilder)"

definition joinBuilder :: "td_object option \<Rightarrow> response option" where
  "joinBuilder ob = (case ob of
     Some (ObjError e) \<Rightarrow> Some (telegramError e)
   | Some (ObjJoinSuccess chat) \<Rightarrow>
       Some (jsonResponse (okBody [(''data'', JObj [(''result'', JStr ''joined''), (''chat_id'', jid chat)])]) 200)
   | Some ObjJoinRequestSent \<Rightarrow>
       Some (jsonResponse (okBody [(''data'', JObj [(''result'', JStr ''request_sent'')])]) 200)
   | _ \<Rightarrow> Some (jsonResponse (okBody [(''data'', JObj [(''result'', JStr ''declined'')])]) 200))"

definition h_join :: "request \<Rightarrow> task" where
  "h_join req =
     (case textField req ''invite_link'' of
        None \<Rightarrow> Respond (validation ''field 'invite_link' is required'')
      | Some link \<Rightarrow> launchInvoke (JoinChatByInviteLink link) joinBuilder)"

text \<open>\<^verbatim>\<open>std::atoi\<close>: 0 without digits; a value no \<^verbatim>\<open>int\<close> can hold is undefined in C.\<close>

definition atoi :: "string \<Rightarrow> int option" where
  "atoi s =
     (let (neg, ds, _) = scan_number s;
          v = (if neg then - int (digits_value ds) else int (digits_value ds))
      in if ds = [] then Some 0 else if int32_min \<le> v \<and> v \<le> int32_max then Some v else None)"

definition membersBuilder :: "td_object option \<Rightarrow> response option" where
  "membersBuilder ob = (case expect ob of
     Inl e \<Rightarrow> Some (telegramError e)
   | Inr (ObjChatMembers ms cnt) \<Rightarrow>
       Some (jsonResponse (okBody [(''data'', JArr (map memberToJson (present ms))),
         (''meta'', JObj [(''total_count'', JInt cnt)])]) 200)
   | Inr _ \<Rightarrow> None)"

definition h_members :: "string \<Rightarrow> request \<Rightarrow> task" where
  "h_members chat_str req =
     (case parseId chat_str 0 of
        (False, _) \<Rightarrow> Respond (validation ''invalid chat_id'')
      | (True, chat) \<Rightarrow>
          (let limit_str = rq_param req ''limit''
           in case (if limit_str = [] then Some 50
                    else (case atoi limit_str of None \<Rightarrow> None | Some n \<Rightarrow> Some (max 1 (min 200 n)))) of
                None \<Rightarrow> Crash
              | Some limit \<Rightarrow>
                  launchInvoke (SearchChatMembers chat (rq_param req ''query'') limit) membersBuilder))"

definition contactsBuilder :: "td_object option \<Rightarrow> response option" where
  "contactsBuilder ob = (case expect ob of
     Inl e \<Rightarrow> Some (telegramError e)
   | Inr (ObjUsers ids cnt) \<Rightarrow>
       Some (jsonResponse (okBody [(''data'', JObj [(''user_ids'', JArr (map jid ids)), (''total_count'', JInt cnt)])]) 200)
   | Inr _ \<Rightarrow> None)"

definition h_contacts :: task where
  "h_contacts = launchInvoke GetContacts contactsBuilder"

end
