(* ===== verification/AuthRoutes.thy ===== *)
theory AuthRoutes
  imports RouteHelpers
begin

text \<open>
  \<^verbatim>\<open>src/src/http/routes.cpp\<close>: the probes, the authorization routes and \<^verbatim>\<open>/v1/me\<close>. The rate limiter is Drogon's
  sliding window and answers the node \<open>RateAllowed\<close>; every read of the authorization manager is a node of its own,
  because an update may come between two of them.
\<close>

section \<open>Projections\<close>

definition userToJson :: "user \<Rightarrow> json" where
  "userToJson u = JObj [(''id'', jid (u_id u)), (''first_name'', JStr (u_first_name u)), (''last_name'', JStr (u_last_name u))]"

definition authStateJson :: "(json \<Rightarrow> task) \<Rightarrow> task" where
  "authStateJson k = ReadAuth (\<lambda>a.
     let base = [(''authorization_state'', JStr (authStateName (au_state a))), (''ready'', JBool (au_state a = Ready))]
     in if au_state a = WaitOtherDeviceConfirmation
        then ReadAuth (\<lambda>b. k (JObj (base @ [(''qr_link'', JStr (au_qr_link b))])))
        else if au_state a = WaitCode
        then ReadAuth (\<lambda>b. k (JObj (base @ [(''code_info'',
               JObj [(''type'', JStr (cd_type (au_code_info b))), (''next_type'', JStr (cd_next_type (au_code_info b))),
                     (''length'', JInt (cd_length (au_code_info b))),
                     (''resend_timeout'', JInt (cd_timeout (au_code_info b)))])])))
        else k (JObj base))"

definition answerAuthState :: task where
  "answerAuthState = authStateJson (\<lambda>data. Respond (jsonResponse (okBody [(''data'', data)]) 200))"

definition launchAuthMutation :: "td_function \<Rightarrow> task" where
  "launchAuthMutation f = Invoke f (\<lambda>ob. case ob of
     Some (ObjError e) \<Rightarrow> Respond (telegramError e)
   | _ \<Rightarrow> answerAuthState)"

text \<open>\<open>Inl\<close> is the error text.\<close>

definition jsonString :: "request \<Rightarrow> string \<Rightarrow> string + string" where
  "jsonString req field = (case bodyObject req of
     None \<Rightarrow> Inl (''field '' @ quoted field @ '' is required'')
   | Some ms \<Rightarrow>
       (case jmember ms field of
          JStr s \<Rightarrow> if s = [] then Inl (''field '' @ quoted field @ '' must be non-empty'') else Inr s
        | _ \<Rightarrow> Inl (''field '' @ quoted field @ '' is required'')))"

section \<open>The handlers\<close>

definition h_health :: task where
  "h_health = Respond (jsonResponse (okBody [(''status'', JStr ''alive'')]) 200)"

definition h_ready :: task where
  "h_ready = ReadAuth (\<lambda>a. ReadAuth (\<lambda>b.
     Respond (jsonResponse (JObj [(''ready'', JBool (au_state a = Ready)), (''state'', JStr (authStateName (au_state b)))])
                (if au_state a = Ready then 200 else 503))))"

definition h_export :: task where
  "h_export = ExportSession (\<lambda>session. case session of
     None \<Rightarrow> Respond (serviceError ''NOT_FOUND'' ''session binlog not found (not logged in yet?)'' 404)
   | Some b64 \<Rightarrow> Respond (jsonResponse (okBody [(''data'', JObj [(''session_b64'', JStr b64),
       (''note'', JStr ''store as secret; pass via TGW_SESSION on next start'')])]) 200))"

definition h_auth_state :: task where
  "h_auth_state = answerAuthState"

definition h_auth_session :: task where
  "h_auth_session = answerAuthState"

definition h_phone :: "request \<Rightarrow> task" where
  "h_phone req = (case jsonString req ''phone_number'' of
     Inl err \<Rightarrow> Respond (validation err)
   | Inr phone \<Rightarrow> launchAuthMutation (SetAuthenticationPhoneNumber phone))"

definition h_qr :: task where
  "h_qr = launchAuthMutation RequestQrCodeAuthentication"

definition h_resend :: task where
  "h_resend = launchAuthMutation ResendAuthenticationCode"

definition tooManyAttempts :: response where
  "tooManyAttempts = serviceError ''FLOOD_WAIT'' ''too many auth attempts, retry later'' 429"

definition h_code :: "request \<Rightarrow> task" where
  "h_code req = RateAllowed (\<lambda>allowed.
     if \<not> allowed then Respond tooManyAttempts
     else (case jsonString req ''code'' of
             Inl err \<Rightarrow> Respond (validation err)
           | Inr code \<Rightarrow> launchAuthMutation (CheckAuthenticationCode code)))"

definition h_password :: "request \<Rightarrow> task" where
  "h_password req = RateAllowed (\<lambda>allowed.
     if \<not> allowed then Respond tooManyAttempts
     else (case jsonString req ''password'' of
             Inl err \<Rightarrow> Respond (validation err)
           | Inr password \<Rightarrow> launchAuthMutation (CheckAuthenticationPassword password)))"

text \<open>The polls: at most \<open>n\<close> pauses of 100 ms, until a read finds \<^verbatim>\<open>Closed\<close>.\<close>

fun logoutPolls :: "nat \<Rightarrow> task \<Rightarrow> task" where
  "logoutPolls 0 k = k"
| "logoutPolls (Suc n) k = ReadAuth (\<lambda>a. if au_state a = Closed then k else Sleep 100 (logoutPolls n k))"

definition kPolls :: nat where
  "kPolls = 100"

definition logoutEnd :: task where
  "logoutEnd = ReadAuth (\<lambda>a.
     if au_state a \<noteq> Closed
     then Respond (serviceError ''LOGOUT_TIMEOUT'' ''TDLib did not reach Closed within 10s'' 504)
     else Respond (jsonResponse (okBody [(''data'', JObj [(''logged_out'', JBool True)])]) 200))"

definition h_logout :: task where
  "h_logout = ReadAuth (\<lambda>a.
     if au_state a \<noteq> Ready
     then Respond (serviceError ''NOT_READY'' ''logout requires an authorized session'' 409)
     else SetAuth ExpectShutdown (Invoke LogOut (\<lambda>ob. case ob of
            Some (ObjError e) \<Rightarrow> SetAuth CancelExpectShutdown (Respond (telegramError e))
          | _ \<Rightarrow> DisableSync (logoutPolls kPolls logoutEnd))))"

definition h_me :: task where
  "h_me = launchInvoke GetMe (\<lambda>ob. case expect ob of
     Inl e \<Rightarrow> Some (telegramError e)
   | Inr (ObjUser u) \<Rightarrow> Some (jsonResponse (okBody [(''data'', userToJson u)]) 200)
   | Inr _ \<Rightarrow> None)"

end
