(* ===== verification/Endpoints.thy ===== *)
theory Endpoints
  imports MessageRoutes DirectoryRoutes AuthRoutes
begin

text \<open>
  All routes of \<^verbatim>\<open>message_routes.cpp\<close>, \<^verbatim>\<open>directory_routes.cpp\<close> and \<^verbatim>\<open>routes.cpp\<close> together: which handler
  stands behind which path, and what every one of them promises.
\<close>

datatype endpoint =
    EpChats | EpHistory string | EpSend string | EpRead string | EpFile string | EpUpload string
  | EpEdit string string | EpDelete string | EpForward string | EpSearch string | EpSearchAll
  | EpReact string string | EpUnreact string string
  | EpResolve | EpChat string | EpUser string | EpJoin | EpMembers string | EpContacts
  | EpHealth | EpReady | EpExport | EpAuthState | EpAuthSession | EpPhone | EpQr | EpResend | EpCode
  | EpPassword | EpLogout | EpMe

fun handle :: "send_config \<Rightarrow> string \<Rightarrow> endpoint \<Rightarrow> request \<Rightarrow> task" where
  "handle cfg dir EpChats req = h_chats req"
| "handle cfg dir (EpHistory c) req = h_history c req"
| "handle cfg dir (EpSend c) req = h_send cfg c req"
| "handle cfg dir (EpRead c) req = h_read c req"
| "handle cfg dir (EpFile f) req = h_file f req"
| "handle cfg dir (EpUpload c) req = h_upload dir c req"
| "handle cfg dir (EpEdit c m) req = h_edit c m req"
| "handle cfg dir (EpDelete c) req = h_delete c req"
| "handle cfg dir (EpForward c) req = h_forward c req"
| "handle cfg dir (EpSearch c) req = h_search c req"
| "handle cfg dir EpSearchAll req = h_search_all req"
| "handle cfg dir (EpReact c m) req = h_react c m req"
| "handle cfg dir (EpUnreact c m) req = h_unreact c m req"
| "handle cfg dir EpResolve req = h_resolve req"
| "handle cfg dir (EpChat c) req = h_chat c"
| "handle cfg dir (EpUser u) req = h_user u"
| "handle cfg dir EpJoin req = h_join req"
| "handle cfg dir (EpMembers c) req = h_members c req"
| "handle cfg dir EpContacts req = h_contacts"
| "handle cfg dir EpHealth req = h_health"
| "handle cfg dir EpReady req = h_ready"
| "handle cfg dir EpExport req = h_export"
| "handle cfg dir EpAuthState req = h_auth_state"
| "handle cfg dir EpAuthSession req = h_auth_session"
| "handle cfg dir EpPhone req = h_phone req"
| "handle cfg dir EpQr req = h_qr"
| "handle cfg dir EpResend req = h_resend"
| "handle cfg dir EpCode req = h_code req"
| "handle cfg dir EpPassword req = h_password req"
| "handle cfg dir EpLogout req = h_logout"
| "handle cfg dir EpMe req = h_me"

section \<open>No branch crashes\<close>

named_theorems safe_handlers \<open>a handler has no branch that crashes\<close>

lemma respond_cases [simp]:
  "safe (case p of (False, _) \<Rightarrow> Respond r | (True, x) \<Rightarrow> t x) \<longleftrightarrow> (fst p \<longrightarrow> safe (t (snd p)))"
  by (cases p rule: prod.exhaust; cases "fst p") auto

lemma simple_builders [simp]:
  "okBuilder ob \<noteq> None" "okOnlyBuilder ob \<noteq> None" "joinBuilder ob \<noteq> None"
  by (simp_all add: okBuilder_def okOnlyBuilder_def joinBuilder_def split: option.split td_object.split sum.split)

lemma simple_launch_safe [simp]: "(\<And>ob. build ob \<noteq> None) \<Longrightarrow> safe (launchInvoke f build)"
  by (rule launchInvoke_safe) auto

lemma chatCards_safe: "(\<And>arr. safe (k arr)) \<Longrightarrow> safe (chatCards is arr k)"
proof (induction "is" arbitrary: arr)
  case (Cons i "is")
  show ?case
  proof (simp, intro allI impI)
    fix ob assume "answer_ok (GetChat i) ob"
    then show "safe (case expect ob of Inl _ \<Rightarrow> chatCards is arr k
      | Inr (ObjChat c) \<Rightarrow> chatCards is (arr @ [chatToJson c]) k | Inr _ \<Rightarrow> Crash)"
      by (rule expect_answer) (use Cons in \<open>auto simp: returns_def\<close>)
  qed
qed simp

lemma h_chats_safe [safe_handlers]: "safe (h_chats req)"
proof -
  have "safe (case expect ob of
           Inl e \<Rightarrow> Respond (telegramError e)
         | Inr (ObjChats ids) \<Rightarrow>
             chatCards (drop (nat offset) ids) []
               (\<lambda>arr. Respond (jsonResponse (okBody ([(''data'', JArr arr)] @ nextOffset want ids)) 200))
         | Inr _ \<Rightarrow> Crash)" if "answer_ok (GetChats want) ob" for ob offset want
    using that by (rule expect_answer) (auto simp: returns_def intro!: chatCards_safe)
  then show ?thesis by (simp add: h_chats_def Let_def split: option.split)
qed

lemma h_history_safe [safe_handlers]: "safe (h_history c req)"
  by (auto simp: h_history_def returns_def expect_def Let_def intro!: launchInvoke_safe)

lemma typingLoop_safe: "safe k \<Longrightarrow> safe (typingLoop chat remaining k)"
proof (induction chat remaining k rule: typingLoop.induct)
  case (1 chat remaining k)
  then show ?case by (subst typingLoop.simps) simp
qed

lemma key_safe [simp]: "safe (releaseKey key k) = safe k" "safe (storeKey key s d k) = safe k"
  by (simp_all add: releaseKey_def storeKey_def)

lemma answerPending_safe [simp]: "safe (answerPending key m)"
  by (simp add: answerPending_def)

lemma awaitConfirmation_safe [simp]: "safe (awaitConfirmation cfg key m)"
  by (auto simp: awaitConfirmation_def outcome_ok_def split: option.split send_outcome.split)

definition send_config_ok :: "send_config \<Rightarrow> bool" where
  "send_config_ok cfg \<longleftrightarrow> (sc_humanize cfg \<longrightarrow> typing_params_ok (sc_typing cfg))"

lemma humanPause_safe:
  assumes "send_config_ok cfg" "safe k"
  shows "safe (humanPause cfg chat n k)"
proof -
  have "safe (case computeTypingDelay n (sc_typing cfg) q of None \<Rightarrow> Crash | Some r \<Rightarrow> typingLoop chat r k)"
    if "sc_humanize cfg" for q
    using that assms computeTypingDelay_defined [of n "sc_typing cfg" q]
    by (auto simp: send_config_ok_def typing_params_ok_def typingLoop_safe)
  then show ?thesis using assms by (simp add: humanPause_def)
qed

lemma sendCoroutine_safe:
  assumes "send_config_ok cfg"
  shows "safe (sendCoroutine cfg chat reply formatted n key)"
  unfolding sendCoroutine_def
proof (rule humanPause_safe [OF assms], simp, intro allI impI)
  fix ob assume "answer_ok (SendMessage chat reply (Some (InputText formatted))) ob"
  then show "safe (case expect ob of Inl e \<Rightarrow> releaseKey key (Respond (telegramError e))
    | Inr (ObjMessage m) \<Rightarrow> awaitConfirmation cfg key m | Inr _ \<Rightarrow> Crash)"
    by (rule expect_answer) (auto simp: returns_def)
qed

lemma sendClaimed_safe: "send_config_ok cfg \<Longrightarrow> safe (sendClaimed cfg chat ms txt key)"
  unfolding sendClaimed_def
  by (rule makeFormattedText_safe) (simp add: sendCoroutine_safe split: sum.split option.split)

lemma h_send_safe [safe_handlers]: "send_config_ok cfg \<Longrightarrow> safe (h_send cfg c req)"
  by (simp add: h_send_def Let_def sendClaimed_safe split: option.split claim_result.split)

lemma h_read_safe [safe_handlers]: "safe (h_read c req)"
  by (simp add: h_read_def split: option.split json.split)

lemma serveFile_safe: "safe (serveFile req path)"
  by (simp add: serveFile_def Let_def split: option.split)

lemma h_file_safe [safe_handlers]: "safe (h_file f req)"
proof -
  have "safe (case expect ob of
          Inl e \<Rightarrow> Respond (telegramError e)
        | Inr (ObjFile f) \<Rightarrow>
            (case completePath f of
               Some path \<Rightarrow> serveFile req path
             | None \<Rightarrow> Invoke (DownloadFile fid 1 0 0 False)
                 (\<lambda>_. Respond (jsonResponse (okBody [(''data'', fileToJson f)]) 202)))
        | Inr _ \<Rightarrow> Crash)" if "answer_ok (GetFile fid) ob" for ob fid
    using that by (rule expect_answer) (auto simp: returns_def serveFile_safe split: option.split)
  then show ?thesis by (simp add: h_file_def)
qed

lemma h_upload_safe [safe_handlers]: "safe (h_upload dir c req)"
  by (auto simp: h_upload_def uploadTask_def Let_def pendingBuilder_def returns_def expect_def intro!: launchInvoke_safe)

lemma h_edit_safe [safe_handlers]: "safe (h_edit c m req)"
  by (auto simp: h_edit_def messageBuilder_def returns_def expect_def
      intro!: launchInvoke_safe makeFormattedText_safe split: option.split sum.split)

lemma h_delete_safe [safe_handlers]: "safe (h_delete c req)"
  by (simp add: h_delete_def split: option.split json.split)

lemma h_forward_safe [safe_handlers]: "safe (h_forward c req)"
  by (auto simp: h_forward_def forwardBuilder_def returns_def expect_def
      intro!: launchInvoke_safe split: option.split json.split list.split)

lemma h_search_safe [safe_handlers]: "safe (h_search c req)"
  by (auto simp: h_search_def Let_def returns_def expect_def intro!: launchInvoke_safe)

lemma h_search_all_safe [safe_handlers]: "safe (h_search_all req)"
  by (auto simp: h_search_all_def Let_def returns_def expect_def intro!: launchInvoke_safe)

lemma h_react_safe [safe_handlers]: "safe (h_react c m req)" "safe (h_unreact c m req)"
  by (simp_all add: h_react_def h_unreact_def split: option.split)

lemma directory_safe [safe_handlers]:
  "safe (h_resolve req)" "safe (h_chat c)" "safe (h_user u)" "safe (h_join req)" "safe h_contacts"
  by (auto simp: h_resolve_def h_chat_def h_user_def h_join_def h_contacts_def chatBuilder_def userBuilder_def
      contactsBuilder_def Let_def returns_def expect_def intro!: launchInvoke_safe split: option.split list.split)

lemma h_members_safe [safe_handlers]:
  "rq_param req ''limit'' = [] \<or> atoi (rq_param req ''limit'') \<noteq> None \<Longrightarrow> safe (h_members c req)"
  by (auto simp: h_members_def membersBuilder_def Let_def returns_def expect_def
      intro!: launchInvoke_safe split: option.split)

lemma answerAuthState_safe [simp]: "safe answerAuthState"
  by (simp add: answerAuthState_def authStateJson_def Let_def)

lemma launchAuthMutation_safe [simp]: "safe (launchAuthMutation f)"
  by (simp add: launchAuthMutation_def split: option.split td_object.split)

lemma logoutPolls_safe: "safe k \<Longrightarrow> safe (logoutPolls n k)"
  by (induction n) simp_all

lemma auth_safe [safe_handlers]:
  "safe h_health" "safe h_ready" "safe h_export" "safe h_auth_state" "safe h_auth_session" "safe (h_phone req)"
  "safe h_qr" "safe h_resend" "safe (h_code req)" "safe (h_password req)"
  by (simp_all add: h_health_def h_ready_def h_export_def h_auth_state_def h_auth_session_def h_phone_def h_qr_def
      h_resend_def h_code_def h_password_def split: option.split sum.split)

lemma h_logout_safe [safe_handlers]: "safe h_logout"
  by (simp add: h_logout_def logoutEnd_def logoutPolls_safe split: option.split td_object.split)

lemma h_me_safe [safe_handlers]: "safe h_me"
  by (auto simp: h_me_def returns_def expect_def intro!: launchInvoke_safe)

end
