(* ===== verification/SendText.thy ===== *)
theory SendText
  imports Endpoints
begin

text \<open>
  \<^verbatim>\<open>POST /v1/chats/{chatId}/messages\<close> against every environment: what a run does to its idempotency key, how
  often it sends, how long it waits, and, with the cache of \<^verbatim>\<open>idempotency_cache.hpp\<close> behind it, what a repeated
  request gets.
\<close>

section \<open>Kinds of events\<close>

fun is_idem :: "event \<Rightarrow> bool" where
  "is_idem (EvClaim k x) = True"
| "is_idem (EvStore k s d) = True"
| "is_idem (EvRelease k) = True"
| "is_idem _ = False"

fun is_send :: "event \<Rightarrow> bool" where
  "is_send (EvInvoke (SendMessage c r i) ob) = True"
| "is_send _ = False"

text \<open>How long an event may keep the client waiting, apart from TDLib's own answers.\<close>

fun pause_ms :: "event \<Rightarrow> int" where
  "pause_ms (EvSleep n) = n"
| "pause_ms (EvWait i n x) = n"
| "pause_ms _ = 0"

section \<open>The typing loop\<close>

function typingEvents :: "int \<Rightarrow> int \<Rightarrow> event list" where
  "typingEvents chat remaining =
     (if 0 < remaining
      then [EvOneWay (SendChatActionTyping chat), EvSleep (min remaining 4000)]
           @ typingEvents chat (remaining - min remaining 4000)
      else [])"
  by pat_completeness auto
termination
  by (relation "measure (\<lambda>(chat, remaining). nat remaining)") auto

declare typingEvents.simps [simp del]

lemma serve_typingLoop:
  "serve e (typingLoop chat remaining k) h =
     (typingEvents chat remaining @ fst (serve e k (h @ typingEvents chat remaining)),
      snd (serve e k (h @ typingEvents chat remaining)))"
proof (induction chat remaining k arbitrary: h rule: typingLoop.induct)
  case (1 chat remaining k)
  show ?case
  proof (cases "0 < remaining")
    case True
    then show ?thesis
      using "1.IH" by (subst typingLoop.simps, subst (1 2 3) typingEvents.simps) simp
  next
    case False
    then show ?thesis by (simp add: typingLoop.simps typingEvents.simps)
  qed
qed

lemma typingEvents_facts:
  "list_all (\<lambda>x. \<not> is_idem x \<and> \<not> is_send x) (typingEvents chat remaining)
   \<and> sum_list (map pause_ms (typingEvents chat remaining)) = max 0 remaining
   \<and> list_all (\<lambda>x. pause_ms x \<le> 4000) (typingEvents chat remaining)"
proof (induction chat remaining rule: typingEvents.induct)
  case (1 chat remaining)
  then show ?case by (subst (1 2 3) typingEvents.simps) auto
qed

section \<open>How a run ends\<close>

text \<open>A success is stored under the key with exactly the response, a failure releases the key.\<close>

definition settled :: "string \<Rightarrow> response \<Rightarrow> event list \<Rightarrow> bool" where
  "settled key r fin \<longleftrightarrow>
     (\<exists>doc status. status \<in> {200, 202} \<and> r = jsonResponse doc status
        \<and> fin = (if key = [] then [] else [EvStore key status doc]))
     \<or> (rs_status r \<in> {400, 404, 429, 502} \<and> fin = (if key = [] then [] else [EvRelease key]))"

lemma telegramError_status: "rs_status (telegramError e) \<in> {400, 404, 429, 502}"
  by (auto simp: telegramError_def httpStatusForTdError_def jsonResponse_def Let_def split: option.split)

lemma settled_release: "rs_status r \<in> {400, 404, 429, 502} \<Longrightarrow>
   \<exists>fin. serve e (releaseKey key (Respond r)) h = (fin, Some r) \<and> settled key r fin"
  by (auto simp: releaseKey_def settled_def)

lemma settled_store: "status \<in> {200, 202} \<Longrightarrow>
   \<exists>fin. serve e (storeKey key status doc (Respond (jsonResponse doc status))) h
      = (fin, Some (jsonResponse doc status)) \<and> settled key (jsonResponse doc status) fin"
  by (auto simp: storeKey_def settled_def)

lemma settled_idem: "settled key r fin \<Longrightarrow> list_all (\<lambda>x. is_idem x \<and> \<not> is_send x \<and> pause_ms x = 0) fin"
  by (auto simp: settled_def)

lemma serve_awaitConfirmation:
  assumes "serve e (awaitConfirmation cfg key m) h = (es, Some r)"
  shows "\<exists>w fin. es = w @ fin \<and> settled key r fin
    \<and> w \<in> {[]} \<union> (if sc_humanize cfg then {[EvWait (m_id m) (sc_id_wait_ms cfg) x] | x. 0 < sc_id_wait_ms cfg} else {})"
proof -
  have pend: "\<exists>fin. serve e (answerPending key m) h' = (fin, Some (jsonResponse (pendingDoc m) 202))
      \<and> settled key (jsonResponse (pendingDoc m) 202) fin" for h'
    unfolding answerPending_def by (rule settled_store) simp
  show ?thesis
  proof (cases "sc_humanize cfg \<and> 0 < sc_id_wait_ms cfg")
    case False
    then show ?thesis using assms pend [of h] by (auto simp: awaitConfirmation_def)
  next
    case True
    let ?x = "e_wait e h (m_id m) (sc_id_wait_ms cfg)"
    let ?ev = "EvWait (m_id m) (sc_id_wait_ms cfg) ?x"
    have "\<exists>fin. es = ?ev # fin \<and> settled key r fin"
    proof (cases ?x)
      case None
      then show ?thesis using assms True pend [of "h @ [?ev]"] by (auto simp: awaitConfirmation_def)
    next
      case (Some out)
      show ?thesis
      proof (cases out)
        case (SendSucceeded doc)
        then obtain data where "jset ''sending_state'' (JStr ''sent'') doc = Some data"
          using assms True Some by (cases "jset ''sending_state'' (JStr ''sent'') doc") (auto simp: awaitConfirmation_def)
        then show ?thesis
          using assms True Some SendSucceeded
            settled_store [of 200 e key "okBody [(''data'', data)]" "h @ [?ev]"]
          by (auto simp: awaitConfirmation_def)
      next
        case (SendFailed code msg)
        then show ?thesis
          using assms True Some
            settled_release [OF telegramError_status, of e key "TdError code msg" "h @ [?ev]"]
          by (auto simp: awaitConfirmation_def)
      qed
    qed
    then obtain fin where "es = [?ev] @ fin \<and> settled key r fin" by auto
    then show ?thesis using True by (intro exI [of _ "[?ev]"] exI [of _ fin]) auto
  qed
qed

lemma serve_humanPause:
  assumes "serve e (humanPause cfg chat n k) h = (es, Some r)"
  shows "\<exists>pre es'. es = pre @ es' \<and> serve e k (h @ pre) = (es', Some r)
    \<and> list_all (\<lambda>x. \<not> is_idem x \<and> \<not> is_send x) pre \<and> list_all (\<lambda>x. pause_ms x \<le> 4000) pre
    \<and> (if sc_humanize cfg then sum_list (map pause_ms pre) \<le> max 0 (tp_max_delay_ms (sc_typing cfg)) else pre = [])"
proof (cases "sc_humanize cfg")
  case False
  then show ?thesis using assms by (auto simp: humanPause_def)
next
  case True
  let ?j = "EvJitter (e_jitter e h)"
  obtain d where d: "computeTypingDelay n (sc_typing cfg) (e_jitter e h) = Some d"
    using assms True by (cases "computeTypingDelay n (sc_typing cfg) (e_jitter e h)") (auto simp: humanPause_def)
  let ?pre = "?j # typingEvents chat d"
  have "es = ?pre @ fst (serve e k (h @ ?pre))" "snd (serve e k (h @ ?pre)) = Some r"
    using assms True d by (auto simp: humanPause_def serve_typingLoop)
  then have "es = ?pre @ fst (serve e k (h @ ?pre)) \<and> serve e k (h @ ?pre) = (fst (serve e k (h @ ?pre)), Some r)"
    by (simp add: prod_eq_iff)
  moreover have "max 0 d \<le> max 0 (tp_max_delay_ms (sc_typing cfg))"
    using computeTypingDelay_bounds [OF d] by auto
  ultimately show ?thesis
    using True typingEvents_facts [of chat d] by (intro exI [of _ ?pre] exI) auto
qed

text \<open>A run of the coroutine: pauses, one \<^verbatim>\<open>sendMessage\<close>, perhaps one wait, and the key is settled.\<close>

lemma serve_sendCoroutine:
  assumes "serve e (sendCoroutine cfg chat reply formatted n key) h = (es, Some r)"
  shows "\<exists>pre ob w fin. es = pre @ EvInvoke (SendMessage chat reply (Some (InputText formatted))) ob # w @ fin
    \<and> list_all (\<lambda>x. \<not> is_idem x \<and> \<not> is_send x) pre \<and> settled key r fin
    \<and> list_all (\<lambda>x. \<not> is_idem x \<and> \<not> is_send x) w
    \<and> list_all (\<lambda>x. pause_ms x \<le> 4000) pre
    \<and> (if sc_humanize cfg
       then sum_list (map pause_ms pre) \<le> max 0 (tp_max_delay_ms (sc_typing cfg))
            \<and> sum_list (map pause_ms w) \<le> max 0 (sc_id_wait_ms cfg)
       else pre = [] \<and> w = [])"
proof -
  let ?f = "SendMessage chat reply (Some (InputText formatted))"
  from serve_humanPause [OF assms [unfolded sendCoroutine_def]] obtain pre es' where
    pre: "es = pre @ es'" "list_all (\<lambda>x. \<not> is_idem x \<and> \<not> is_send x) pre" "list_all (\<lambda>x. pause_ms x \<le> 4000) pre"
      "if sc_humanize cfg then sum_list (map pause_ms pre) \<le> max 0 (tp_max_delay_ms (sc_typing cfg)) else pre = []"
    and rest: "serve e (Invoke ?f (\<lambda>ob. case expect ob of
          Inl e \<Rightarrow> releaseKey key (Respond (telegramError e))
        | Inr (ObjMessage m) \<Rightarrow> awaitConfirmation cfg key m
        | Inr _ \<Rightarrow> Crash)) (h @ pre) = (es', Some r)"
    by blast
  let ?ob = "e_invoke e (h @ pre) ?f"
  let ?h = "(h @ pre) @ [EvInvoke ?f ?ob]"
  have "\<exists>w fin. es' = EvInvoke ?f ?ob # w @ fin \<and> settled key r fin
      \<and> w \<in> {[]} \<union> (if sc_humanize cfg then {[EvWait i (sc_id_wait_ms cfg) x] | i x. 0 < sc_id_wait_ms cfg} else {})"
  proof (cases "expect ?ob")
    case (Inl er)
    from settled_release [OF telegramError_status, of e key er ?h] obtain fin where
      "serve e (releaseKey key (Respond (telegramError er))) ?h = (fin, Some (telegramError er))"
      "settled key (telegramError er) fin" by blast
    with Inl rest show ?thesis by (intro exI [of _ "[]"] exI [of _ fin]) auto
  next
    case (Inr v)
    then obtain m es'' where m: "v = ObjMessage m" "es' = EvInvoke ?f ?ob # es''"
      "serve e (awaitConfirmation cfg key m) ?h = (es'', Some r)"
      using rest by (cases v) auto
    from serve_awaitConfirmation [OF m(3)] obtain w fin where "es'' = w @ fin" "settled key r fin"
      "w \<in> {[]} \<union> (if sc_humanize cfg then {[EvWait (m_id m) (sc_id_wait_ms cfg) x] | x. 0 < sc_id_wait_ms cfg} else {})"
      by blast
    with m(2) show ?thesis by (intro exI [of _ w] exI [of _ fin]) (auto split: if_splits)
  qed
  then obtain w fin where wf: "es' = EvInvoke ?f ?ob # w @ fin" "settled key r fin"
    "w \<in> {[]} \<union> (if sc_humanize cfg then {[EvWait i (sc_id_wait_ms cfg) x] | i x. 0 < sc_id_wait_ms cfg} else {})"
    by blast
  have "list_all (\<lambda>x. \<not> is_idem x \<and> \<not> is_send x) w
      \<and> (if sc_humanize cfg then sum_list (map pause_ms w) \<le> max 0 (sc_id_wait_ms cfg) else w = [])"
    using wf(3) by (auto split: if_splits)
  with pre wf(1,2) show ?thesis
    by (intro exI [of _ pre] exI [of _ ?ob] exI [of _ w] exI [of _ fin]) (cases "sc_humanize cfg"; simp)
qed

section \<open>Whole runs\<close>

text \<open>Nothing about the key but its settling at the end, at most one message sent, exactly one for a success, and
  the pauses within the configured ones.\<close>

definition sends :: "event list \<Rightarrow> nat" where
  "sends es = length (filter is_send es)"

definition waited :: "event list \<Rightarrow> int" where
  "waited es = sum_list (map pause_ms es)"

definition pause_budget :: "send_config \<Rightarrow> int" where
  "pause_budget cfg =
     (if sc_humanize cfg then max 0 (tp_max_delay_ms (sc_typing cfg)) + max 0 (sc_id_wait_ms cfg) else 0)"

definition claimed_run :: "send_config \<Rightarrow> string \<Rightarrow> event list \<Rightarrow> response \<Rightarrow> bool" where
  "claimed_run cfg key es r \<longleftrightarrow> (\<exists>fin. filter is_idem es = fin \<and> settled key r fin)
     \<and> sends es \<le> 1 \<and> (rs_status r \<in> {200, 202} \<longrightarrow> sends es = 1) \<and> waited es \<le> pause_budget cfg"

lemma counts_simps [simp]:
  "sends (xs @ ys) = sends xs + sends ys" "waited (xs @ ys) = waited xs + waited ys"
  "sends (x # xs) = (if is_send x then 1 else 0) + sends xs" "waited (x # xs) = pause_ms x + waited xs"
  "sends [] = 0" "waited [] = 0"
  by (simp_all add: sends_def waited_def)

lemma no_idem: "list_all (\<lambda>x. \<not> is_idem x \<and> \<not> is_send x) xs \<Longrightarrow> filter is_idem xs = [] \<and> sends xs = 0"
  by (induction xs) auto

lemma settled_counts:
  "settled key r fin \<Longrightarrow> filter is_idem fin = fin \<and> sends fin = 0 \<and> waited fin = 0"
  by (auto simp: settled_def)

lemma claimed_run_coroutine:
  assumes "serve e (sendCoroutine cfg chat reply formatted n key) h = (es, Some r)"
  shows "claimed_run cfg key es r"
proof -
  from serve_sendCoroutine [OF assms] obtain pre ob w fin where
    es: "es = pre @ EvInvoke (SendMessage chat reply (Some (InputText formatted))) ob # w @ fin"
    and pre: "list_all (\<lambda>x. \<not> is_idem x \<and> \<not> is_send x) pre" and fin: "settled key r fin"
    and w: "list_all (\<lambda>x. \<not> is_idem x \<and> \<not> is_send x) w"
    and t: "if sc_humanize cfg
       then waited pre \<le> max 0 (tp_max_delay_ms (sc_typing cfg)) \<and> waited w \<le> max 0 (sc_id_wait_ms cfg)
       else pre = [] \<and> w = []"
    unfolding waited_def by blast
  have "waited es \<le> pause_budget cfg"
    using t settled_counts [OF fin] unfolding es by (cases "sc_humanize cfg") (simp_all add: pause_budget_def)
  then show ?thesis
    unfolding claimed_run_def es
    using no_idem [OF pre] no_idem [OF w] settled_counts [OF fin] fin by simp
qed

lemma claimed_run_fail:
  assumes "serve e (releaseKey key (Respond r)) h = (es, Some r')" "rs_status r = 400"
  shows "r' = r \<and> claimed_run cfg key es r"
proof -
  from settled_release [of r e key h] assms(2) obtain fin where
    f: "serve e (releaseKey key (Respond r)) h = (fin, Some r)" "settled key r fin" by auto
  then show ?thesis
    using assms settled_counts [OF f(2)] by (auto simp: claimed_run_def pause_budget_def)
qed

lemma claimed_run_Cons:
  "\<not> is_idem x \<Longrightarrow> \<not> is_send x \<Longrightarrow> pause_ms x = 0 \<Longrightarrow> claimed_run cfg key (x # es) r = claimed_run cfg key es r"
  by (simp add: claimed_run_def)

lemma validation_status [simp]: "rs_status (validation m) = 400"
  by (simp add: validation_def serviceError_def jsonResponse_def)

lemma serve_makeFormattedText:
  assumes "serve e (makeFormattedText txt mode k) h = (es, Some r)"
  shows "\<exists>x h' es'. serve e (k x) h' = (es', Some r) \<and> (es = es' \<or> (\<exists>t m y. es = EvParse t m y # es'))"
  using assms by (fastforce simp: makeFormattedText_def split: if_splits option.splits sum.splits)

lemma claimed_run_claimed:
  assumes "serve e (sendClaimed cfg chat ms txt key) h = (es, Some r)"
  shows "claimed_run cfg key es r"
proof -
  from serve_makeFormattedText [OF assms [unfolded sendClaimed_def]] obtain x h' es' where
    x: "serve e (case x of Inl err \<Rightarrow> releaseKey key (Respond (validation err))
         | Inr formatted \<Rightarrow> (case replyField ms of
             None \<Rightarrow> releaseKey key (Respond (validation ''invalid reply_to_message_id''))
           | Some reply \<Rightarrow> sendCoroutine cfg chat reply formatted (utf8CodepointCount txt) key)) h' = (es', Some r)"
    and es: "es = es' \<or> (\<exists>t m y. es = EvParse t m y # es')" by blast
  have "claimed_run cfg key es' r"
  proof (cases x)
    case (Inl err)
    then show ?thesis using x claimed_run_fail [of e key "validation err" h' es' r cfg] by auto
  next
    case (Inr formatted)
    show ?thesis
    proof (cases "replyField ms")
      case None
      then show ?thesis
        using x Inr claimed_run_fail [of e key "validation ''invalid reply_to_message_id''" h' es' r cfg] by auto
    next
      case (Some reply)
      then show ?thesis using x Inr claimed_run_coroutine [of e cfg chat reply formatted] by simp
    qed
  qed
  then show ?thesis using es claimed_run_Cons by auto
qed

lemma h_send_key:
  assumes "parseId chat_str 0 = (True, chat)" "bodyObject req = Some ms" "textField req ''text'' = Some tx"
  shows "h_send cfg chat_str req =
    (if rq_header req ''Idempotency-Key'' = [] then sendClaimed cfg chat ms tx []
     else IdemClaim (rq_header req ''Idempotency-Key'') (\<lambda>state. case state of
        ClaimInFlight \<Rightarrow> Respond (serviceError ''IDEMPOTENCY_KEY_REUSED''
          ''request with this Idempotency-Key is in flight'' 409)
      | ClaimDone status body \<Rightarrow> Respond (replayed status body)
      | ClaimFree \<Rightarrow> sendClaimed cfg chat ms tx (rq_header req ''Idempotency-Key'')))"
  using assms by (simp add: h_send_def Let_def)

lemma h_send_bad:
  assumes "\<not> (fst (parseId chat_str 0) \<and> textField req ''text'' \<noteq> None)"
  shows "\<exists>m. h_send cfg chat_str req = Respond (validation m)"
proof -
  obtain good chat where p: "parseId chat_str 0 = (good, chat)" by fastforce
  show ?thesis
  proof (cases good)
    case False
    then show ?thesis by (simp add: h_send_def p) blast
  next
    case True
    then have "textField req ''text'' = None" using assms p by simp
    then show ?thesis using True by (cases "bodyObject req") (simp_all add: h_send_def p, blast+)
  qed
qed

text \<open>A run of the handler: refused before the key matters, stopped by the key, or a claimed run.\<close>

inductive send_run :: "send_config \<Rightarrow> string \<Rightarrow> event list \<Rightarrow> response \<Rightarrow> bool" for cfg key where
  bad: "rs_status r = 400 \<Longrightarrow> send_run cfg key [] r"
| plain: "key = [] \<Longrightarrow> claimed_run cfg key es r \<Longrightarrow> send_run cfg key es r"
| free: "key \<noteq> [] \<Longrightarrow> claimed_run cfg key es r \<Longrightarrow> send_run cfg key (EvClaim key ClaimFree # es) r"
| in_flight: "rs_status r = 409 \<Longrightarrow> send_run cfg key [EvClaim key ClaimInFlight] r"
| replay: "send_run cfg key [EvClaim key (ClaimDone st b)] (replayed st b)"

lemma h_send_run:
  assumes "serve e (h_send cfg chat_str req) h = (es, Some r)"
  shows "send_run cfg (rq_header req ''Idempotency-Key'') es r"
proof (cases "fst (parseId chat_str 0) \<and> textField req ''text'' \<noteq> None")
  case False
  then obtain m where "h_send cfg chat_str req = Respond (validation m)" using h_send_bad by blast
  with assms have "es = []" "r = validation m" by auto
  then show ?thesis by (simp add: send_run.bad)
next
  case True
  then obtain tx where tx: "textField req ''text'' = Some tx" by auto
  then obtain ms where ms: "bodyObject req = Some ms" by (cases "bodyObject req") (simp_all add: textField_def)
  obtain chat where p: "parseId chat_str 0 = (True, chat)" using True by (cases "parseId chat_str 0") simp
  let ?key = "rq_header req ''Idempotency-Key''"
  note run = assms [unfolded h_send_key [OF p ms tx]]
  show ?thesis
  proof (cases "?key = []")
    case True
    with run have "claimed_run cfg ?key es r" by (simp add: claimed_run_claimed)
    with True show ?thesis by (rule send_run.plain)
  next
    case key: False
    show ?thesis
    proof (cases "e_claim e h ?key")
      case ClaimFree
      with run key obtain es' where es: "es = EvClaim ?key ClaimFree # es'"
        and "serve e (sendClaimed cfg chat ms tx ?key) (h @ [EvClaim ?key ClaimFree]) = (es', Some r)" by auto
      then have "claimed_run cfg ?key es' r" by (simp add: claimed_run_claimed)
      with key show ?thesis unfolding es by (rule send_run.free)
    next
      case ClaimInFlight
      with run key have "es = [EvClaim ?key ClaimInFlight]" "rs_status r = 409"
        by (auto simp: serviceError_def jsonResponse_def)
      then show ?thesis by (simp add: send_run.in_flight)
    next
      case (ClaimDone st b)
      with run key have "es = [EvClaim ?key (ClaimDone st b)]" "r = replayed st b" by auto
      then show ?thesis by (simp add: send_run.replay)
    qed
  qed
qed

text \<open>C5: Sending with an \<^verbatim>\<open>Idempotency-Key\<close>, whatever TDLib, the tracker and other requests do: the key is claimed
  once; a request that finds it taken sends nothing and answers 409 or the stored response; the request that
  got it settles it exactly once, as the last thing before its answer: a success (200 or 202) is stored with
  exactly the status and document that are answered, every failure releases the key. At most one message is
  sent, and a success means that one was.\<close>

theorem send_settles_key:
  assumes "serve e (h_send cfg chat_str req) [] = (es, Some r)" "rq_header req ''Idempotency-Key'' = key" "key \<noteq> []"
  shows "(es = [] \<and> rs_status r = 400)
    \<or> (es = [EvClaim key ClaimInFlight] \<and> rs_status r = 409)
    \<or> (\<exists>s b. es = [EvClaim key (ClaimDone s b)] \<and> r = replayed s b)
    \<or> (\<exists>fin. filter is_idem es = EvClaim key ClaimFree # fin \<and> settled key r fin
         \<and> sends es \<le> 1 \<and> (sends es = 1 \<or> rs_status r \<notin> {200, 202}))"
  using h_send_run [OF assms(1)] unfolding assms(2)
proof cases
  case (free es')
  then show ?thesis by (auto simp: claimed_run_def)
qed (use assms(3) in auto)

text \<open>How long the gateway itself keeps a sender waiting (the typing pause and the wait for the confirmation)
  is within the configured bounds, and nothing without the human pace.\<close>

theorem send_waits_bounded:
  assumes "serve e (h_send cfg chat_str req) [] = (es, Some r)"
  shows "waited es \<le> pause_budget cfg"
  using h_send_run [OF assms]
  by cases (auto simp: claimed_run_def pause_budget_def)

section \<open>With the cache behind it\<close>

lemma settled_stored:
  "settled key r fin \<Longrightarrow> key \<noteq> [] \<Longrightarrow> EvStore key s d \<in> set fin \<Longrightarrow> r = jsonResponse d s"
  by (auto simp: settled_def split: if_splits)

lemma store_of_run:
  assumes "serve e (h_send cfg chat_str req) [] = (es, Some r)" "rq_header req ''Idempotency-Key'' = key" "key \<noteq> []"
    and "EvStore key s d \<in> set es"
  shows "r = jsonResponse d s"
proof -
  have i: "EvStore key s d \<in> set (filter is_idem es)" using assms(4) by simp
  from h_send_run [OF assms(1)] show ?thesis unfolding assms(2)
  proof cases
    case (free es')
    with i obtain fin where "settled key r fin" "EvStore key s d \<in> set fin" by (auto simp: claimed_run_def)
    then show ?thesis using settled_stored assms(3) by blast
  qed (use assms(3,4) in auto)
qed

text \<open>A request that is good as far as the key: the chat's id, an object, a text.\<close>

definition sendable :: "string \<Rightarrow> request \<Rightarrow> bool" where
  "sendable chat_str req \<longleftrightarrow> fst (parseId chat_str 0) \<and> textField req ''text'' \<noteq> None"

lemma sendable_run:
  assumes "sendable chat_str req" "rq_header req ''Idempotency-Key'' = key" "key \<noteq> []"
  shows "e_claim e [] key = ClaimInFlight \<Longrightarrow> serve e (h_send cfg chat_str req) [] =
      ([EvClaim key ClaimInFlight], Some (serviceError ''IDEMPOTENCY_KEY_REUSED''
         ''request with this Idempotency-Key is in flight'' 409))"
    and "e_claim e [] key = ClaimDone s b \<Longrightarrow> serve e (h_send cfg chat_str req) [] =
      ([EvClaim key (ClaimDone s b)], Some (replayed s b))"
proof -
  obtain chat where c: "parseId chat_str 0 = (True, chat)"
    using assms(1) by (cases "parseId chat_str 0") (auto simp: sendable_def)
  obtain ms tx where m: "bodyObject req = Some ms" "textField req ''text'' = Some tx"
    using assms(1) by (cases "bodyObject req") (auto simp: sendable_def textField_def)
  show "e_claim e [] key = ClaimInFlight \<Longrightarrow> serve e (h_send cfg chat_str req) [] =
      ([EvClaim key ClaimInFlight], Some (serviceError ''IDEMPOTENCY_KEY_REUSED''
         ''request with this Idempotency-Key is in flight'' 409))"
    and "e_claim e [] key = ClaimDone s b \<Longrightarrow> serve e (h_send cfg chat_str req) [] =
      ([EvClaim key (ClaimDone s b)], Some (replayed s b))"
    using assms(2,3) unfolding h_send_key [OF c m] by (simp_all add: after_event_def)
qed

text \<open>C11: A repetition of a request under its key, with the cache's own answers to the claims, the key new to the cache,
  fewer claims of any keys after the first one than the cache holds, and nobody else storing or releasing this key: while the
  first request runs the repetition gets 409, and after its success it gets the same status and the same text of
  the body again, with the mark of a replay; in neither case does it call TDLib. Under more claims than the cache
  holds the key may be evicted, even while its request runs, and then a repetition is sent a second time.\<close>

theorem repeated_send_replayed:
  assumes cache: "cache_ok c" "entries c key = None" "\<forall>x \<in> set (during @ after). \<not> owner_op key x"
      "length (filter is_claim (during @ after)) < max_entries c"
    and first: "serve e (h_send cfg chat_str req) [] = (es, Some r)"
      "rq_header req ''Idempotency-Key'' = key" "key \<noteq> []" "EvStore key s doc \<in> set es"
    and again: "sendable chat_str' req'" "rq_header req' ''Idempotency-Key'' = key"
    and meanwhile: "e_claim em [] key = fst (claim key (run_ops during (snd (claim key c))))"
    and afterwards: "e_claim ea [] key =
      fst (claim key (run_ops after (store key s (writer doc) (run_ops during (snd (claim key c))))))"
  shows "serve em (h_send cfg chat_str' req') [] = ([EvClaim key ClaimInFlight],
           Some (serviceError ''IDEMPOTENCY_KEY_REUSED'' ''request with this Idempotency-Key is in flight'' 409))
    \<and> serve ea (h_send cfg chat_str' req') [] =
        ([EvClaim key (ClaimDone (rs_status r) (writer doc))], Some \<lparr>rs_status = rs_status r, rs_headers = [(''Idempotency-Replayed'', ''true'')],
          rs_body = RawJson (writer doc)\<rparr>)
    \<and> rs_body r = JsonBody doc"
proof -
  have r: "r = jsonResponse doc s" using first by (rule store_of_run)
  note replays = claim_replays [OF cache, of s "writer doc"]
  have "e_claim em [] key = ClaimInFlight" "e_claim ea [] key = ClaimDone s (writer doc)"
    unfolding meanwhile afterwards using replays by blast+
  then show ?thesis
    using sendable_run [OF again first(3)] by (simp add: r jsonResponse_def replayed_def)
qed

section \<open>Instances\<close>

definition sample_env :: "td_object option \<Rightarrow> claim_result \<Rightarrow> env" where
  "sample_env ob x = \<lparr>e_invoke = (\<lambda>h f. ob), e_parse = (\<lambda>h s m. None), e_jitter = (\<lambda>h. 1 / 2),
     e_claim = (\<lambda>h k. x), e_wait = (\<lambda>h i n. None), e_auth = (\<lambda>h. auth_init), e_rate = (\<lambda>h. True),
     e_export = (\<lambda>h. None), e_size = (\<lambda>h p. None), e_seq = (\<lambda>h. 1), e_mkdir = (\<lambda>h p. True),
     e_write = (\<lambda>h p. True), e_close = (\<lambda>h p. True)\<rparr>"

definition sample_msg :: message where
  "sample_msg = \<lparr>m_id = 7, m_chat_id = 5, m_sender = None, m_date = 0, m_is_outgoing = True, m_is_channel_post = False,
      m_contains_unread_mention = False, m_content = None, m_interaction = None, m_reply_to = None\<rparr>"

definition sample_request :: "string \<Rightarrow> request" where
  "sample_request key = \<lparr>rq_method = Post, rq_path = ''/v1/chats/5/messages'',
     rq_header = (\<lambda>n. if n = ''Idempotency-Key'' then key else []), rq_param = (\<lambda>_. []),
     rq_json = Some (JObj [(''text'', JStr ''hi'')])\<rparr>"

definition sample_config :: send_config where
  "sample_config = \<lparr>sc_humanize = False, sc_typing = \<lparr>tp_chars_per_minute = 200, tp_jitter_percent = 20,
     tp_min_delay_ms = 1000, tp_max_delay_ms = 10000\<rparr>, sc_id_wait_ms = 4000\<rparr>"

lemma sample_send:
  "serve (sample_env (Some (ObjMessage sample_msg)) ClaimFree) (h_send sample_config ''5'' (sample_request ''k'')) [] =
     ([EvClaim ''k'' ClaimFree,
       EvInvoke (SendMessage 5 None (Some (InputText \<lparr>ft_text = ''hi'', ft_entities = []\<rparr>))) (Some (ObjMessage sample_msg)),
       EvStore ''k'' 202 (pendingDoc sample_msg)], Some (jsonResponse (pendingDoc sample_msg) 202))"
proof -
  have p: "parseId ''5'' 0 = (True, 5)" by code_simp
  show ?thesis
    by (simp add: h_send_def p sample_request_def bodyObject_def textField_def Let_def sample_env_def after_event_def
        sendClaimed_def makeFormattedText_def parseModeField_def replyField_def sendCoroutine_def humanPause_def
        sample_config_def expect_def awaitConfirmation_def answerPending_def storeKey_def)
qed

theorem send_settles_key_witness:
  "settled ''k'' (jsonResponse (pendingDoc sample_msg) 202) [EvStore ''k'' 202 (pendingDoc sample_msg)]"
  using send_settles_key [OF sample_send, of "''k''"] by (simp add: sample_request_def)

theorem send_waits_bounded_witness:
  "waited [EvClaim ''k'' ClaimFree,
       EvInvoke (SendMessage 5 None (Some (InputText \<lparr>ft_text = ''hi'', ft_entities = []\<rparr>))) (Some (ObjMessage sample_msg)),
       EvStore ''k'' 202 (pendingDoc sample_msg)] \<le> pause_budget sample_config"
  using send_waits_bounded [OF sample_send] .

theorem repeated_send_replayed_witness:
  "serve (sample_env None (ClaimDone 202 ''doc'')) (h_send sample_config ''5'' (sample_request ''k'')) [] =
     ([EvClaim ''k'' (ClaimDone 202 ''doc'')], Some (replayed 202 ''doc''))"
proof -
  let ?c = "emptyCache 4"
  let ?em = "sample_env None (fst (claim ''k'' (run_ops [] (snd (claim ''k'' ?c)))))"
  have k: "rq_header (sample_request ''k'') ''Idempotency-Key'' = ''k''" by (simp add: sample_request_def)
  have ok: "sendable ''5'' (sample_request ''k'')"
  proof -
    have "fst (parseId ''5'' 0)" by code_simp
    then show ?thesis by (simp add: sendable_def textField_def bodyObject_def sample_request_def)
  qed
  have "fst (claim ''k'' (run_ops [] (store ''k'' 202 ''doc'' (run_ops [] (snd (claim ''k'' ?c)))))) = ClaimDone 202 ''doc''"
    by (simp add: claim_def store_def emptyCache_def Let_def evictIfNeeded_def)
  then have a: "e_claim (sample_env None (ClaimDone 202 ''doc'')) [] ''k'' =
      fst (claim ''k'' (run_ops [] (store ''k'' 202 ((\<lambda>_. ''doc'') (pendingDoc sample_msg)) (run_ops [] (snd (claim ''k'' ?c))))))"
    by (simp add: sample_env_def)
  have "serve (sample_env None (ClaimDone 202 ''doc'')) (h_send sample_config ''5'' (sample_request ''k'')) [] =
     ([EvClaim ''k'' (ClaimDone (rs_status (jsonResponse (pendingDoc sample_msg) 202)) ''doc'')],
      Some \<lparr>rs_status = rs_status (jsonResponse (pendingDoc sample_msg) 202), rs_headers = [(''Idempotency-Replayed'', ''true'')],
          rs_body = RawJson ''doc''\<rparr>)"
    using repeated_send_replayed [where em = ?em and ea = "sample_env None (ClaimDone 202 ''doc'')"
        and writer = "\<lambda>_. ''doc''" and during = "[]" and after = "[]" and c = ?c,
        OF emptyCache_ok _ _ _ sample_send k _ _ ok k _ a]
    by (simp add: emptyCache_def sample_env_def)
  then show ?thesis by (simp add: jsonResponse_def replayed_def)
qed

end
