(* ===== verification/Startup.thy ===== *)
theory Startup
  imports Config SendText
begin

text \<open>
  Where the configuration meets the components. \<open>sendConfig\<close> is the part of it the send route is given
  (\<^verbatim>\<open>src/src/http/message_routes.cpp\<close>), and \<open>bootstrap\<close> is \<^verbatim>\<open>src/src/auth/startup_bootstrapper.cpp\<close>: the
  requests sent to TDLib before HTTP is served, and the two waits for a change of the authorization state.
\<close>

section \<open>The settings of the send route\<close>

definition sendConfig :: "config \<Rightarrow> send_config" where
  "sendConfig c = \<lparr>sc_humanize = cf_humanize_typing c,
     sc_typing = \<lparr>tp_chars_per_minute = cf_humanize_chars_per_minute c,
        tp_jitter_percent = cf_humanize_jitter_percent c, tp_min_delay_ms = cf_humanize_min_delay_ms c,
        tp_max_delay_ms = cf_humanize_max_delay_ms c\<rparr>,
     sc_id_wait_ms = cf_humanize_id_wait_ms c\<rparr>"

lemma pause_budget_config:
  assumes "pause_fits c" "0 \<le> cf_humanize_max_delay_ms c" "0 \<le> cf_humanize_id_wait_ms c"
  shows "pause_budget (sendConfig c) + 2000 \<le> cf_idle_connection_timeout_seconds c * 1000 \<or> \<not> cf_humanize_typing c"
  using assms by (auto simp: pause_fits_def pause_budget_def sendConfig_def)

text \<open>C32: The pauses the gateway itself adds to a send, the sleeps of the human pace and the wait for the confirmation, sum up
  to at most two seconds less than the connection's idle timeout, whatever the text, the jitter, TDLib's answers and the
  confirmation are: in every configuration that is accepted, with the human pace on and neither the longest
  pause nor the wait negative. The check at the start does not see to the last condition (a negative bound
  is accepted and makes room for the other), and the time TDLib takes to answer the calls is not counted here.\<close>

theorem pause_within_idle_timeout:
  assumes "load_config w = Inr c" "cf_humanize_typing c"
    and "0 \<le> cf_humanize_max_delay_ms c" "0 \<le> cf_humanize_id_wait_ms c"
    and "serve e (h_send (sendConfig c) chat_str req) [] = (es, Some r)"
  shows "waited es + 2000 \<le> cf_idle_connection_timeout_seconds c * 1000"
  using h_send_run [OF assms(5)] pause_budget_config [OF pause_checked [OF assms(1)] assms(3,4)] assms(2)
  by cases (auto simp: claimed_run_def pause_budget_def sendConfig_def)

section \<open>Bringing up the session\<close>

record tdlib_parameters =
  tp_use_test_dc :: bool
  tp_database_directory :: string
  tp_files_directory :: string
  tp_database_encryption_key :: string
  tp_use_file_database :: bool
  tp_use_chat_info_database :: bool
  tp_use_message_database :: bool
  tp_use_secret_chats :: bool
  tp_api_id :: int
  tp_api_hash :: string
  tp_system_language_code :: string
  tp_device_model :: string
  tp_system_version :: string
  tp_application_version :: string

definition buildParameters :: "config \<Rightarrow> tdlib_parameters" where
  "buildParameters c = \<lparr>tp_use_test_dc = cf_use_test_dc c, tp_database_directory = cf_database_directory c,
     tp_files_directory = cf_files_directory c, tp_database_encryption_key = cf_database_encryption_key c,
     tp_use_file_database = False, tp_use_chat_info_database = False, tp_use_message_database = False,
     tp_use_secret_chats = False, tp_api_id = cf_api_id c, tp_api_hash = cf_api_hash c,
     tp_system_language_code = ''en'', tp_device_model = ''telegram-rest-gateway'', tp_system_version = [],
     tp_application_version = ''1.6.0''\<rparr>"

datatype boot_request = GetOptionVersion | SetTdlibParameters tdlib_parameters

text \<open>\<open>first\<close> is what happens to the authorization state until the first wait is over, by its condition or by
  its ten seconds, and \<open>later\<close> until the second is, after fifteen at most.\<close>

definition bootstrap :: "config \<Rightarrow> auth_event list \<Rightarrow> auth_event list \<Rightarrow> auth \<Rightarrow> boot_request list \<times> bool \<times> auth" where
  "bootstrap c first later a =
     (let a1 = auth_run first a
      in if \<not> firstSeen a1 then ([GetOptionVersion], False, a1)
         else if au_state a1 = WaitTdlibParameters
         then (let a2 = auth_run later a1
               in ([GetOptionVersion, SetTdlibParameters (buildParameters c)], changedSince (au_generation a1) a2, a2))
         else ([GetOptionVersion], True, a1))"

text \<open>The parameters, with the key of the database and the credentials, go out at most once, only when TDLib asks
  for them, and they are those of the configuration.\<close>

lemma bootstrap_parameters:
  assumes "bootstrap c first later a = (reqs, ok, a')"
  shows "SetTdlibParameters p \<in> set reqs \<longleftrightarrow>
      firstSeen (auth_run first a) \<and> au_state (auth_run first a) = WaitTdlibParameters \<and> p = buildParameters c"
    and "length reqs \<le> 2" and "hd reqs = GetOptionVersion"
    and "ok \<Longrightarrow> firstSeen (auth_run first a)"
  using assms by (auto simp: bootstrap_def Let_def split: if_splits)

section \<open>An instance\<close>

lemma sample_paced_send:
  "serve (sample_env (Some (ObjMessage sample_msg)) ClaimFree)
      (h_send (sendConfig (sample_accepted ''default'')) ''5'' (sample_request ''k'')) [] =
     ([EvClaim ''k'' ClaimFree, EvJitter (1 / 2), EvOneWay (SendChatActionTyping 5), EvSleep 1000,
       EvInvoke (SendMessage 5 None (Some (InputText \<lparr>ft_text = ''hi'', ft_entities = []\<rparr>))) (Some (ObjMessage sample_msg)),
       EvWait 7 4000 None,
       EvStore ''k'' 202 (pendingDoc sample_msg)], Some (jsonResponse (pendingDoc sample_msg) 202))"
proof -
  have p: "parseId ''5'' 0 = (True, 5)" by code_simp
  have d: "computeTypingDelay (utf8CodepointCount ''hi'') (sc_typing (sendConfig (sample_accepted ''default''))) (1 / 2) = Some 1000"
    by code_simp
  have c: "sc_humanize (sendConfig (sample_accepted ''default''))" "sc_id_wait_ms (sendConfig (sample_accepted ''default'')) = 4000"
    by (simp_all add: sendConfig_def sample_accepted_def default_config_def)
  have l: "typingLoop 5 1000 k = OneWay (SendChatActionTyping 5) (Sleep 1000 k)" for k
    by (simp add: typingLoop.simps [of 5 1000] typingLoop.simps [of 5 0])
  show ?thesis
    by (simp add: h_send_def p c l sample_request_def bodyObject_def textField_def Let_def sample_env_def after_event_def
        sendClaimed_def makeFormattedText_def parseModeField_def replyField_def sendCoroutine_def humanPause_def
        d expect_def awaitConfirmation_def answerPending_def storeKey_def sample_msg_def [THEN arg_cong [of _ _ m_id]])
qed

theorem pause_within_idle_timeout_witness:
  "waited [EvClaim ''k'' ClaimFree, EvJitter (1 / 2), EvOneWay (SendChatActionTyping 5), EvSleep 1000,
       EvInvoke (SendMessage 5 None (Some (InputText \<lparr>ft_text = ''hi'', ft_entities = []\<rparr>))) (Some (ObjMessage sample_msg)),
       EvWait 7 4000 None, EvStore ''k'' 202 (pendingDoc sample_msg)] + 2000 \<le> 90 * 1000"
  using pause_within_idle_timeout [OF sample_loads(1) _ _ _ sample_paced_send]
  by (simp add: sample_accepted_def default_config_def)

end
