(* ===== verification/Base64.thy ===== *)
theory Base64
  imports CppStrings
begin

text \<open>
  \<^verbatim>\<open>src/src/util/base64.cpp\<close>: the encoder and the lenient decoder of the session string (the base64
  form of \<^verbatim>\<open>td.binlog\<close>). Both work on 32-bit words, with the shifts and masks of the source; the
  decoder's accumulator is never cleared, so its high bits hold what was shifted out. The main lemmas:
  the decoder inverts the encoder, it accepts exactly the texts that are alphabet characters, then
  padding, with blanks anywhere, and the length of what it returns.
\<close>

section \<open>The alphabet and its reverse table\<close>

definition kAlphabet :: string where
  "kAlphabet = ''ABCDEFGHIJKLMNOPQRSTUVWXYZabcdefghijklmnopqrstuvwxyz0123456789+/''"

definition alphabet_pos :: "nat \<Rightarrow> nat" where
  "alphabet_pos i = of_char (kAlphabet ! i)"

definition buildReverse :: "int list" where
  "buildReverse = foldl (\<lambda>t i. t[alphabet_pos i := int i]) (replicate 256 (- 1)) [0..<64]"

definition kReverse :: "char \<Rightarrow> int" where
  "kReverse c = buildReverse ! of_char c"

lemma length_kAlphabet [simp]: "length kAlphabet = 64"
  by (simp add: kAlphabet_def)

lemma distinct_kAlphabet [simp]: "distinct kAlphabet"
  by (simp add: kAlphabet_def)

lemma of_char_less_256 [simp]: "(of_char c :: nat) < 256"
  using nat_of_char_less_256 .

lemma alphabet_pos_inj: "i < 64 \<Longrightarrow> j < 64 \<Longrightarrow> alphabet_pos i = alphabet_pos j \<longleftrightarrow> i = j"
  by (simp add: alphabet_pos_def nth_eq_iff_index_eq)

lemma buildReverse_upto:
  assumes "n \<le> 64"
  defines "t \<equiv> foldl (\<lambda>t i. t[alphabet_pos i := int i]) (replicate 256 (- 1)) [0..<n]"
  shows "length t = 256 \<and> (\<forall>i < n. t ! alphabet_pos i = int i) \<and>
         (\<forall>k < 256. k \<notin> alphabet_pos ` {..<n} \<longrightarrow> t ! k = - 1)"
  unfolding t_def using assms(1)
proof (induction n)
  case 0
  then show ?case by simp
next
  case (Suc n)
  have p: "alphabet_pos n < 256" by (simp add: alphabet_pos_def)
  from Suc p alphabet_pos_inj [of _ n] show ?case
    by (auto simp: nth_list_update less_Suc_eq lessThan_Suc)
qed

lemma kReverse_alphabet [simp]: "i < 64 \<Longrightarrow> kReverse (kAlphabet ! i) = int i"
  using buildReverse_upto [of 64] by (simp add: kReverse_def buildReverse_def alphabet_pos_def)

lemma kReverse_other: "c \<notin> set kAlphabet \<Longrightarrow> kReverse c = - 1"
proof -
  assume c: "c \<notin> set kAlphabet"
  then have "of_char c \<notin> alphabet_pos ` {..<64}"
    by (auto simp: alphabet_pos_def in_set_conv_nth)
  then show ?thesis
    using buildReverse_upto [of 64] by (simp add: kReverse_def buildReverse_def)
qed

lemma kReverse_nonneg_iff: "0 \<le> kReverse c \<longleftrightarrow> c \<in> set kAlphabet"
  by (metis in_set_conv_nth kReverse_alphabet kReverse_other length_kAlphabet neg_0_le_iff_le
      not_one_le_zero of_nat_0_le_iff)

lemma kReverse_less: "kReverse c < 64"
proof (cases "c \<in> set kAlphabet")
  case True
  then obtain i where "i < 64" "c = kAlphabet ! i" by (auto simp: in_set_conv_nth)
  then show ?thesis by simp
next
  case False
  then show ?thesis by (simp add: kReverse_other)
qed

section \<open>The encoder\<close>

definition byte_word :: "char \<Rightarrow> u32" where
  "byte_word c = of_char c"

definition sextet_char :: "u32 \<Rightarrow> char" where
  "sextet_char w = kAlphabet ! unat (w AND 63)"

fun base64Encode :: "string \<Rightarrow> string" where
  "base64Encode (a # b # c # rest) =
     (let n = push_bit 16 (byte_word a) OR push_bit 8 (byte_word b) OR byte_word c
      in [sextet_char (drop_bit 18 n), sextet_char (drop_bit 12 n),
          sextet_char (drop_bit 6 n), sextet_char n] @ base64Encode rest)"
| "base64Encode [a, b] =
     [sextet_char (drop_bit 2 (byte_word a)),
      sextet_char (push_bit 4 (byte_word a) OR drop_bit 4 (byte_word b)),
      sextet_char (push_bit 2 (byte_word b)), CHR ''='']"
| "base64Encode [a] =
     [sextet_char (drop_bit 2 (byte_word a)), sextet_char (push_bit 4 (byte_word a)),
      CHR ''='', CHR ''='']"
| "base64Encode [] = []"

section \<open>The decoder\<close>

definition is_b64_blank :: "char \<Rightarrow> bool" where
  "is_b64_blank c \<longleftrightarrow> c = CHR 0x0A \<or> c = CHR 0x0D \<or> c = CHR '' '' \<or> c = CHR 0x09"

text \<open>\<^verbatim>\<open>acc = (acc << 6) | v\<close> and \<^verbatim>\<open>(acc >> bits) & 0xFF\<close>.\<close>

definition shift_in :: "u32 \<Rightarrow> int \<Rightarrow> u32" where
  "shift_in acc v = push_bit 6 acc OR word_of_int v"

definition emit_byte :: "nat \<Rightarrow> u32 \<Rightarrow> char" where
  "emit_byte bits acc = char_of (unat (drop_bit bits acc AND 255))"

fun base64_decode_loop :: "u32 \<Rightarrow> nat \<Rightarrow> bool \<Rightarrow> string \<Rightarrow> string \<Rightarrow> string option" where
  "base64_decode_loop acc bits seen_padding out [] = Some out"
| "base64_decode_loop acc bits seen_padding out (c # cs) =
     (if is_b64_blank c then base64_decode_loop acc bits seen_padding out cs
      else if c = CHR ''='' then base64_decode_loop acc bits True out cs
      else if seen_padding then None
      else if kReverse c < 0 then None
      else
        let acc' = shift_in acc (kReverse c);
            bits' = bits + 6
        in if 8 \<le> bits'
           then base64_decode_loop acc' (bits' - 8) False
                  (out @ [emit_byte (bits' - 8) acc']) cs
           else base64_decode_loop acc' bits' False out cs)"

definition base64Decode :: "string \<Rightarrow> string option" where
  "base64Decode input = base64_decode_loop 0 0 False [] input"

section \<open>One step of the decoder on an encoded character\<close>

lemma and_63: "(w :: u32) AND 63 = take_bit 6 w"
  by (simp add: take_bit_eq_mask mask_eq_exp_minus_1)

lemma and_255: "(w :: u32) AND 255 = take_bit 8 w"
  by (simp add: take_bit_eq_mask mask_eq_exp_minus_1)

lemma unat_take_bit_6: "unat (take_bit 6 (w :: u32)) < 64"
  by (simp add: unsigned_take_bit_eq take_bit_nat_less_exp [of 6, simplified])

lemma sextet_char_in_alphabet: "sextet_char w \<in> set kAlphabet"
  by (simp add: sextet_char_def and_63 unat_take_bit_6)

lemma alphabet_not_special:
  "c \<in> set kAlphabet \<Longrightarrow> \<not> is_b64_blank c \<and> c \<noteq> CHR ''=''"
  by (auto simp: kAlphabet_def is_b64_blank_def)

definition sextet :: "u32 \<Rightarrow> int" where
  "sextet w = int (unat (w AND 63))"

lemma kReverse_sextet_char [simp]: "kReverse (sextet_char w) = sextet w"
  by (simp add: sextet_char_def sextet_def and_63 unat_take_bit_6)

lemma word_of_sextet: "word_of_int (sextet w) = take_bit 6 w"
  by (simp add: sextet_def and_63)

lemma decode_sextet:
  "base64_decode_loop acc bits False out (sextet_char w # cs) =
     (if 2 \<le> bits
      then base64_decode_loop (shift_in acc (sextet w)) (bits - 2) False
             (out @ [emit_byte (bits - 2) (shift_in acc (sextet w))]) cs
      else base64_decode_loop (shift_in acc (sextet w)) (bits + 6) False out cs)"
  using alphabet_not_special [OF sextet_char_in_alphabet [of w]]
  by (simp add: sextet_def Let_def)

lemma unat_byte_word [simp]: "unat (byte_word c) = of_char c"
proof -
  have e: "byte_word c = of_nat (of_char c)"
    unfolding byte_word_def by (rule of_nat_of_char [symmetric])
  have "(of_char c :: nat) < 2 ^ LENGTH(32)"
    by (rule order_less_trans [OF of_char_less_256]) simp
  then show ?thesis unfolding e unat_of_nat by (rule mod_less)
qed

lemma char_of_byte_word: "char_of (unat (byte_word c)) = c"
  by simp

lemma take_bit_8_byte_word: "take_bit 8 (byte_word c) = byte_word c"
  by (rule word_unat_eq_iff [THEN iffD2]) (simp add: unsigned_take_bit_eq take_bit_nat_eq_self)

lemma bit_byte_word: "bit (byte_word c) k \<Longrightarrow> k < 8"
  by (metis bit_take_bit_iff take_bit_8_byte_word)

lemma bit_byte_word_high [simp]: "8 \<le> k \<Longrightarrow> \<not> bit (byte_word c) k"
  using bit_byte_word [of c k] by auto

lemma byte_eqI:
  assumes "\<And>k. k \<in> {0, 1, 2, 3, 4, 5, 6, 7} \<Longrightarrow> bit x k = bit (byte_word c) k"
  shows "take_bit 8 x = byte_word c"
proof (rule bit_word_eqI)
  fix k :: nat
  have "k < 8 \<longleftrightarrow> k \<in> {0, 1, 2, 3, 4, 5, 6, 7}" by auto
  then show "bit (take_bit 8 x) k = bit (byte_word c) k"
    using assms [of k] bit_byte_word [of c k] by (auto simp: bit_take_bit_iff)
qed

definition triple :: "char \<Rightarrow> char \<Rightarrow> char \<Rightarrow> u32" where
  "triple a b c = push_bit 16 (byte_word a) OR push_bit 8 (byte_word b) OR byte_word c"

lemma emit_byte_eq: "emit_byte n acc = c \<longleftrightarrow> take_bit 8 (drop_bit n acc) = byte_word c"
proof
  assume "take_bit 8 (drop_bit n acc) = byte_word c"
  then show "emit_byte n acc = c" by (simp add: emit_byte_def and_255)
next
  assume e: "emit_byte n acc = c"
  have "unat (take_bit 8 (drop_bit n acc)) < 256"
    by (simp add: unsigned_take_bit_eq take_bit_nat_less_exp [of 8, simplified])
  then have "of_char (emit_byte n acc) = unat (take_bit 8 (drop_bit n acc))"
    by (simp add: emit_byte_def and_255)
  with e have "unat (byte_word c) = unat (take_bit 8 (drop_bit n acc))" by simp
  then show "take_bit 8 (drop_bit n acc) = byte_word c" by (simp only: word_unat_eq_iff)
qed

lemma emit_first:
  "emit_byte 4 (shift_in (shift_in acc (sextet (drop_bit 18 (triple a b c))))
      (sextet (drop_bit 12 (triple a b c)))) = a"
  unfolding emit_byte_eq shift_in_def word_of_sextet
  by (rule byte_eqI, elim insertE emptyE)
     (simp_all add: bit_simps triple_def numeral_2_eq_2 [symmetric])

lemma emit_second:
  "emit_byte 2 (shift_in (shift_in acc (sextet (drop_bit 12 (triple a b c))))
      (sextet (drop_bit 6 (triple a b c)))) = b"
  unfolding emit_byte_eq shift_in_def word_of_sextet
  by (rule byte_eqI, elim insertE emptyE)
     (simp_all add: bit_simps triple_def numeral_2_eq_2 [symmetric])

lemma emit_third:
  "emit_byte 0 (shift_in (shift_in acc (sextet (drop_bit 6 (triple a b c))))
      (sextet (triple a b c))) = c"
  unfolding emit_byte_eq shift_in_def word_of_sextet
  by (rule byte_eqI, elim insertE emptyE)
     (simp_all add: bit_simps triple_def numeral_2_eq_2 [symmetric])

lemma byte_word_NUL [simp]: "byte_word CHR 0x00 = 0"
  by (simp add: byte_word_def)

text \<open>The last group has two or three characters: those of the triple with zero bytes after it.\<close>

lemma sextet_cong: "take_bit 6 v = take_bit 6 w \<Longrightarrow> sextet_char v = sextet_char w"
  by (simp add: sextet_char_def and_63)

lemma sextet_char_two:
  "sextet_char (drop_bit 2 (byte_word a)) = sextet_char (drop_bit 18 (triple a b (CHR 0x00)))"
  "sextet_char (push_bit 4 (byte_word a) OR drop_bit 4 (byte_word b)) =
     sextet_char (drop_bit 12 (triple a b (CHR 0x00)))"
  "sextet_char (push_bit 2 (byte_word b)) = sextet_char (drop_bit 6 (triple a b (CHR 0x00)))"
  by (rule sextet_cong, auto intro!: bit_word_eqI simp: bit_simps triple_def)+

lemma sextet_char_one:
  "sextet_char (push_bit 4 (byte_word a)) = sextet_char (drop_bit 12 (triple a (CHR 0x00) (CHR 0x00)))"
  using sextet_char_two(2) [of a "CHR 0x00"] by simp

section \<open>Round trip\<close>

text \<open>Four characters from an empty bit buffer give back the three bytes, whatever the accumulator held.\<close>

lemma decode_group:
  "\<exists>acc'. base64_decode_loop acc 0 False out
     (sextet_char (drop_bit 18 (triple a b c)) # sextet_char (drop_bit 12 (triple a b c)) #
      sextet_char (drop_bit 6 (triple a b c)) # sextet_char (triple a b c) # cs) =
   base64_decode_loop acc' 0 False (out @ [a, b, c]) cs"
  by (auto simp: decode_sextet emit_first emit_second emit_third simp del: base64_decode_loop.simps)

lemma decode_padding:
  "base64_decode_loop acc bits p out (CHR ''='' # cs) = base64_decode_loop acc bits True out cs"
  by (simp add: is_b64_blank_def)

lemma base64Encode_triple:
  "base64Encode (a # b # c # rest) =
     sextet_char (drop_bit 18 (triple a b c)) # sextet_char (drop_bit 12 (triple a b c)) #
     sextet_char (drop_bit 6 (triple a b c)) # sextet_char (triple a b c) # base64Encode rest"
  by (simp only: base64Encode.simps Let_def triple_def append.simps)

lemma decode_encode_from:
  "base64_decode_loop acc 0 False out (base64Encode s) = Some (out @ s)"
proof (induction s arbitrary: acc out rule: base64Encode.induct)
  case (1 a b c rest)
  obtain acc' where "base64_decode_loop acc 0 False out (base64Encode (a # b # c # rest)) =
      base64_decode_loop acc' 0 False (out @ [a, b, c]) (base64Encode rest)"
    unfolding base64Encode_triple using decode_group by blast
  then show ?case using 1 by simp
next
  case (2 a b)
  show ?case
    by (simp add: sextet_char_two(1) [of a b] sextet_char_two(2) sextet_char_two(3) [of b a]
        decode_sextet decode_padding emit_first emit_second del: base64_decode_loop.simps(2))
next
  case (3 a)
  show ?case
    by (simp add: sextet_char_two(1) [of a "CHR 0x00"] sextet_char_one
        decode_sextet decode_padding emit_first del: base64_decode_loop.simps(2))
next
  case 4
  then show ?case by simp
qed

section \<open>What the decoder accepts\<close>

lemma decode_ignores_blanks:
  "base64_decode_loop acc bits p out s =
   base64_decode_loop acc bits p out (filter (\<lambda>c. \<not> is_b64_blank c) s)"
  by (induction s arbitrary: acc bits p out) (auto simp: Let_def)

lemma decode_after_padding:
  "\<forall>c \<in> set s. \<not> is_b64_blank c \<Longrightarrow>
   base64_decode_loop acc bits True out s =
     (if s = replicate (length s) (CHR ''='') then Some out else None)"
  by (induction s) auto

text \<open>Data characters never fail and emit one byte for every eight bits collected.\<close>

lemma decode_data:
  assumes "set d \<subseteq> set kAlphabet" "bits < 8"
  shows "\<exists>acc' emitted. length emitted = (bits + 6 * length d) div 8 \<and>
    base64_decode_loop acc bits False out (d @ r) =
    base64_decode_loop acc' ((bits + 6 * length d) mod 8) False (out @ emitted) r"
  using assms
proof (induction d arbitrary: acc bits out)
  case Nil
  then show ?case by auto
next
  case (Cons c d)
  let ?acc = "shift_in acc (kReverse c)"
  have c: "\<not> is_b64_blank c" "c \<noteq> CHR ''=''" "\<not> kReverse c < 0"
    using Cons.prems alphabet_not_special [of c] kReverse_nonneg_iff [of c] by auto
  show ?case
  proof (cases "8 \<le> bits + 6")
    case True
    let ?e = "emit_byte (bits + 6 - 8) ?acc"
    have step: "base64_decode_loop acc bits False out ((c # d) @ r) =
        base64_decode_loop ?acc (bits + 6 - 8) False (out @ [?e]) (d @ r)"
      using c True by (simp add: Let_def)
    have "bits + 6 - 8 < 8" using Cons.prems by simp
    then obtain acc' em where em: "length em = (bits + 6 - 8 + 6 * length d) div 8"
      and ih: "base64_decode_loop ?acc (bits + 6 - 8) False (out @ [?e]) (d @ r) =
        base64_decode_loop acc' ((bits + 6 - 8 + 6 * length d) mod 8) False ((out @ [?e]) @ em) r"
      using Cons.IH [of "bits + 6 - 8" ?acc "out @ [?e]"] Cons.prems(1) by fastforce
    have ar: "bits + 6 * length (c # d) = (bits + 6 - 8 + 6 * length d) + 8" using True by simp
    have "length (?e # em) = (bits + 6 * length (c # d)) div 8"
      unfolding ar using em by simp
    moreover have "(bits + 6 * length (c # d)) mod 8 = (bits + 6 - 8 + 6 * length d) mod 8"
      unfolding ar by simp
    ultimately show ?thesis
      using step ih by (intro exI [of _ acc'] exI [of _ "?e # em"]) simp
  next
    case False
    have step: "base64_decode_loop acc bits False out ((c # d) @ r) =
        base64_decode_loop ?acc (bits + 6) False out (d @ r)"
      using c False by (simp add: Let_def)
    then show ?thesis
      using Cons.IH [of "bits + 6" ?acc out] Cons.prems False by (simp add: algebra_simps)
  qed
qed

lemma decode_stops:
  assumes "d = [] \<or> set d \<subseteq> set kAlphabet" "bits < 8" "c \<notin> set kAlphabet" "c \<noteq> CHR ''=''" "\<not> is_b64_blank c"
  shows "base64_decode_loop acc bits False out (d @ c # r) = None"
proof -
  obtain acc' em where "base64_decode_loop acc bits False out (d @ c # r) =
      base64_decode_loop acc' ((bits + 6 * length d) mod 8) False (out @ em) (c # r)"
    using decode_data [of d bits acc out "c # r"] assms(1,2) by auto
  then show ?thesis using assms(3-5) by (simp add: kReverse_other)
qed

text \<open>A text is data characters, then everything from the first character outside the alphabet.\<close>

lemma split_alphabet:
  obtains d r where "s = d @ r" "set d \<subseteq> set kAlphabet" "r = [] \<or> hd r \<notin> set kAlphabet"
proof
  let ?d = "takeWhile (\<lambda>c. c \<in> set kAlphabet) s" and ?r = "dropWhile (\<lambda>c. c \<in> set kAlphabet) s"
  show "s = ?d @ ?r" by simp
  show "set ?d \<subseteq> set kAlphabet" by (auto dest: set_takeWhileD)
  show "?r = [] \<or> hd ?r \<notin> set kAlphabet" using hd_dropWhile [of "\<lambda>c. c \<in> set kAlphabet" s] by auto
qed

lemma decode_data_padding:
  assumes "set d \<subseteq> set kAlphabet"
  shows "\<exists>t. base64_decode_loop 0 0 False [] (d @ replicate k (CHR ''='')) = Some t \<and>
    length t = 6 * length d div 8"
proof -
  obtain acc' em where em: "length em = 6 * length d div 8"
    "base64_decode_loop 0 0 False [] (d @ replicate k (CHR ''='')) =
      base64_decode_loop acc' (6 * length d mod 8) False em (replicate k (CHR ''=''))"
    using decode_data [of d 0 0 "[]" "replicate k (CHR ''='')"] assms by auto
  have "base64_decode_loop acc' n p em (replicate k (CHR ''='')) = Some em" for n p
    by (induction k arbitrary: p) (simp_all add: decode_padding)
  with em show ?thesis by simp
qed

lemma decode_accepts:
  assumes "base64_decode_loop 0 0 False [] s = Some t" "\<forall>c \<in> set s. \<not> is_b64_blank c"
  shows "\<exists>d k. s = d @ replicate k (CHR ''='') \<and> set d \<subseteq> set kAlphabet"
proof -
  obtain d r where s: "s = d @ r" and d: "set d \<subseteq> set kAlphabet" and r: "r = [] \<or> hd r \<notin> set kAlphabet"
    by (rule split_alphabet)
  show ?thesis
  proof (cases r)
    case Nil
    then show ?thesis using s d by (intro exI [of _ d] exI [of _ 0]) simp
  next
    case (Cons c r')
    then have c: "c = CHR ''=''"
      using assms s d r decode_stops [of d 0 c 0 "[]" r'] by auto
    obtain acc' em where "base64_decode_loop 0 0 False [] s =
        base64_decode_loop acc' (6 * length d mod 8) False em (c # r')"
      using decode_data [of d 0 0 "[]" "c # r'"] d s Cons by auto
    then have "base64_decode_loop acc' (6 * length d mod 8) True em r' = Some t"
      using assms(1) c by (simp add: is_b64_blank_def)
    then have "r' = replicate (length r') (CHR ''='')"
      using assms(2) s Cons decode_after_padding [of r'] by (auto split: if_splits)
    then have "s = d @ replicate (Suc (length r')) (CHR ''='')"
      using s Cons c by simp
    then show ?thesis using d by blast
  qed
qed

section \<open>The codec's contract\<close>

lemma length_base64Encode: "length (base64Encode s) = 4 * ((length s + 2) div 3)"
proof (induction s rule: base64Encode.induct)
  case (1 a b c rest)
  have "(length (a # b # c # rest) + 2) div 3 = (length rest + 2) div 3 + 1" by simp
  with 1 show ?case by (simp add: Let_def)
qed simp_all

lemma base64Encode_charset: "set (base64Encode s) \<subseteq> insert (CHR ''='') (set kAlphabet)"
  by (induction s rule: base64Encode.induct)
     (auto simp: Let_def sextet_char_in_alphabet)

text \<open>exporting the session and starting from the exported string restores the same bytes: decoding
  the encoding of any byte string gives back that byte string.
\<close>
theorem base64_roundtrip: "base64Decode (base64Encode s) = Some s"
  by (simp add: base64Decode_def decode_encode_from)

text \<open>the decoder accepts a text exactly when, blanks removed, it is alphabet characters followed by
  any number of padding characters, and it then returns six bits per data character, incomplete bytes
  dropped. In particular it never rejects for a wrong amount of padding.
\<close>
theorem base64_accepts:
  "(\<exists>t. base64Decode s = Some t \<and> length t = n) \<longleftrightarrow>
   (\<exists>d k. filter (\<lambda>c. \<not> is_b64_blank c) s = d @ replicate k (CHR ''='') \<and>
      set d \<subseteq> set kAlphabet \<and> n = 6 * length d div 8)"
proof
  let ?s = "filter (\<lambda>c. \<not> is_b64_blank c) s"
  assume "\<exists>t. base64Decode s = Some t \<and> length t = n"
  then obtain t where t: "base64_decode_loop 0 0 False [] ?s = Some t" "length t = n"
    unfolding base64Decode_def using decode_ignores_blanks by metis
  obtain d k where dk: "?s = d @ replicate k (CHR ''='')" "set d \<subseteq> set kAlphabet"
    using decode_accepts [OF t(1)] by auto
  with t decode_data_padding [OF dk(2), of k] show
    "\<exists>d k. ?s = d @ replicate k (CHR ''='') \<and> set d \<subseteq> set kAlphabet \<and> n = 6 * length d div 8"
    by auto
next
  assume "\<exists>d k. filter (\<lambda>c. \<not> is_b64_blank c) s = d @ replicate k (CHR ''='') \<and>
      set d \<subseteq> set kAlphabet \<and> n = 6 * length d div 8"
  then show "\<exists>t. base64Decode s = Some t \<and> length t = n"
    unfolding base64Decode_def using decode_data_padding decode_ignores_blanks by metis
qed

end
