(* ===== verification/SessionStore.thy ===== *)
theory SessionStore
  imports Base64 Config
begin

text \<open>
  \<^verbatim>\<open>src/src/auth/session_io.cpp\<close> and \<^verbatim>\<open>src/src/auth/s3_session.cpp\<close>: the session is the one file \<^verbatim>\<open>td.binlog\<close>;
  it is restored from a text or from S3 before TDLib starts, exported as text, and pushed to S3 while the
  gateway runs. The file is its bytes and its permissions; what the system calls answer is an argument.
\<close>

section \<open>The file\<close>

type_synonym binlog = "(string \<times> nat) option"

definition kSecretMode :: nat where
  "kSecretMode = 384"

text \<open>The outcomes of \<^verbatim>\<open>write\<close> in order, and of the other calls; \<open>os_new_mode\<close> is what \<^verbatim>\<open>open\<close> gives a new file.\<close>

datatype write_outcome = Interrupted | WriteFailed | Wrote nat

record os_calls =
  os_exists :: bool
  os_open :: bool
  os_new_mode :: nat
  os_fchmod :: bool
  os_writes :: "write_outcome list"
  os_close :: bool
  os_readable :: bool

text \<open>The loop: its verdict and how much was written, or \<open>None\<close> while outcomes are missing.\<close>

fun write_loop :: "string \<Rightarrow> nat \<Rightarrow> write_outcome list \<Rightarrow> (bool \<times> nat) option" where
  "write_loop data written [] = (if length data \<le> written then Some (True, written) else None)"
| "write_loop data written (r # rs) =
     (if length data \<le> written then Some (True, written)
      else case r of
             Interrupted \<Rightarrow> write_loop data written rs
           | WriteFailed \<Rightarrow> Some (False, written)
           | Wrote n \<Rightarrow> write_loop data (written + n) rs)"

definition writeSecretFile :: "os_calls \<Rightarrow> string \<Rightarrow> binlog \<Rightarrow> (bool \<times> binlog) option" where
  "writeSecretFile o1 data f =
     (if \<not> os_open o1 then Some (False, f)
      else (let mode = (case f of Some (_, m) \<Rightarrow> m | None \<Rightarrow> os_new_mode o1)
            in if \<not> os_fchmod o1 then Some (False, Some ([], mode))
               else (case write_loop data 0 (os_writes o1) of
                       None \<Rightarrow> None
                     | Some (False, n) \<Rightarrow> Some (False, Some (take n data, kSecretMode))
                     | Some (True, n) \<Rightarrow> Some (os_close o1, Some (take n data, kSecretMode)))))"

definition readBinlog :: "os_calls \<Rightarrow> binlog \<Rightarrow> string option" where
  "readBinlog o1 f = (case f of
     None \<Rightarrow> None
   | Some (bytes, _) \<Rightarrow> if \<not> os_readable o1 then None else if bytes = [] then None else Some bytes)"

section \<open>Restoring and exporting\<close>

datatype restore_result = NoSession | Restored | SkippedExisting | RestoreError | NotConfigured | NoRemoteObject

definition file_exists :: "os_calls \<Rightarrow> binlog \<Rightarrow> bool" where
  "file_exists o1 f \<longleftrightarrow> os_exists o1 \<and> f \<noteq> None"

definition restoreSession :: "os_calls \<Rightarrow> string \<Rightarrow> binlog \<Rightarrow> (restore_result \<times> binlog) option" where
  "restoreSession o1 session_b64 f =
     (if session_b64 = [] then Some (NoSession, f)
      else if file_exists o1 f then Some (SkippedExisting, f)
      else (case base64Decode session_b64 of
              None \<Rightarrow> Some (RestoreError, f)
            | Some decoded \<Rightarrow>
                if decoded = [] then Some (RestoreError, f)
                else map_option (\<lambda>(ok, f'). (if ok then Restored else RestoreError, f')) (writeSecretFile o1 decoded f)))"

definition exportSession :: "os_calls \<Rightarrow> binlog \<Rightarrow> string option" where
  "exportSession o1 f = map_option base64Encode (readBinlog o1 f)"

record s3_result =
  sr_http_status :: nat
  sr_body :: string

definition s3_ok :: "s3_result \<Rightarrow> bool" where
  "s3_ok r \<longleftrightarrow> 200 \<le> sr_http_status r \<and> sr_http_status r < 300"

definition s3_not_found :: "s3_result \<Rightarrow> bool" where
  "s3_not_found r \<longleftrightarrow> sr_http_status r = 404"

definition s3_enabled :: "s3_config \<Rightarrow> bool" where
  "s3_enabled c \<longleftrightarrow> s3_bucket c \<noteq> [] \<and> s3_key c \<noteq> [] \<and> s3_access_key c \<noteq> [] \<and> s3_secret_key c \<noteq> []
     \<and> s3_endpoint c \<noteq> []"

definition restoreFromS3 :: "os_calls \<Rightarrow> s3_config \<Rightarrow> s3_result \<Rightarrow> binlog \<Rightarrow> (restore_result \<times> binlog) option" where
  "restoreFromS3 o1 c got f =
     (if \<not> s3_enabled c then Some (NotConfigured, f)
      else if file_exists o1 f then Some (SkippedExisting, f)
      else if s3_not_found got then Some (NoRemoteObject, f)
      else if \<not> s3_ok got then Some (RestoreError, f)
      else map_option (\<lambda>(ok, f'). (if ok then Restored else RestoreError, f')) (writeSecretFile o1 (sr_body got) f))"

text \<open>\<^verbatim>\<open>pushToS3\<close>: what is sent, if anything is, and the answer for the result of the request.\<close>

definition pushToS3 :: "os_calls \<Rightarrow> s3_config \<Rightarrow> binlog \<Rightarrow> (string \<Rightarrow> s3_result) \<Rightarrow> string option \<times> bool" where
  "pushToS3 o1 c f put =
     (if \<not> s3_enabled c then (None, False)
      else (case readBinlog o1 f of None \<Rightarrow> (None, False) | Some bytes \<Rightarrow> (Some bytes, s3_ok (put bytes))))"

section \<open>Facts about the file\<close>

lemma write_loop_True: "write_loop data w rs = Some (True, n) \<Longrightarrow> length data \<le> n"
  by (induction data w rs rule: write_loop.induct) (auto split: if_splits write_outcome.splits)

lemma write_loop_False: "write_loop data w rs = Some (False, n) \<Longrightarrow> n < length data"
  by (induction data w rs rule: write_loop.induct) (auto split: if_splits write_outcome.splits)

text \<open>The loop ends when the system makes progress: no outcome stands for ever.\<close>

lemma write_loop_ends:
  "length data \<le> w + sum_list (map (\<lambda>r. case r of Wrote n \<Rightarrow> n | _ \<Rightarrow> 0) rs) \<Longrightarrow> write_loop data w rs \<noteq> None"
  by (induction data w rs rule: write_loop.induct) (auto split: write_outcome.splits)

lemma writeSecretFile_ok:
  "writeSecretFile o1 data f = Some (True, f') \<Longrightarrow> f' = Some (data, kSecretMode)"
  using write_loop_True [of data 0 "os_writes o1"]
  by (auto simp: writeSecretFile_def Let_def split: if_splits option.splits bool.splits)

lemma writeSecretFile_secret:
  "writeSecretFile o1 data f = Some (ok, Some (bytes, mode)) \<Longrightarrow> f = None \<Longrightarrow> bytes \<noteq> [] \<Longrightarrow> mode = kSecretMode"
  by (auto simp: writeSecretFile_def Let_def split: if_splits option.splits bool.splits)

section \<open>Properties of restoring\<close>

text \<open>A session survives its way through the text: what \<^verbatim>\<open>exportSession\<close> gives for a file is, on a machine without
  one, restored to exactly the same bytes, readable by the owner only, whenever the restore reports success;
  an existing file is never touched; and a text that is no session writes nothing.\<close>

theorem session_survives_export:
  assumes "exportSession o1 (Some (bytes, m)) = Some text" "restoreSession o2 text None = Some (Restored, f')"
    and "os_exists o2"
  shows "f' = Some (bytes, kSecretMode)
    \<and> restoreSession o2 text (Some (other, k)) = Some (SkippedExisting, Some (other, k))
    \<and> (\<forall>junk. base64Decode junk \<in> {None, Some []} \<longrightarrow> (\<exists>r. restoreSession o2 junk None = Some (r, None)))"
proof (intro conjI allI impI)
  from assms(1) have b: "bytes \<noteq> []" "text = base64Encode bytes"
    by (auto simp: exportSession_def readBinlog_def split: if_splits)
  then have d: "base64Decode text = Some bytes" by (simp add: base64Decode_def decode_encode_from)
  have ne: "text \<noteq> []"
  proof -
    have "0 < length text" using b length_base64Encode [of bytes] by (cases bytes) auto
    then show ?thesis by simp
  qed
  show "f' = Some (bytes, kSecretMode)"
    using assms(2) d ne b by (auto simp: restoreSession_def file_exists_def split: if_splits dest: writeSecretFile_ok)
  show "restoreSession o2 text (Some (other, k)) = Some (SkippedExisting, Some (other, k))"
    using ne assms(3) by (simp add: restoreSession_def file_exists_def)
  fix junk assume "base64Decode junk \<in> {None, Some []}"
  then show "\<exists>r. restoreSession o2 junk None = Some (r, None)"
    by (auto simp: restoreSession_def file_exists_def)
qed

definition sample_calls :: "write_outcome list \<Rightarrow> os_calls" where
  "sample_calls ws = \<lparr>os_exists = True, os_open = True, os_new_mode = 384, os_fchmod = True, os_writes = ws,
     os_close = True, os_readable = True\<rparr>"

lemma decode_encoded: "base64Decode (base64Encode s) = Some s"
  by (simp add: base64Decode_def decode_encode_from)

lemma encoded_nonempty: "s \<noteq> [] \<Longrightarrow> base64Encode s \<noteq> []"
  using length_base64Encode [of s] by (cases s) auto

theorem session_survives_export_witness:
  "restoreSession (sample_calls [Wrote 1, Interrupted, Wrote 2]) (base64Encode ''abc'') (Some (''x'', 420)) =
     Some (SkippedExisting, Some (''x'', 420))"
proof -
  let ?o = "sample_calls [Wrote 1, Interrupted, Wrote 2]"
  have e: "exportSession (sample_calls []) (Some (''abc'', 420)) = Some (base64Encode ''abc'')"
    by (simp add: exportSession_def readBinlog_def sample_calls_def del: base64Encode.simps)
  have "writeSecretFile ?o ''abc'' None = Some (True, Some (''abc'', 384))" by code_simp
  then have r: "restoreSession ?o (base64Encode ''abc'') None = Some (Restored, Some (''abc'', 384))"
    by (simp add: restoreSession_def file_exists_def decode_encoded encoded_nonempty del: base64Encode.simps)
  have "os_exists ?o" by (simp add: sample_calls_def)
  from session_survives_export [OF e r this] show ?thesis by blast
qed

text \<open>C40: A restore that fails part of the way leaves the part it wrote: the failed start reports the error, and every
  later one finds a file, keeps it, and reports that a session exists, although its bytes are a proper piece of
  the session. This holds for the restore from the text and for the one from S3.\<close>

theorem partial_restore_sticks:
  assumes "os_open o1" "os_fchmod o1" "write_loop data 0 (os_writes o1) = Some (False, n)" "os_exists o2"
    and "base64Decode text = Some data" "s3_enabled c" "s3_ok got" "sr_body got = data"
  shows "restoreSession o1 text None = Some (RestoreError, Some (take n data, kSecretMode))
    \<and> restoreFromS3 o1 c got None = Some (RestoreError, Some (take n data, kSecretMode))
    \<and> n < length data
    \<and> restoreSession o2 text (Some (take n data, kSecretMode)) = Some (SkippedExisting, Some (take n data, kSecretMode))
    \<and> restoreFromS3 o2 c got (Some (take n data, kSecretMode)) = Some (SkippedExisting, Some (take n data, kSecretMode))"
proof -
  have n: "n < length data" using assms(3) by (rule write_loop_False)
  then have d: "data \<noteq> []" by auto
  have t: "text \<noteq> []"
  proof
    assume "text = []"
    moreover have "base64Decode [] = Some []" by code_simp
    ultimately show False using assms(5) d by simp
  qed
  have w: "writeSecretFile o1 data None = Some (False, Some (take n data, kSecretMode))"
    using assms(1-3) by (simp add: writeSecretFile_def)
  have nf: "\<not> s3_not_found got" using assms(7) by (simp add: s3_ok_def s3_not_found_def)
  show ?thesis
    using assms t d w n nf by (simp add: restoreSession_def restoreFromS3_def file_exists_def)
qed

theorem partial_restore_sticks_witness:
  "restoreSession (sample_calls []) (base64Encode ''abc'') (Some (''a'', kSecretMode)) =
     Some (SkippedExisting, Some (''a'', kSecretMode))"
proof -
  have l: "write_loop ''abc'' 0 (os_writes (sample_calls [Wrote 1, WriteFailed])) = Some (False, 1)" by code_simp
  have s: "os_open (sample_calls [Wrote 1, WriteFailed])" "os_fchmod (sample_calls [Wrote 1, WriteFailed])"
      "os_exists (sample_calls [])"
    by (simp_all add: sample_calls_def)
  let ?c = "default_s3\<lparr>s3_bucket := ''b'', s3_key := ''k'', s3_access_key := ''a'', s3_secret_key := ''s'', s3_endpoint := ''e''\<rparr>"
  let ?got = "\<lparr>sr_http_status = 200, sr_body = ''abc''\<rparr>"
  have c: "s3_enabled ?c" "s3_ok ?got" "sr_body ?got = ''abc''" by (simp_all add: s3_enabled_def s3_ok_def)
  from partial_restore_sticks [OF s(1,2) l s(3) decode_encoded c] show ?thesis by (simp del: base64Encode.simps)
qed

section \<open>Keeping the copy in S3 up to date\<close>

text \<open>\<^verbatim>\<open>SyncGate\<close>: one thread at a time, and a request during its work is put off, not lost.\<close>

record sync_gate =
  sg_running :: bool
  sg_pending :: bool
  sg_in_flight :: bool

definition gate_init :: sync_gate where
  "gate_init = \<lparr>sg_running = False, sg_pending = False, sg_in_flight = False\<rparr>"

definition tryStart :: "sync_gate \<Rightarrow> bool \<times> sync_gate" where
  "tryStart g =
     (if sg_running g then (False, g\<lparr>sg_pending := True\<rparr>)
      else (True, g\<lparr>sg_running := True, sg_in_flight := True\<rparr>))"

definition finishStep :: "sync_gate \<Rightarrow> bool \<times> sync_gate" where
  "finishStep g =
     (if sg_pending g then (True, g\<lparr>sg_pending := False\<rparr>)
      else (False, g\<lparr>sg_running := False, sg_in_flight := False\<rparr>))"

text \<open>
  The whole of \<^verbatim>\<open>startS3Sync\<close>: the gate, the thread (which checks that it is not switched off, reads, and then waits
  for its PUT), the memory of \<^verbatim>\<open>S3SessionSync\<close>, the file, and the object in S3. \<open>sy_threads\<close> counts the threads
  alive. Two fields are not in the code. \<open>sy_owed\<close>: a request was made and no step has begun since. \<open>sy_loose\<close>: the
  contents of attempts at a PUT that were given up or failed. S3 may have stored such a content, and may still
  store it at any later time, as \<^verbatim>\<open>S3Client::send\<close> warns.
\<close>

datatype sync_thread = NoThread | Starting | Checked | Putting string string | Finishing

record sync_state =
  sy_gate :: sync_gate
  sy_thread :: sync_thread
  sy_threads :: nat
  sy_last_hash :: string
  sy_disabled :: bool
  sy_file :: binlog
  sy_remote :: "string option"
  sy_puts :: "string list"
  sy_owed :: bool
  sy_loose :: "string list"

definition sync_init :: "binlog \<Rightarrow> string option \<Rightarrow> sync_state" where
  "sync_init f remote = \<lparr>sy_gate = gate_init, sy_thread = NoThread, sy_threads = 0, sy_last_hash = [],
     sy_disabled = False, sy_file = f, sy_remote = remote, sy_puts = [], sy_owed = False, sy_loose = []\<rparr>"

text \<open>A tick of the timer, or \<^verbatim>\<open>push_now\<close>: both run on the main loop.\<close>

definition sync_tick :: "sync_state \<Rightarrow> sync_state" where
  "sync_tick s =
     (let (go, g) = tryStart (sy_gate s); s1 = s\<lparr>sy_gate := g, sy_owed := True\<rparr>
      in if go then s1\<lparr>sy_thread := Starting, sy_threads := sy_threads s1 + 1\<rparr> else s1)"

text \<open>\<^verbatim>\<open>syncOnce\<close>: the check of \<^verbatim>\<open>disabled_\<close>; the file, its hash and the comparison; the PUT, where \<open>lost\<close> says that an
  attempt before the last one went wrong; and the end of the step.\<close>

definition sync_check :: "sync_state \<Rightarrow> sync_state" where
  "sync_check s = s\<lparr>sy_owed := False, sy_thread := (if sy_disabled s then Finishing else Checked)\<rparr>"

definition sync_read :: "(string \<Rightarrow> string) \<Rightarrow> os_calls \<Rightarrow> sync_state \<Rightarrow> sync_state" where
  "sync_read sha o1 s =
     (case readBinlog o1 (sy_file s) of
        None \<Rightarrow> s\<lparr>sy_thread := Finishing\<rparr>
      | Some bytes \<Rightarrow>
          if sha bytes = sy_last_hash s then s\<lparr>sy_thread := Finishing\<rparr>
          else s\<lparr>sy_thread := Putting bytes (sha bytes)\<rparr>)"

definition sync_put :: "s3_result \<Rightarrow> bool \<Rightarrow> sync_state \<Rightarrow> sync_state" where
  "sync_put r lost s = (case sy_thread s of
     Putting bytes hash \<Rightarrow>
       (let s1 = s\<lparr>sy_thread := Finishing, sy_puts := sy_puts s @ [bytes],
                   sy_loose := (if lost \<or> \<not> s3_ok r then bytes # sy_loose s else sy_loose s)\<rparr>
        in if s3_ok r then s1\<lparr>sy_remote := Some bytes, sy_last_hash := hash\<rparr> else s1)
   | _ \<Rightarrow> s)"

definition sync_finish :: "sync_state \<Rightarrow> sync_state" where
  "sync_finish s =
     (let (again, g) = finishStep (sy_gate s)
      in if again then s\<lparr>sy_gate := g, sy_thread := Starting\<rparr>
         else s\<lparr>sy_gate := g, sy_thread := NoThread, sy_threads := sy_threads s - 1\<rparr>)"

definition sync_disable :: "sync_state \<Rightarrow> sync_state" where
  "sync_disable s = s\<lparr>sy_disabled := True\<rparr>"

inductive sync_step :: "(string \<Rightarrow> string) \<Rightarrow> sync_state \<Rightarrow> sync_state \<Rightarrow> bool" for sha where
  tick: "sync_step sha s (sync_tick s)"
| check: "sy_thread s = Starting \<Longrightarrow> sync_step sha s (sync_check s)"
| read: "sy_thread s = Checked \<Longrightarrow> sync_step sha s (sync_read sha o1 s)"
| put: "sy_thread s = Putting bytes hash \<Longrightarrow> sync_step sha s (sync_put r lost s)"
| late: "bytes \<in> set (sy_loose s) \<Longrightarrow> sync_step sha s (s\<lparr>sy_remote := Some bytes\<rparr>)"
| finish: "sy_thread s = Finishing \<Longrightarrow> sync_step sha s (sync_finish s)"
| disable: "sync_step sha s (sync_disable s)"
| tdlib_writes: "sync_step sha s (s\<lparr>sy_file := f\<rparr>)"

inductive sync_reach :: "(string \<Rightarrow> string) \<Rightarrow> sync_state \<Rightarrow> sync_state \<Rightarrow> bool" for sha s0 where
  here: "sync_reach sha s0 s0"
| more: "sync_reach sha s0 s \<Longrightarrow> sync_step sha s s' \<Longrightarrow> sync_reach sha s0 s'"

definition sync_inv :: "(string \<Rightarrow> string) \<Rightarrow> sync_state \<Rightarrow> bool" where
  "sync_inv sha s \<longleftrightarrow>
     sg_running (sy_gate s) = (sy_thread s \<noteq> NoThread) \<and> sg_in_flight (sy_gate s) = sg_running (sy_gate s)
     \<and> (sg_pending (sy_gate s) \<longrightarrow> sg_running (sy_gate s))
     \<and> sy_threads s = (if sy_thread s = NoThread then 0 else 1)
     \<and> (sy_owed s \<longrightarrow> sy_thread s = Starting \<or> sg_pending (sy_gate s))
     \<and> (\<forall>bytes hash. sy_thread s = Putting bytes hash \<longrightarrow> hash = sha bytes)
     \<and> (sy_last_hash s = [] \<or> (\<exists>bytes. sy_remote s = Some bytes \<and> (sha bytes = sy_last_hash s \<or> bytes \<in> set (sy_loose s))))"

lemma sync_step_inv: "sync_step sha s s' \<Longrightarrow> sync_inv sha s \<Longrightarrow> sync_inv sha s'"
proof (induction rule: sync_step.induct)
  case (tick s)
  then show ?case by (auto simp: sync_inv_def sync_tick_def tryStart_def Let_def)
next
  case (check s)
  then show ?case by (auto simp: sync_inv_def sync_check_def)
next
  case (read s o1)
  then show ?case by (auto simp: sync_inv_def sync_read_def split: option.split)
next
  case (put s bytes hash r lost)
  then show ?case by (auto simp: sync_inv_def sync_put_def Let_def)
next
  case (finish s)
  then show ?case by (auto simp: sync_inv_def sync_finish_def finishStep_def Let_def)
qed (auto simp: sync_inv_def sync_disable_def)

lemma sync_reach_inv: "sync_reach sha (sync_init f remote) s \<Longrightarrow> sync_inv sha s"
proof (induction rule: sync_reach.induct)
  case here
  show ?case by (simp add: sync_inv_def sync_init_def gate_init_def)
next
  case (more s s')
  then show ?case using sync_step_inv by blast
qed

text \<open>A step that has passed its check will make its PUT, if it makes one, whatever is switched off meanwhile.\<close>

definition under_way :: "sync_state \<Rightarrow> nat" where
  "under_way s = (case sy_thread s of Checked \<Rightarrow> 1 | Putting _ _ \<Rightarrow> 1 | _ \<Rightarrow> 0)"

lemma under_way_simps [simp]:
  "sy_thread s = NoThread \<Longrightarrow> under_way s = 0" "sy_thread s = Starting \<Longrightarrow> under_way s = 0"
  "sy_thread s = Finishing \<Longrightarrow> under_way s = 0" "sy_thread s = Putting b h \<Longrightarrow> under_way s = 1"
  "sy_thread s = Checked \<Longrightarrow> under_way s = 1"
  by (simp_all add: under_way_def)

lemma disabled_step:
  "sync_step sha t t' \<Longrightarrow> sy_disabled t \<Longrightarrow>
   sy_disabled t' \<and> length (sy_puts t') + under_way t' \<le> length (sy_puts t) + under_way t"
proof (induction rule: sync_step.induct)
  case (tick t)
  then show ?case by (simp add: sync_tick_def tryStart_def Let_def under_way_def)
next
  case (check t)
  then show ?case by (simp add: sync_check_def)
next
  case (read t o1)
  then show ?case by (simp add: sync_read_def split: option.split)
next
  case (put t bytes hash r lost)
  then show ?case by (simp add: sync_put_def Let_def)
next
  case (late bytes t)
  then show ?case by (simp add: under_way_def)
next
  case (finish t)
  then show ?case by (simp add: sync_finish_def finishStep_def Let_def)
next
  case (disable t)
  then show ?case by (simp add: sync_disable_def under_way_def)
next
  case (tdlib_writes t f)
  then show ?case by (simp add: under_way_def)
qed

lemma disabled_puts:
  "sync_reach sha s t \<Longrightarrow> sy_disabled s \<Longrightarrow>
   sy_disabled t \<and> length (sy_puts t) + under_way t \<le> length (sy_puts s) + under_way s"
proof (induction rule: sync_reach.induct)
  case (more t t')
  then have "sy_disabled t" "length (sy_puts t) + under_way t \<le> length (sy_puts s) + under_way s" by auto
  with disabled_step [OF more(2)] show ?case by simp
qed simp

text \<open>C26: Synchronising the session, whatever ticks, pushes, file writes, answers of S3 and late effects of PUTs given up
  come in whatever order: never more than one thread runs, \<^verbatim>\<open>in_flight\<close> says exactly whether one does, a request
  made while it works is not lost, since no thread ends before a step has begun after the last request; the
  object in S3 has the hash that is remembered as pushed, or is the content of a PUT of which an attempt had
  failed or been given up; and once switched off, at most one more PUT is made, and only by a step that had
  passed its check of the switch already.\<close>

theorem sync_requests_served:
  assumes "sync_reach sha (sync_init f remote) s"
  shows "sy_threads s \<le> 1 \<and> (sg_in_flight (sy_gate s) \<longleftrightarrow> sy_threads s = 1)
    \<and> (\<not> sy_owed s \<or> sg_in_flight (sy_gate s))
    \<and> (sy_last_hash s = [] \<or> (\<exists>bytes. sy_remote s = Some bytes \<and> (sha bytes = sy_last_hash s \<or> bytes \<in> set (sy_loose s))))
    \<and> (\<forall>t. sy_disabled s \<and> sync_reach sha s t \<longrightarrow>
         length (sy_puts t) \<le> length (sy_puts s) + (case sy_thread s of Checked \<Rightarrow> 1 | Putting _ _ \<Rightarrow> 1 | _ \<Rightarrow> 0))"
proof -
  have "sync_inv sha s" using assms by (rule sync_reach_inv)
  moreover have "length (sy_puts t) \<le> length (sy_puts s) + (case sy_thread s of Checked \<Rightarrow> 1 | Putting _ _ \<Rightarrow> 1 | _ \<Rightarrow> 0)"
    if "sy_disabled s" "sync_reach sha s t" for t
    using disabled_puts [OF that(2,1)] by (simp add: under_way_def)
  ultimately show ?thesis by (auto simp: sync_inv_def)
qed

definition sample_sync :: sync_state where
  "sample_sync = sync_tick (sync_check (sync_tick (sync_init (Some (''x'', 384)) None)))"

theorem sync_requests_served_witness:
  "sy_threads sample_sync \<le> 1 \<and> sg_in_flight (sy_gate sample_sync) \<and> sy_owed sample_sync"
proof -
  let ?sha = "\<lambda>s :: string. ''h''" and ?s0 = "sync_init (Some (''x'', 384)) None"
  have "sync_reach ?sha ?s0 (sync_tick ?s0)" by (rule sync_reach.more [OF sync_reach.here]) (rule sync_step.tick)
  then have "sync_reach ?sha ?s0 (sync_check (sync_tick ?s0))"
    by (rule sync_reach.more)
      (rule sync_step.check, simp add: sync_tick_def tryStart_def sync_init_def gate_init_def Let_def)
  then have "sync_reach ?sha ?s0 sample_sync"
    unfolding sample_sync_def by (rule sync_reach.more) (rule sync_step.tick)
  from sync_requests_served [OF this] have "sy_threads sample_sync \<le> 1"
      "\<not> sy_owed sample_sync \<or> sg_in_flight (sy_gate sample_sync)" by blast+
  moreover have "sy_owed sample_sync" by (simp add: sample_sync_def sync_tick_def Let_def split: prod.split)
  ultimately show ?thesis by blast
qed

end
