(* ===== verification/S3Client.thy ===== *)
theory S3Client
  imports SessionStore
begin

text \<open>
  \<^verbatim>\<open>src/src/util/aws_sigv4.cpp\<close> and \<^verbatim>\<open>src/src/util/s3_client.cpp\<close>: the signed request for the one object of
  the configuration, its retry, and the life of the shared IO context: a loop thread that requests borrow,
  that is given up for lost when it hangs, and that may be destroyed at the very end. SHA-256 and HMAC are
  parameters, the clock's reading is an argument.
\<close>

section \<open>The signature\<close>

record crypto =
  cr_sha256Hex :: "string \<Rightarrow> string"
  cr_hmacSha256 :: "string \<Rightarrow> string \<Rightarrow> string"

definition toHex :: "string \<Rightarrow> string" where
  "toHex bytes = concat (map (\<lambda>c. [''0123456789abcdef'' ! (of_char c div 16), ''0123456789abcdef'' ! (of_char c mod 16)]) bytes)"

text \<open>The loop over the sorted headers: the canonical lines and the list of names.\<close>

fun canonical_loop :: "(string \<times> string) list \<Rightarrow> string \<Rightarrow> string \<Rightarrow> string \<times> string" where
  "canonical_loop [] lines names = (lines, names)"
| "canonical_loop ((name, v) # hs) lines names =
     canonical_loop hs (lines @ name @ '':'' @ v @ [CHR 0x0A]) ((if names = [] then [] else names @ '';'') @ name)"

definition sigv4Scope :: "string \<Rightarrow> string \<Rightarrow> string \<Rightarrow> string" where
  "sigv4Scope amz_date region service = take 8 amz_date @ ''/'' @ region @ ''/'' @ service @ ''/aws4_request''"

definition canonicalRequest :: "string \<Rightarrow> string \<Rightarrow> string \<Rightarrow> (string \<times> string) list \<Rightarrow> string \<Rightarrow> string" where
  "canonicalRequest verb uri query headers payload_hash =
     (let (lines, names) = canonical_loop headers [] []; nl = [CHR 0x0A]
      in verb @ nl @ uri @ nl @ query @ nl @ lines @ nl @ names @ nl @ payload_hash)"

definition stringToSign :: "crypto \<Rightarrow> string \<Rightarrow> string \<Rightarrow> string \<Rightarrow> string" where
  "stringToSign cr request amz_date scope =
     ''AWS4-HMAC-SHA256'' @ [CHR 0x0A] @ amz_date @ [CHR 0x0A] @ scope @ [CHR 0x0A] @ cr_sha256Hex cr request"

definition signingKey :: "crypto \<Rightarrow> string \<Rightarrow> string \<Rightarrow> string \<Rightarrow> string \<Rightarrow> string" where
  "signingKey cr secret_key date_stamp region service =
     (let k_date = cr_hmacSha256 cr (''AWS4'' @ secret_key) date_stamp;
          k_region = cr_hmacSha256 cr k_date region;
          k_service = cr_hmacSha256 cr k_region service
      in cr_hmacSha256 cr k_service ''aws4_request'')"

definition sigv4Authorization ::
  "crypto \<Rightarrow> string \<Rightarrow> string \<Rightarrow> string \<Rightarrow> (string \<times> string) list \<Rightarrow> string \<Rightarrow> string \<Rightarrow> string \<Rightarrow> string \<Rightarrow> string \<Rightarrow> string \<Rightarrow> string" where
  "sigv4Authorization cr verb uri query headers payload_hash amz_date region service access_key secret_key =
     (let scope = sigv4Scope amz_date region service;
          to_sign = stringToSign cr (canonicalRequest verb uri query headers payload_hash) amz_date scope;
          signature = toHex (cr_hmacSha256 cr (signingKey cr secret_key (take 8 amz_date) region service) to_sign)
      in ''AWS4-HMAC-SHA256 Credential='' @ access_key @ ''/'' @ scope @ '', SignedHeaders=''
         @ snd (canonical_loop headers [] []) @ '', Signature='' @ signature)"

section \<open>The request\<close>

definition unreserved :: "char \<Rightarrow> bool" where
  "unreserved c \<longleftrightarrow>
     (let n = (of_char c :: nat)
      in (65 \<le> n \<and> n \<le> 90) \<or> (97 \<le> n \<and> n \<le> 122) \<or> (48 \<le> n \<and> n \<le> 57)
         \<or> c \<in> {CHR ''-'', CHR ''_'', CHR ''.'', CHR ''~'', CHR ''/''})"

definition hexDigit :: "nat \<Rightarrow> char" where
  "hexDigit n = ''0123456789ABCDEF'' ! n"

definition uriEncodePath :: "string \<Rightarrow> string" where
  "uriEncodePath path = concat (map (\<lambda>c. if unreserved c then [c]
     else [CHR ''%'', hexDigit (of_char c div 16), hexDigit (of_char c mod 16)]) path)"

record endpoint_parts =
  ep_base :: string
  ep_hostport :: string

definition parseEndpoint :: "string \<Rightarrow> string \<Rightarrow> endpoint_parts" where
  "parseEndpoint endpoint vhost_prefix =
     (let scheme_end = find_str ''://'' endpoint;
          scheme = (case scheme_end of None \<Rightarrow> ''https'' | Some k \<Rightarrow> take k endpoint);
          rest = (case scheme_end of None \<Rightarrow> endpoint | Some k \<Rightarrow> drop (k + 3) endpoint);
          host = (case find_char CHR ''/'' rest of None \<Rightarrow> rest | Some k \<Rightarrow> take k rest);
          hostport = (if vhost_prefix = [] then host else vhost_prefix @ ''.'' @ host)
      in \<lparr>ep_base = scheme @ ''://'' @ hostport, ep_hostport = hostport\<rparr>)"

record s3_request =
  sq_put :: bool
  sq_base :: string
  sq_path :: string
  sq_headers :: "(string \<times> string) list"
  sq_body :: string

definition s3_build :: "crypto \<Rightarrow> s3_config \<Rightarrow> string \<Rightarrow> string \<Rightarrow> string \<Rightarrow> s3_request" where
  "s3_build cr c verb body amz_date =
     (let ep = parseEndpoint (s3_endpoint c) (if s3_path_style c then [] else s3_bucket c);
          object_path = ''/'' @ s3_key c;
          uri = uriEncodePath (if s3_path_style c then ''/'' @ s3_bucket c @ object_path else object_path);
          payload_hash = cr_sha256Hex cr body;
          headers = [(''host'', ep_hostport ep), (''x-amz-content-sha256'', payload_hash), (''x-amz-date'', amz_date)];
          auth = sigv4Authorization cr verb uri [] headers payload_hash amz_date (s3_region c) ''s3''
            (s3_access_key c) (s3_secret_key c)
      in \<lparr>sq_put = (verb = ''PUT''), sq_base = ep_base ep, sq_path = uri,
          sq_headers = [(''x-amz-content-sha256'', payload_hash), (''x-amz-date'', amz_date), (''Authorization'', auth)],
          sq_body = (if verb = ''PUT'' then body else [])\<rparr>)"

section \<open>Attempts\<close>

text \<open>What comes of one attempt: no callback at all, or a result, with whether it came within five seconds.\<close>

datatype attempt = Hung | Answered s3_result bool

definition transport_error :: "s3_result \<Rightarrow> bool" where
  "transport_error r \<longleftrightarrow> sr_http_status r = 0"

definition hung_result :: s3_result where
  "hung_result = \<lparr>sr_http_status = 0, sr_body = []\<rparr>"

text \<open>The loop over at most two attempts: the result, whether the context is retired, and how many were sent.\<close>

definition send_attempts :: "attempt \<Rightarrow> attempt \<Rightarrow> s3_result \<times> bool \<times> nat" where
  "send_attempts first second = (case first of
     Hung \<Rightarrow> (hung_result, True, 1)
   | Answered r fast \<Rightarrow>
       if \<not> transport_error r \<or> \<not> fast then (r, False, 1)
       else (case second of Hung \<Rightarrow> (hung_result, True, 2) | Answered r2 _ \<Rightarrow> (r2, False, 2)))"

section \<open>The shared context\<close>

text \<open>Contexts are numbered as they are made; \<open>io_users\<close> are the sends between \<^verbatim>\<open>acquire\<close> and the end of their guard.\<close>

record s3_io =
  io_current :: "nat option"
  io_made :: nat
  io_deleted :: "nat list"
  io_ever_retired :: bool
  io_in_flight :: nat
  io_users :: "nat list"

definition io_init :: s3_io where
  "io_init = \<lparr>io_current = None, io_made = 0, io_deleted = [], io_ever_retired = False, io_in_flight = 0, io_users = []\<rparr>"

definition acquireS3IoForSend :: "s3_io \<Rightarrow> nat \<times> s3_io" where
  "acquireS3IoForSend s = (case io_current s of
     None \<Rightarrow> (io_made s, s\<lparr>io_current := Some (io_made s), io_made := io_made s + 1,
                io_in_flight := io_in_flight s + 1, io_users := io_users s @ [io_made s]\<rparr>)
   | Some i \<Rightarrow> (i, s\<lparr>io_in_flight := io_in_flight s + 1, io_users := io_users s @ [i]\<rparr>))"

definition releaseS3IoSend :: "nat \<Rightarrow> s3_io \<Rightarrow> s3_io" where
  "releaseS3IoSend i s = s\<lparr>io_in_flight := io_in_flight s - 1, io_users := remove1 i (io_users s)\<rparr>"

definition retireS3Io :: "nat \<Rightarrow> s3_io \<Rightarrow> s3_io" where
  "retireS3Io i s =
     s\<lparr>io_ever_retired := True, io_current := (if io_current s = Some i then None else io_current s)\<rparr>"

definition shutdownIdleLoop :: "s3_io \<Rightarrow> bool \<times> s3_io" where
  "shutdownIdleLoop s =
     (if io_in_flight s \<noteq> 0 then (False, s)
      else (\<not> io_ever_retired s,
            s\<lparr>io_current := None,
              io_deleted := io_deleted s @ (case io_current s of None \<Rightarrow> [] | Some i \<Rightarrow> [i])\<rparr>))"

inductive io_step :: "s3_io \<Rightarrow> s3_io \<Rightarrow> bool" where
  acquire: "io_step s (snd (acquireS3IoForSend s))"
| retire: "i \<in> set (io_users s) \<Longrightarrow> io_step s (retireS3Io i s)"
| release: "i \<in> set (io_users s) \<Longrightarrow> io_step s (releaseS3IoSend i s)"
| shutdown: "io_step s (snd (shutdownIdleLoop s))"

definition io_inv :: "s3_io \<Rightarrow> bool" where
  "io_inv s \<longleftrightarrow>
     io_in_flight s = length (io_users s) \<and> distinct (io_deleted s)
     \<and> (\<forall>i \<in> set (io_users s). i \<notin> set (io_deleted s) \<and> i < io_made s)
     \<and> (\<forall>i. io_current s = Some i \<longrightarrow> i \<notin> set (io_deleted s) \<and> i < io_made s)
     \<and> set (io_deleted s) \<subseteq> {..<io_made s}
     \<and> (io_ever_retired s \<or> {..<io_made s} = set (io_deleted s) \<union> set_option (io_current s))"

lemma io_init_inv: "io_inv io_init"
  by (simp add: io_inv_def io_init_def)

lemma acquire_inv: "io_inv s \<Longrightarrow> io_inv (snd (acquireS3IoForSend s))"
proof (cases "io_current s")
  case None
  assume inv: "io_inv s"
  then have "io_made s \<notin> set (io_deleted s)" by (auto simp: io_inv_def)
  moreover have "{..<Suc (io_made s)} = insert (io_made s) {..<io_made s}" by (rule lessThan_Suc)
  ultimately show ?thesis
    using inv None by (auto simp: io_inv_def acquireS3IoForSend_def less_Suc_eq)
next
  case (Some i)
  assume "io_inv s"
  with Some show ?thesis by (auto simp: io_inv_def acquireS3IoForSend_def)
qed

lemma io_step_inv: "io_step s s' \<Longrightarrow> io_inv s \<Longrightarrow> io_inv s'"
proof (induction rule: io_step.induct)
  case (acquire s)
  then show ?case by (rule acquire_inv)
next
  case (retire i s)
  then show ?case by (auto simp: io_inv_def retireS3Io_def)
next
  case (release i s)
  then show ?case by (auto simp: io_inv_def releaseS3IoSend_def length_remove1 dest: notin_set_remove1)
next
  case (shutdown s)
  then show ?case by (auto simp: io_inv_def shutdownIdleLoop_def split: option.split)
qed

lemma io_steps_inv: "io_step\<^sup>*\<^sup>* io_init s \<Longrightarrow> io_inv s"
  by (induction rule: rtranclp_induct) (auto intro: io_init_inv io_step_inv)

text \<open>C27: The shared loop thread of the S3 client: however requests start, hang, end and the shutdown is tried, no
  request ever holds a context that was destroyed and none is destroyed twice; and when the shutdown reports a
  clean end, every context ever made has been destroyed, so no thread of the client is left.\<close>

theorem s3_context_safe:
  assumes "io_step\<^sup>*\<^sup>* io_init s"
  shows "set (io_users s) \<inter> set (io_deleted s) = {} \<and> distinct (io_deleted s)
    \<and> (\<not> fst (shutdownIdleLoop s)
       \<or> io_users s = [] \<and> set (io_deleted (snd (shutdownIdleLoop s))) = {..<io_made s})"
  using io_steps_inv [OF assms] by (auto simp: io_inv_def shutdownIdleLoop_def split: option.split)

theorem s3_context_safe_witness:
  "distinct (io_deleted (snd (shutdownIdleLoop (releaseS3IoSend 0 (snd (acquireS3IoForSend io_init))))))"
proof -
  let ?a = "snd (acquireS3IoForSend io_init)"
  have "io_step io_init ?a" by (rule io_step.acquire)
  moreover have "io_step ?a (releaseS3IoSend 0 ?a)"
    by (rule io_step.release) (simp add: acquireS3IoForSend_def io_init_def)
  moreover have "io_step (releaseS3IoSend 0 ?a) (snd (shutdownIdleLoop (releaseS3IoSend 0 ?a)))" by (rule io_step.shutdown)
  ultimately have "io_step\<^sup>*\<^sup>* io_init (snd (shutdownIdleLoop (releaseS3IoSend 0 ?a)))"
    by (meson rtranclp.rtrancl_into_rtrancl rtranclp.rtrancl_refl)
  from s3_context_safe [OF this] show ?thesis by blast
qed

section \<open>Facts about the request\<close>

lemma canonical_loop_gen:
  "canonical_loop hs lines names =
     (lines @ concat (map (\<lambda>(n, v). n @ '':'' @ v @ [CHR 0x0A]) hs),
      fold (\<lambda>h ns. (if ns = [] then [] else ns @ '';'') @ fst h) hs names)"
  by (induction hs arbitrary: lines names) auto

text \<open>A retry happens once at most, and only after an error that came fast.\<close>

lemma send_attempts_bounded:
  "send_attempts a b = (r, retired, n) \<Longrightarrow>
   n \<le> 2 \<and> (n = 2 \<longleftrightarrow> (\<exists>r1. a = Answered r1 True \<and> transport_error r1)) \<and> (retired \<longrightarrow> r = hung_result)"
  by (auto simp: send_attempts_def split: attempt.splits if_splits)

fun hexValue :: "char \<Rightarrow> nat" where
  "hexValue c = (if is_digit c then digit_val c else of_char c - 55)"

fun uriDecode :: "string \<Rightarrow> string" where
  "uriDecode (c # a # b # r) =
     (if c = CHR ''%'' then char_of (16 * hexValue a + hexValue b) # uriDecode r else c # uriDecode (a # b # r))"
| "uriDecode r = r"

lemma hexValue_digit: "n < 16 \<Longrightarrow> hexValue (hexDigit n) = n"
proof -
  assume "n < 16"
  moreover have "list_all (\<lambda>d. hexValue (hexDigit d) = d) [0..<16]" by code_simp
  ultimately show ?thesis by (simp add: list_all_iff)
qed

lemma uriDecode_cons: "c \<noteq> CHR ''%'' \<Longrightarrow> uriDecode (c # s) = c # uriDecode s"
  by (cases s rule: uriDecode.cases) (auto split: list.splits)

lemma of_char_byte: "(of_char c :: nat) < 256"
  by (metis of_char_of of_char_mod_256 mod_less_divisor zero_less_numeral)

text \<open>The encoding of the path can be undone, so different objects have different addresses.\<close>

lemma uri_encode_roundtrip: "uriDecode (uriEncodePath p) = p"
proof (induction p)
  case Nil
  then show ?case by (simp add: uriEncodePath_def)
next
  case (Cons c p)
  have e: "uriEncodePath (c # p) = (if unreserved c then [c] else [CHR ''%'', hexDigit (of_char c div 16), hexDigit (of_char c mod 16)])
      @ uriEncodePath p" by (simp add: uriEncodePath_def)
  show ?case
  proof (cases "unreserved c")
    case True
    then have "c \<noteq> CHR ''%''" by (auto simp: unreserved_def)
    with True Cons.IH show ?thesis by (simp add: e uriDecode_cons)
  next
    case False
    have "(of_char c :: nat) div 16 < 16" using of_char_byte [of c] by (intro less_mult_imp_div_less) linarith
    then show ?thesis using False Cons.IH by (simp add: e hexValue_digit del: hexValue.simps)
  qed
qed

end
