(* ===== verification/UpdateRouter.thy ===== *)
theory UpdateRouter
  imports Dto
begin

text \<open>
  \<^verbatim>\<open>src/src/ws/update_router.{hpp,cpp}\<close>: what the gateway does with an update from TDLib. The components
  it calls (the authorization state, the send tracker, the WebSocket registry, the event publisher, the
  webhook hook) see a sequence of calls, which is what \<open>onUpdate\<close> returns, in order; the optional ones
  are called only when they were installed before the start. Writing a document as compact text is the
  parameter \<open>writer\<close>.
\<close>

record router =
  ro_session :: string
  ro_seq :: u64
  ro_has_publisher :: bool
  ro_has_ready_cb :: bool
  ro_has_tracker :: bool
  ro_has_webhook :: bool

datatype router_effect =
    AuthUpdate td_object
  | ConnectionReady
  | ResolveSucceeded int json
  | ResolveFailed int int string
  | FanOut string "(string \<times> json) list" string
  | Publish string string
  | WebhookHook message

section \<open>The projection of an update\<close>

definition idArray :: "int list \<Rightarrow> json" where
  "idArray ids = JArr (map jid ids)"

definition sendResultData :: "int \<Rightarrow> message option \<Rightarrow> (string \<times> json) list" where
  "sendResultData old m =
     [(''old_message_id'', jid old)] @ (case m of None \<Rightarrow> [] | Some m \<Rightarrow> [(''message'', messageToJson m)])"

definition buildForwardable :: "td_object \<Rightarrow> (string \<times> (string \<times> json) list) option" where
  "buildForwardable u = (case u of
     UpdateNewMessage None \<Rightarrow> None
   | UpdateNewMessage (Some m) \<Rightarrow> Some (''updateNewMessage'', messageFields m)
   | UpdateMessageSendSucceeded old m \<Rightarrow> Some (''updateMessageSendSucceeded'', sendResultData old m)
   | UpdateMessageSendFailed old m _ \<Rightarrow> Some (''updateMessageSendFailed'', sendResultData old m)
   | UpdateNewChat None \<Rightarrow> None
   | UpdateNewChat (Some c) \<Rightarrow> Some (''updateNewChat'', chatFields c)
   | UpdateMessageInteractionInfo cid mid info \<Rightarrow>
       Some (''updateMessageInteractionInfo'',
         [(''chat_id'', jid cid), (''message_id'', jid mid),
          (''reactions'', case info of Some (Some rs) \<Rightarrow> reactionsToJson rs | _ \<Rightarrow> JArr [])])
   | UpdateDeleteMessages cid mids \<Rightarrow>
       Some (''updateDeleteMessages'', [(''chat_id'', jid cid), (''message_ids'', idArray mids)])
   | UpdateMessageEdited cid mid date \<Rightarrow>
       Some (''updateMessageEdited'', [(''chat_id'', jid cid), (''message_id'', jid mid), (''edit_date'', JInt date)])
   | UpdateMessageContent cid mid content \<Rightarrow>
       Some (''updateMessageContent'',
         [(''chat_id'', jid cid), (''message_id'', jid mid)]
         @ (case content of None \<Rightarrow> [] | Some c \<Rightarrow> [(''new_content'', contentToJson c)]))
   | UpdateChatReadInbox cid mid unread \<Rightarrow>
       Some (''updateChatReadInbox'',
         [(''chat_id'', jid cid), (''last_read_inbox_message_id'', jid mid), (''unread_count'', JInt unread)])
   | UpdateUserStatus uid st \<Rightarrow>
       Some (''updateUserStatus'', [(''user_id'', jid uid)] @ copyStatus st)
   | UpdateChatAction cid sender cancel \<Rightarrow>
       Some (''updateChatAction'',
         [(''chat_id'', jid cid)]
         @ (case sender of Some (SenderUser i) \<Rightarrow> [(''user_id'', jid i)] | _ \<Rightarrow> [])
         @ [(''action'', JStr (if cancel = Some True then ''cancel'' else ''typing''))])
   | _ \<Rightarrow> None)"

section \<open>Routing\<close>

definition resolveEffects :: "router \<Rightarrow> td_object \<Rightarrow> router_effect list" where
  "resolveEffects ro u =
     (if \<not> ro_has_tracker ro then []
      else (case u of
              UpdateMessageSendSucceeded old (Some m) \<Rightarrow> [ResolveSucceeded old (messageToJson m)]
            | UpdateMessageSendFailed old _ (Some e) \<Rightarrow> [ResolveFailed old (err_code e) (err_message e)]
            | _ \<Rightarrow> []))"

definition eventKey :: "string \<Rightarrow> (string \<times> json) list \<Rightarrow> string" where
  "eventKey session_id data =
     (case jmember data ''chat_id'' of
        JStr cid \<Rightarrow> session_id @ '':'' @ cid
      | _ \<Rightarrow>
          (case jmember data ''message'' of
             JObj msg \<Rightarrow>
               (case jmember msg ''chat_id'' of
                  JStr cid \<Rightarrow> session_id @ '':'' @ cid
                | _ \<Rightarrow> session_id)
           | _ \<Rightarrow> session_id))"

definition frameFor :: "router \<Rightarrow> u64 \<Rightarrow> string \<Rightarrow> (string \<times> json) list \<Rightarrow> (string \<times> json) list" where
  "frameFor ro sq ty data =
     [(''type'', JStr ''update''), (''update_type'', JStr ty), (''seq'', JInt (uint sq)),
      (''session_id'', JStr (ro_session ro)), (''data'', JObj data)]"

definition webhookEffects :: "router \<Rightarrow> td_object \<Rightarrow> router_effect list" where
  "webhookEffects ro u =
     (case u of UpdateNewMessage (Some m) \<Rightarrow> if ro_has_webhook ro then [WebhookHook m] else [] | _ \<Rightarrow> [])"

text \<open>The part of \<^verbatim>\<open>onUpdate\<close> from the resolving of the send tracker on.\<close>

definition forwardUpdate :: "(json \<Rightarrow> string) \<Rightarrow> td_object \<Rightarrow> router \<Rightarrow> router \<times> router_effect list" where
  "forwardUpdate writer u ro =
     (case buildForwardable u of
        None \<Rightarrow> (ro, resolveEffects ro u)
      | Some (ty, data) \<Rightarrow>
          (let sq = ro_seq ro + 1;
               frame = frameFor ro sq ty data;
               payload = writer (JObj frame)
           in (ro\<lparr>ro_seq := sq\<rparr>,
               resolveEffects ro u
               @ [FanOut ty frame payload]
               @ (if ro_has_publisher ro then [Publish (eventKey (ro_session ro) data) payload] else [])
               @ webhookEffects ro u)))"

definition onUpdate :: "(json \<Rightarrow> string) \<Rightarrow> td_object option \<Rightarrow> router \<Rightarrow> router \<times> router_effect list" where
  "onUpdate writer update ro = (case update of
     None \<Rightarrow> (ro, [])
   | Some (UpdateAuthorizationState s) \<Rightarrow> (ro, [AuthUpdate (UpdateAuthorizationState s)])
   | Some (UpdateConnectionState st) \<Rightarrow>
       (ro, if ro_has_ready_cb ro \<and> st = Some True then [ConnectionReady] else [])
   | Some u \<Rightarrow> forwardUpdate writer u ro)"

fun route_all :: "(json \<Rightarrow> string) \<Rightarrow> td_object option list \<Rightarrow> router \<Rightarrow> router \<times> router_effect list" where
  "route_all writer [] ro = (ro, [])"
| "route_all writer (u # us) ro =
     (let (ro1, e1) = onUpdate writer u ro; (ro2, e2) = route_all writer us ro1 in (ro2, e1 @ e2))"

section \<open>Facts\<close>

text \<open>The chat an update is about, and whether it is one that the clients see.\<close>

definition chatOf :: "td_object \<Rightarrow> int option" where
  "chatOf u = (case u of
     UpdateNewMessage (Some m) \<Rightarrow> Some (m_chat_id m)
   | UpdateMessageSendSucceeded _ (Some m) \<Rightarrow> Some (m_chat_id m)
   | UpdateMessageSendFailed _ (Some m) _ \<Rightarrow> Some (m_chat_id m)
   | UpdateMessageInteractionInfo cid _ _ \<Rightarrow> Some cid
   | UpdateDeleteMessages cid _ \<Rightarrow> Some cid
   | UpdateMessageEdited cid _ _ \<Rightarrow> Some cid
   | UpdateMessageContent cid _ _ \<Rightarrow> Some cid
   | UpdateChatReadInbox cid _ _ \<Rightarrow> Some cid
   | UpdateChatAction cid _ _ \<Rightarrow> Some cid
   | _ \<Rightarrow> None)"

fun fanOuts :: "router_effect list \<Rightarrow> (string \<times> json) list list" where
  "fanOuts [] = []"
| "fanOuts (FanOut ty frame payload # es) = frame # fanOuts es"
| "fanOuts (_ # es) = fanOuts es"

lemma fanOuts_append [simp]: "fanOuts (a @ b) = fanOuts a @ fanOuts b"
  by (induction a rule: fanOuts.induct) auto

lemma fanOuts_parts [simp]: "fanOuts (resolveEffects ro u) = []" "fanOuts (webhookEffects ro u) = []"
  by (simp_all add: resolveEffects_def webhookEffects_def split: td_object.splits option.splits)

lemma onUpdate_cases:
  obtains (silent) "onUpdate writer update ro = (ro, [])"
    | (authorization) s where "update = Some (UpdateAuthorizationState s)"
        "onUpdate writer update ro = (ro, [AuthUpdate (UpdateAuthorizationState s)])"
    | (connection) st where "update = Some (UpdateConnectionState st)"
        "onUpdate writer update ro = (ro, [ConnectionReady])"
    | (forward) u where "update = Some u" "onUpdate writer update ro = forwardUpdate writer u ro"
proof (cases update)
  case None
  then show ?thesis using silent by (simp add: onUpdate_def)
next
  case (Some u)
  consider (a) s where "u = UpdateAuthorizationState s" | (c) st where "u = UpdateConnectionState st"
    | (f) "\<forall>s. u \<noteq> UpdateAuthorizationState s" "\<forall>st. u \<noteq> UpdateConnectionState st" by blast
  then show ?thesis
  proof cases
    case a
    then show ?thesis using Some authorization by (simp add: onUpdate_def)
  next
    case c
    then show ?thesis
      using Some connection silent by (cases "ro_has_ready_cb ro \<and> st = Some True") (auto simp: onUpdate_def)
  next
    case f
    then have "onUpdate writer update ro = forwardUpdate writer u ro"
      using Some by (cases u) (simp_all add: onUpdate_def)
    then show ?thesis using Some forward by blast
  qed
qed

lemma forwardUpdate_fanOuts:
  assumes "forwardUpdate writer u ro = (ro', es)"
  shows "(ro' = ro \<and> fanOuts es = []) \<or>
   (ro' = ro\<lparr>ro_seq := ro_seq ro + 1\<rparr> \<and> (\<exists>f. fanOuts es = [f] \<and> jmember f ''seq'' = JInt (uint (ro_seq ro + 1))))"
  using assms by (cases "buildForwardable u") (auto simp: forwardUpdate_def Let_def frameFor_def)

lemma onUpdate_seq:
  assumes "onUpdate writer update ro = (ro', es)"
  shows "(ro' = ro \<and> fanOuts es = []) \<or>
   (ro' = ro\<lparr>ro_seq := ro_seq ro + 1\<rparr> \<and> (\<exists>f. fanOuts es = [f] \<and> jmember f ''seq'' = JInt (uint (ro_seq ro + 1))))"
proof (cases rule: onUpdate_cases [of writer update ro])
  case (forward u)
  then show ?thesis using assms forwardUpdate_fanOuts [of writer u ro ro' es] by simp
qed (use assms in auto)

lemma seqs_shift:
  "map (\<lambda>i. g (q + of_nat i)) [1..<Suc (Suc n)] = g (q + 1) # map (\<lambda>i. g (q + 1 + of_nat i)) [1..<Suc n]"
  for q :: u64
proof -
  have "[1..<Suc (Suc n)] = 1 # map Suc [1..<Suc n]"
    by (simp only: map_Suc_upt upt_conv_Cons [of 1 "Suc (Suc n)"])
  then show ?thesis by (simp add: ac_simps del: upt_Suc)
qed

lemma route_all_seq:
  "route_all writer us ro = (ro', es) \<Longrightarrow>
   map (\<lambda>f. jmember f ''seq'') (fanOuts es) =
     map (\<lambda>i. JInt (uint (ro_seq ro + of_nat i))) [1..<Suc (length (fanOuts es))]
   \<and> ro_seq ro' = ro_seq ro + of_nat (length (fanOuts es))"
proof (induction us arbitrary: ro ro' es)
  case Nil
  then show ?case by auto
next
  case (Cons u us)
  obtain ro1 e1 where 1: "onUpdate writer u ro = (ro1, e1)" by fastforce
  obtain ro2 e2 where 2: "route_all writer us ro1 = (ro2, e2)" by fastforce
  have r: "ro' = ro2" "es = e1 @ e2" using Cons.prems 1 2 by auto
  note IH = Cons.IH [OF 2]
  from onUpdate_seq [OF 1] show ?case
  proof
    assume "ro1 = ro \<and> fanOuts e1 = []"
    then show ?thesis using IH r by (simp del: upt_Suc)
  next
    assume "ro1 = ro\<lparr>ro_seq := ro_seq ro + 1\<rparr> \<and> (\<exists>f. fanOuts e1 = [f] \<and> jmember f ''seq'' = JInt (uint (ro_seq ro + 1)))"
    then obtain f where f: "ro_seq ro1 = ro_seq ro + 1" "fanOuts e1 = [f]" "jmember f ''seq'' = JInt (uint (ro_seq ro + 1))"
      by auto
    have es: "fanOuts es = f # fanOuts e2" using f(2) r by simp
    show ?thesis
      unfolding es list.map length_Cons seqs_shift [of "\<lambda>x. JInt (uint x)"]
      using IH f(1,3) r(1) by (simp del: upt_Suc)
  qed
qed

lemma eventKey_chat: "jmember data ''chat_id'' = jid c \<Longrightarrow> eventKey s data = s @ '':'' @ int_to_string c"
  by (simp add: eventKey_def jid_def)

lemma buildForwardable_key:
  assumes "buildForwardable u = Some (ty, data)"
  shows "eventKey s data = (case chatOf u of Some c \<Rightarrow> s @ '':'' @ int_to_string c | None \<Rightarrow> s)"
proof -
  have st: "jmember (copyStatus x) ''chat_id'' = JNull" "jmember (copyStatus x) ''message'' = JNull" for x
    by (auto simp: copyStatus_def userStatusFields_def Let_def split: option.splits user_status.splits)
  have ch: "jmember (chatFields c) ''chat_id'' = JNull" "jmember (chatFields c) ''message'' = JNull" for c
    by (auto simp: chatFields_def split: option.splits chat_type.splits)
  show ?thesis
    using assms st ch
    by (cases u)
      (auto simp: buildForwardable_def chatOf_def eventKey_def jid_def sendResultData_def messageToJson_def
        split: option.splits)
qed

lemma resolve_no_forward [simp]:
  "FanOut ty f p \<notin> set (resolveEffects ro u)" "Publish k p \<notin> set (resolveEffects ro u)"
  "WebhookHook m \<notin> set (resolveEffects ro u)" "AuthUpdate a \<notin> set (resolveEffects ro u)"
  by (simp_all add: resolveEffects_def split: td_object.splits option.splits)

lemma webhook_only [simp]:
  "FanOut ty f p \<notin> set (webhookEffects ro u)" "Publish k p \<notin> set (webhookEffects ro u)"
  "AuthUpdate a \<notin> set (webhookEffects ro u)"
  "WebhookHook m \<in> set (webhookEffects ro u) \<longleftrightarrow> ro_has_webhook ro \<and> u = UpdateNewMessage (Some m)"
  by (auto simp: webhookEffects_def split: td_object.splits option.splits)

lemma buildForwardable_None [simp]:
  "buildForwardable (UpdateAuthorizationState s) = None" "buildForwardable (UpdateConnectionState st) = None"
  by (simp_all add: buildForwardable_def)

definition routerInit :: "string \<Rightarrow> router" where
  "routerInit session_id = \<lparr>ro_session = session_id, ro_seq = 0, ro_has_publisher = False,
     ro_has_ready_cb = False, ro_has_tracker = False, ro_has_webhook = False\<rparr>"

section \<open>What the router promises\<close>

text \<open>the frames the clients see are numbered 1, 2, 3 and so on without a gap, whatever updates come and
  whichever of them are not for the clients; so a client that sees a gap has lost a frame.\<close>

theorem frame_numbers_consecutive:
  "map (\<lambda>f. jmember f ''seq'') (fanOuts (snd (route_all writer us (routerInit session_id)))) =
   map (\<lambda>i. JInt (uint (of_nat i :: u64))) [1..<Suc (length (fanOuts (snd (route_all writer us (routerInit session_id)))))]"
  using route_all_seq [of writer us "routerInit session_id"]
  by (cases "route_all writer us (routerInit session_id)") (simp add: routerInit_def del: upt_Suc)

text \<open>C38: what leaves the process for one update. Authorization updates go to the authorization state alone. An
  update is published exactly when it was fanned out and a publisher is installed, with the very
  payload, under the account's id followed by the id of the chat the update is about, if it is about
  one: events of one chat share a key. The webhook hook sees exactly the new messages.\<close>

theorem update_effects:
  assumes "onUpdate writer (Some u) ro = (ro', es)"
  shows "((\<exists>ty f p. FanOut ty f p \<in> set es) \<longleftrightarrow> buildForwardable u \<noteq> None)
    \<and> (Publish k p \<in> set es \<longleftrightarrow> ro_has_publisher ro \<and> (\<exists>ty f. FanOut ty f p \<in> set es)
        \<and> k = (case chatOf u of Some c \<Rightarrow> ro_session ro @ '':'' @ int_to_string c | None \<Rightarrow> ro_session ro))
    \<and> (WebhookHook m \<in> set es \<longleftrightarrow> ro_has_webhook ro \<and> u = UpdateNewMessage (Some m))
    \<and> ((\<exists>s. u = UpdateAuthorizationState s) \<longleftrightarrow> es = [AuthUpdate u])"
proof (cases "\<exists>s. u = UpdateAuthorizationState s")
  case True
  then obtain s where s: "u = UpdateAuthorizationState s" by blast
  then have "es = [AuthUpdate u]" using assms by (simp add: onUpdate_def)
  then show ?thesis using s by simp
next
  case na: False
  show ?thesis
  proof (cases "\<exists>st. u = UpdateConnectionState st")
    case True
    then obtain st where st: "u = UpdateConnectionState st" by blast
    then have "es = [ConnectionReady] \<or> es = []" using assms by (auto simp: onUpdate_def split: if_splits)
    then show ?thesis using st by auto
  next
    case False
    with na assms have fw: "forwardUpdate writer u ro = (ro', es)" by (cases u) (simp_all add: onUpdate_def)
    show ?thesis
    proof (cases "buildForwardable u")
      case None
      then have es: "es = resolveEffects ro u" using fw by (auto simp: forwardUpdate_def)
      have "es \<noteq> [AuthUpdate u]" unfolding es by (metis list.set_intros(1) resolve_no_forward(4))
      moreover have "\<not> (\<exists>m. u = UpdateNewMessage (Some m))" using None by (auto simp: buildForwardable_def)
      ultimately show ?thesis using None na unfolding es by auto
    next
      case (Some td)
      obtain ty data where td: "td = (ty, data)" by (cases td)
      have key: "eventKey (ro_session ro) data = (case chatOf u of Some c \<Rightarrow> ro_session ro @ '':'' @ int_to_string c | None \<Rightarrow> ro_session ro)"
        by (rule buildForwardable_key) (simp add: Some td)
      let ?f = "frameFor ro (ro_seq ro + 1) ty data"
      have es: "es = resolveEffects ro u @ [FanOut ty ?f (writer (JObj ?f))]
          @ (if ro_has_publisher ro then [Publish (eventKey (ro_session ro) data) (writer (JObj ?f))] else [])
          @ webhookEffects ro u"
        using fw Some td by (auto simp: forwardUpdate_def Let_def)
      have "FanOut ty ?f (writer (JObj ?f)) \<in> set es" unfolding es by simp
      then have "es \<noteq> [AuthUpdate u]" by auto
      then show ?thesis using Some na unfolding key [symmetric] by (auto simp: es)
    qed
  qed
qed

theorem update_effects_witness:
  "\<exists>es p. Publish ''acc:-100'' p \<in> set es \<and>
     (\<exists>ro'. onUpdate (\<lambda>_. ''json'') (Some (UpdateDeleteMessages (-100) [1]))
        ((routerInit ''acc'')\<lparr>ro_has_publisher := True\<rparr>) = (ro', es))"
proof -
  let ?ro = "(routerInit ''acc'')\<lparr>ro_has_publisher := True\<rparr>"
  obtain ro' es where e: "onUpdate (\<lambda>_. ''json'') (Some (UpdateDeleteMessages (-100) [1])) ?ro = (ro', es)" by fastforce
  have f: "\<exists>ty f p. FanOut ty f p \<in> set es"
    using update_effects [OF e] by (simp add: buildForwardable_def)
  have n: "int_to_string (-100) = ''-100''" by code_simp
  from f obtain ty f p where "FanOut ty f p \<in> set es" by blast
  then have "Publish ''acc:-100'' p \<in> set es"
    using update_effects [OF e, of "''acc:-100''" p] by (auto simp: chatOf_def routerInit_def n)
  with e show ?thesis by blast
qed

end
