(* ===== verification/WebhookContext.thy ===== *)
theory WebhookContext
  imports Dto
begin

text \<open>
  \<^verbatim>\<open>src/src/ws/owner_mention_detector.hpp\<close> and \<^verbatim>\<open>src/src/webhook/context_builder.cpp\<close>: whether an incoming
  message is the owner's business, and the webhook event with the chain of messages it replies to. The
  builder asks TDLib for one parent after the other; TDLib's answers are the parameter \<open>get\<close>, from chat
  id and message id. TDLib documents a message or an error as the answer to \<^verbatim>\<open>getMessage\<close>; a null object,
  an error and, should it ever come, another object are the failure \<open>None\<close> here.
\<close>

section \<open>Detection\<close>

datatype trigger_reason = Dm | Mention | Reply

record detect_result =
  dr_triggered :: bool
  dr_reply_pending :: bool
  dr_reason :: trigger_reason

definition noTrigger :: detect_result where
  "noTrigger = \<lparr>dr_triggered = False, dr_reply_pending = False, dr_reason = Dm\<rparr>"

definition detect :: "message \<Rightarrow> int \<Rightarrow> bool \<Rightarrow> bool \<Rightarrow> detect_result" where
  "detect msg owner_id chat_is_private chat_is_broadcast =
     (if chat_is_broadcast \<or> m_is_outgoing msg then noTrigger
      else if m_sender msg = Some (SenderUser owner_id) then noTrigger
      else if m_contains_unread_mention msg
      then \<lparr>dr_triggered = True, dr_reply_pending = False, dr_reason = Mention\<rparr>
      else if (case m_reply_to msg of Some (ReplyToMessage _) \<Rightarrow> True | _ \<Rightarrow> False)
      then \<lparr>dr_triggered = False, dr_reply_pending = True, dr_reason = Reply\<rparr>
      else if chat_is_private
      then \<lparr>dr_triggered = True, dr_reply_pending = False, dr_reason = Dm\<rparr>
      else noTrigger)"

section \<open>The event\<close>

record webhook_event =
  ev_id :: string
  ev_session :: string
  ev_owner :: string
  ev_reason :: string
  ev_message :: json
  ev_chain :: "json list"
  ev_truncated :: bool
  ev_received_at :: int

definition replyParentId :: "message \<Rightarrow> int option" where
  "replyParentId m = (case m_reply_to m of Some (ReplyToMessage i) \<Rightarrow> Some i | _ \<Rightarrow> None)"

definition senderIsOwner :: "message \<Rightarrow> int \<Rightarrow> bool" where
  "senderIsOwner m owner_id \<longleftrightarrow> m_sender m = Some (SenderUser owner_id)"

text \<open>How the loop over the parents ends: no event, or the chain, whether a reply was confirmed, whether the
  chain was cut by a failure, and the parent and the count at the end.\<close>

datatype chain_end = Refused | ChainEnd "json list" bool bool int int

function chain_loop ::
  "(int \<Rightarrow> message option) \<Rightarrow> int \<Rightarrow> bool \<Rightarrow> int \<Rightarrow> int \<Rightarrow> int \<Rightarrow> json list \<Rightarrow> bool \<Rightarrow> chain_end" where
  "chain_loop get owner pending limit hops cur chain confirmed =
     (if cur \<noteq> 0 \<and> hops < limit
      then (case get cur of
              None \<Rightarrow> if hops = 0 \<and> pending then Refused else ChainEnd chain confirmed True cur hops
            | Some parent \<Rightarrow>
                if hops = 0 \<and> pending \<and> \<not> senderIsOwner parent owner then Refused
                else chain_loop get owner pending limit (hops + 1)
                       (case replyParentId parent of Some p \<Rightarrow> p | None \<Rightarrow> 0)
                       (chain @ [webhookMessageToJson parent])
                       (confirmed \<or> (hops = 0 \<and> pending)))
      else ChainEnd chain confirmed False cur hops)"
  by pat_completeness auto
termination
  by (relation "measure (\<lambda>(get, owner, pending, limit, hops, cur, chain, confirmed). nat (limit - hops))") auto

declare chain_loop.simps [simp del]

definition reasonName :: "trigger_reason \<Rightarrow> string" where
  "reasonName r = (case r of Mention \<Rightarrow> ''mention'' | Dm \<Rightarrow> ''dm'' | Reply \<Rightarrow> ''reply'')"

definition mk_event :: "message \<Rightarrow> int \<Rightarrow> string \<Rightarrow> int \<Rightarrow> json list \<Rightarrow> bool \<Rightarrow> string \<Rightarrow> webhook_event" where
  "mk_event msg owner_id session_id received_at chain truncated reason =
     \<lparr>ev_id = session_id @ '':'' @ int_to_string (m_chat_id msg) @ '':'' @ int_to_string (m_id msg),
      ev_session = session_id, ev_owner = int_to_string owner_id, ev_reason = reason,
      ev_message = webhookMessageToJson msg, ev_chain = chain, ev_truncated = truncated,
      ev_received_at = received_at\<rparr>"

definition buildEvent ::
  "(int \<Rightarrow> int \<Rightarrow> message option) \<Rightarrow> message \<Rightarrow> detect_result \<Rightarrow> int \<Rightarrow> string \<Rightarrow> int \<Rightarrow> int \<Rightarrow> webhook_event option" where
  "buildEvent get msg det owner_id session_id received_at chain_limit =
     (let mk = mk_event msg owner_id session_id received_at
      in if dr_reply_pending det \<and> chain_limit \<le> 0 then None
         else (case replyParentId msg of
                 None \<Rightarrow> if dr_reply_pending det then None else Some (mk [] False (reasonName (dr_reason det)))
               | Some parent \<Rightarrow>
                   (case chain_loop (get (m_chat_id msg)) owner_id (dr_reply_pending det) chain_limit 0 parent [] False of
                      Refused \<Rightarrow> None
                    | ChainEnd chain confirmed failed cur hops \<Rightarrow>
                        Some (mk chain (failed \<or> (cur \<noteq> 0 \<and> chain_limit \<le> hops))
                                (if confirmed then ''reply'' else reasonName (dr_reason det))))))"

section \<open>The chain as it should be\<close>

text \<open>At most \<open>n\<close> ancestors, following the replies as far as TDLib answers.\<close>

fun ancestors :: "(int \<Rightarrow> message option) \<Rightarrow> nat \<Rightarrow> int \<Rightarrow> message list" where
  "ancestors get 0 cur = []"
| "ancestors get (Suc n) cur =
     (if cur = 0 then []
      else (case get cur of
              None \<Rightarrow> []
            | Some m \<Rightarrow> m # ancestors get n (case replyParentId m of Some p \<Rightarrow> p | None \<Rightarrow> 0)))"

text \<open>Whether something is left beyond them: an unanswered parent, or one beyond the limit.\<close>

fun ancestors_cut :: "(int \<Rightarrow> message option) \<Rightarrow> nat \<Rightarrow> int \<Rightarrow> bool" where
  "ancestors_cut get 0 cur = (cur \<noteq> 0)"
| "ancestors_cut get (Suc n) cur =
     (if cur = 0 then False
      else (case get cur of
              None \<Rightarrow> True
            | Some m \<Rightarrow> ancestors_cut get n (case replyParentId m of Some p \<Rightarrow> p | None \<Rightarrow> 0)))"

lemma chain_loop_later:
  "0 < hops \<Longrightarrow>
   \<exists>failed cur' hops'. chain_loop get owner pending limit hops cur chain confirmed =
     ChainEnd (chain @ map webhookMessageToJson (ancestors get (nat (limit - hops)) cur)) confirmed failed cur' hops'
     \<and> (failed \<or> (cur' \<noteq> 0 \<and> limit \<le> hops') \<longleftrightarrow> ancestors_cut get (nat (limit - hops)) cur)"
proof (induction "nat (limit - hops)" arbitrary: hops cur chain)
  case 0
  then have "chain_loop get owner pending limit hops cur chain confirmed = ChainEnd chain confirmed False cur hops"
    by (subst chain_loop.simps) simp
  with 0 show ?case by (intro exI [of _ False] exI [of _ cur] exI [of _ hops]) auto
next
  case (Suc n)
  then have lt: "hops < limit" and n: "n = nat (limit - (hops + 1))" "0 < hops + 1" by auto
  have e: "nat (limit - hops) = Suc n" using Suc.hyps(2) by simp
  show ?case
  proof (cases "cur = 0")
    case True
    then have "chain_loop get owner pending limit hops cur chain confirmed = ChainEnd chain confirmed False cur hops"
      by (subst chain_loop.simps) simp
    with True show ?thesis unfolding e by (intro exI [of _ False] exI [of _ cur] exI [of _ hops]) auto
  next
    case False
    show ?thesis
    proof (cases "get cur")
      case None
      then have "chain_loop get owner pending limit hops cur chain confirmed = ChainEnd chain confirmed True cur hops"
        using False lt Suc.prems by (subst chain_loop.simps) simp
      with None False show ?thesis unfolding e by (intro exI [of _ True] exI [of _ cur] exI [of _ hops]) auto
    next
      case (Some m)
      from Suc.hyps(1) [OF n(1) n(2), of "case replyParentId m of Some p \<Rightarrow> p | None \<Rightarrow> 0"
          "chain @ [webhookMessageToJson m]"] show ?thesis
        unfolding e n(1) [symmetric] using False lt Suc.prems Some
        by (subst chain_loop.simps) simp
    qed
  qed
qed

lemma chain_loop_first:
  assumes "0 < limit" "cur \<noteq> 0"
  shows "chain_loop get owner pending limit 0 cur [] False = Refused \<longleftrightarrow>
      pending \<and> (case get cur of None \<Rightarrow> True | Some p \<Rightarrow> \<not> senderIsOwner p owner)"
    and "chain_loop get owner pending limit 0 cur [] False = ChainEnd chain confirmed failed cur' hops' \<Longrightarrow>
      chain = map webhookMessageToJson (ancestors get (nat limit) cur)
      \<and> (confirmed \<longleftrightarrow> pending)
      \<and> (failed \<or> (cur' \<noteq> 0 \<and> limit \<le> hops') \<longleftrightarrow> ancestors_cut get (nat limit) cur)"
proof -
  obtain n where n: "nat limit = Suc n" "nat (limit - 1) = n"
    using assms(1) by (cases "nat limit") auto
  have first: "chain_loop get owner pending limit 0 cur [] False =
     (case get cur of
        None \<Rightarrow> if pending then Refused else ChainEnd [] False True cur 0
      | Some p \<Rightarrow>
          if pending \<and> \<not> senderIsOwner p owner then Refused
          else chain_loop get owner pending limit 1 (case replyParentId p of Some p \<Rightarrow> p | None \<Rightarrow> 0)
                 [webhookMessageToJson p] pending)"
    using assms by (subst chain_loop.simps) (simp split: option.split)
  note later = chain_loop_later [of 1 get owner pending limit, simplified n]
  show "chain_loop get owner pending limit 0 cur [] False = Refused \<longleftrightarrow>
      pending \<and> (case get cur of None \<Rightarrow> True | Some p \<Rightarrow> \<not> senderIsOwner p owner)"
  proof (cases "get cur")
    case (Some p)
    with later [of "case replyParentId p of Some p \<Rightarrow> p | None \<Rightarrow> 0" "[webhookMessageToJson p]" pending]
    show ?thesis unfolding first by auto
  qed (simp add: first)
  show "chain = map webhookMessageToJson (ancestors get (nat limit) cur)
      \<and> (confirmed \<longleftrightarrow> pending)
      \<and> (failed \<or> (cur' \<noteq> 0 \<and> limit \<le> hops') \<longleftrightarrow> ancestors_cut get (nat limit) cur)"
    if "chain_loop get owner pending limit 0 cur [] False = ChainEnd chain confirmed failed cur' hops'"
  proof (cases "get cur")
    case None
    with that show ?thesis unfolding first n using assms(2) by (auto split: if_splits)
  next
    case (Some p)
    with that have "chain_loop get owner pending limit 1 (case replyParentId p of Some p \<Rightarrow> p | None \<Rightarrow> 0)
        [webhookMessageToJson p] pending = ChainEnd chain confirmed failed cur' hops'"
      unfolding first by (auto split: if_splits)
    with later [of "case replyParentId p of Some p \<Rightarrow> p | None \<Rightarrow> 0" "[webhookMessageToJson p]" pending] Some
    show ?thesis unfolding n using assms(2) by auto
  qed
qed

section \<open>Properties\<close>

lemma ancestors_length: "length (ancestors get n cur) \<le> n"
  by (induction get n cur rule: ancestors.induct) (auto split: option.splits)

lemma ancestors_zero [simp]: "ancestors get n 0 = []" "\<not> ancestors_cut get n 0"
  by (cases n; simp)+

text \<open>The whole of \<open>buildEvent\<close> without its loop, for a parent that exists.\<close>

lemma buildEvent_parent:
  assumes "replyParentId msg = Some parent" "parent \<noteq> 0" "0 < chain_limit"
  shows "buildEvent get msg det owner session received_at chain_limit =
    (if dr_reply_pending det
        \<and> (case get (m_chat_id msg) parent of None \<Rightarrow> True | Some p \<Rightarrow> \<not> senderIsOwner p owner)
     then None
     else Some (mk_event msg owner session received_at
                  (map webhookMessageToJson (ancestors (get (m_chat_id msg)) (nat chain_limit) parent))
                  (ancestors_cut (get (m_chat_id msg)) (nat chain_limit) parent)
                  (if dr_reply_pending det then ''reply'' else reasonName (dr_reason det))))"
proof (cases "chain_loop (get (m_chat_id msg)) owner (dr_reply_pending det) chain_limit 0 parent [] False")
  case Refused
  then show ?thesis
    using assms chain_loop_first(1) [OF assms(3,2), of "get (m_chat_id msg)" owner "dr_reply_pending det"]
    by (simp add: buildEvent_def Let_def)
next
  case (ChainEnd chain confirmed failed cur hops)
  moreover from ChainEnd have "\<not> (dr_reply_pending det
        \<and> (case get (m_chat_id msg) parent of None \<Rightarrow> True | Some p \<Rightarrow> \<not> senderIsOwner p owner))"
    using chain_loop_first(1) [OF assms(3,2), of "get (m_chat_id msg)" owner "dr_reply_pending det"] by auto
  ultimately show ?thesis
    using assms chain_loop_first(2) [OF assms(3,2) ChainEnd]
    by (simp add: buildEvent_def Let_def)
qed

lemma buildEvent_refused:
  "dr_reply_pending det \<Longrightarrow> chain_limit \<le> 0 \<or> replyParentId msg = None \<Longrightarrow>
   buildEvent get msg det owner session received_at chain_limit = None"
  by (auto simp: buildEvent_def Let_def split: option.split)

lemma detect_pending:
  "dr_reply_pending (detect msg owner priv bc) \<longleftrightarrow>
     \<not> bc \<and> \<not> m_is_outgoing msg \<and> \<not> senderIsOwner msg owner \<and> \<not> m_contains_unread_mention msg
     \<and> replyParentId msg \<noteq> None"
  by (auto simp: detect_def noTrigger_def senderIsOwner_def replyParentId_def split: option.split reply_to.split)

text \<open>A message that only a reply can make the owner's business is delivered only when the message it
  answers was fetched and is the owner's own: the event says \<open>reply\<close>, its message is somebody else's, and its
  chain starts with the owner's message, provided TDLib named the answered message (its id is not 0).\<close>

theorem reply_event_verified:
  assumes "buildEvent get msg det owner session received_at chain_limit = Some ev"
    and "det = detect msg owner is_private broadcast" "dr_reply_pending det"
    and "replyParentId msg \<noteq> Some 0"
  shows "\<exists>parent p. replyParentId msg = Some parent \<and> get (m_chat_id msg) parent = Some p
    \<and> senderIsOwner p owner \<and> \<not> senderIsOwner msg owner \<and> \<not> m_is_outgoing msg \<and> \<not> broadcast
    \<and> ev_reason ev = ''reply'' \<and> take 1 (ev_chain ev) = [webhookMessageToJson p]"
proof -
  have "\<not> (chain_limit \<le> 0 \<or> replyParentId msg = None)"
    using assms(1,3) buildEvent_refused by fastforce
  then obtain parent where par: "replyParentId msg = Some parent" "parent \<noteq> 0" "0 < chain_limit"
    using assms(4) by auto
  note ev = assms(1) [unfolded buildEvent_parent [OF par]]
  obtain p where p: "get (m_chat_id msg) parent = Some p" "senderIsOwner p owner"
    using ev assms(3) by (cases "get (m_chat_id msg) parent") (auto split: if_splits)
  obtain n where n: "nat chain_limit = Suc n" using par(3) by (cases "nat chain_limit") auto
  show ?thesis
    using ev p par assms(3) assms(3) [unfolded assms(2) detect_pending] by (auto simp: mk_event_def n)
qed

text \<open>The chain of an event is the answered messages from the nearest outwards, as far as TDLib answers and
  never more than the limit, and it is marked as cut exactly when an answered message is missing from it.\<close>

theorem event_chain:
  assumes "buildEvent get msg det owner session received_at chain_limit = Some ev"
    and "replyParentId msg = Some parent" "parent \<noteq> 0" "0 < chain_limit"
  shows "ev_chain ev = map webhookMessageToJson (ancestors (get (m_chat_id msg)) (nat chain_limit) parent)
    \<and> int (length (ev_chain ev)) \<le> chain_limit
    \<and> (ev_truncated ev \<longleftrightarrow> ancestors_cut (get (m_chat_id msg)) (nat chain_limit) parent)
    \<and> ev_id ev = session @ '':'' @ int_to_string (m_chat_id msg) @ '':'' @ int_to_string (m_id msg)"
  using assms(1) ancestors_length [of "get (m_chat_id msg)" "nat chain_limit" parent]
  unfolding buildEvent_parent [OF assms(2-4)] using assms(4)
  by (auto simp: mk_event_def split: if_splits)

text \<open>When the id of the answered message is 0, as for a message of a chat TDLib does not know, nothing is
  fetched and nothing verified: the reply event goes out all the same, with an empty chain.\<close>

theorem reply_to_zero_unverified:
  assumes "dr_reply_pending det" "dr_reason det = Reply" "replyParentId msg = Some 0" "0 < chain_limit"
  shows "buildEvent get msg det owner session received_at chain_limit
    = Some (mk_event msg owner session received_at [] False ''reply'')"
  using assms by (simp add: buildEvent_def Let_def chain_loop.simps reasonName_def)

section \<open>Instances\<close>

definition sample_message :: "int \<Rightarrow> int \<Rightarrow> int \<Rightarrow> message" where
  "sample_message mid sender parent =
     \<lparr>m_id = mid, m_chat_id = 5, m_sender = Some (SenderUser sender), m_date = 0, m_is_outgoing = False, m_is_channel_post = False,
      m_contains_unread_mention = False, m_content = None, m_interaction = None,
      m_reply_to = Some (ReplyToMessage parent)\<rparr>"

theorem reply_event_verified_witness:
  "\<exists>ev. buildEvent (\<lambda>_ _. Some (sample_message 2 7 0)) (sample_message 3 8 2)
       (detect (sample_message 3 8 2) 7 False False) 7 ''s'' 1 4 = Some ev
     \<and> (\<exists>parent p. replyParentId (sample_message 3 8 2) = Some parent
          \<and> Some (sample_message 2 7 0) = Some p
          \<and> senderIsOwner p 7 \<and> \<not> senderIsOwner (sample_message 3 8 2) 7
          \<and> \<not> m_is_outgoing (sample_message 3 8 2) \<and> \<not> False
          \<and> ev_reason ev = ''reply'' \<and> take 1 (ev_chain ev) = [webhookMessageToJson p])"
proof -
  let ?g = "\<lambda>_ _. Some (sample_message 2 7 0)"
  let ?m = "sample_message 3 8 2"
  have par: "replyParentId ?m = Some 2" "replyParentId ?m \<noteq> Some 0"
    by (simp_all add: sample_message_def replyParentId_def)
  have pend: "dr_reply_pending (detect ?m 7 False False)"
    by (simp add: detect_pending par senderIsOwner_def) (simp add: sample_message_def)
  have own: "senderIsOwner (sample_message 2 7 0) 7" by (simp add: senderIsOwner_def sample_message_def)
  have "\<exists>ev. buildEvent ?g ?m (detect ?m 7 False False) 7 ''s'' 1 4 = Some ev"
    unfolding buildEvent_parent [OF par(1), of 4, simplified] by (simp add: own)
  then obtain ev where ev: "buildEvent ?g ?m (detect ?m 7 False False) 7 ''s'' 1 4 = Some ev" by blast
  show ?thesis
    using ev reply_event_verified [OF ev refl pend par(2)] by blast
qed

theorem event_chain_witness:
  "\<exists>ev. buildEvent (\<lambda>_ i. if i = 2 then Some (sample_message 2 7 1) else None) (sample_message 3 8 2)
       (detect (sample_message 3 8 2) 7 False False) 7 ''s'' 1 4 = Some ev
     \<and> ev_chain ev = [webhookMessageToJson (sample_message 2 7 1)] \<and> ev_truncated ev"
proof -
  let ?g = "\<lambda>_ i. if i = 2 then Some (sample_message 2 7 1) else None"
  let ?m = "sample_message 3 8 2"
  have par: "replyParentId ?m = Some 2" "(2::int) \<noteq> 0" "(0::int) < 4"
    by (simp_all add: sample_message_def replyParentId_def)
  have own: "senderIsOwner (sample_message 2 7 1) 7" by (simp add: senderIsOwner_def sample_message_def)
  have "\<exists>ev. buildEvent ?g ?m (detect ?m 7 False False) 7 ''s'' 1 4 = Some ev"
    unfolding buildEvent_parent [OF par] by (simp add: own)
  then obtain ev where ev: "buildEvent ?g ?m (detect ?m 7 False False) 7 ''s'' 1 4 = Some ev" by blast
  have rp: "replyParentId (sample_message 2 7 1) = Some 1" by (simp add: sample_message_def replyParentId_def)
  have "nat 4 = Suc (Suc (Suc (Suc 0)))" by simp
  note chain = event_chain [OF ev par, unfolded this]
  have "ev_chain ev = [webhookMessageToJson (sample_message 2 7 1)]" "ev_truncated ev"
    using chain by (simp_all add: rp)
  with ev show ?thesis by blast
qed

theorem reply_to_zero_unverified_witness:
  "dr_reply_pending (detect (sample_message 3 8 0) 7 False False)
   \<and> buildEvent (\<lambda>_ _. None) (sample_message 3 8 0) (detect (sample_message 3 8 0) 7 False False) 7 ''s'' 1 4
     = Some (mk_event (sample_message 3 8 0) 7 ''s'' 1 [] False ''reply'')"
proof -
  have "detect (sample_message 3 8 0) 7 False False =
      \<lparr>dr_triggered = False, dr_reply_pending = True, dr_reason = Reply\<rparr>"
    by (simp add: detect_def sample_message_def)
  moreover have "replyParentId (sample_message 3 8 0) = Some 0"
    by (simp add: sample_message_def replyParentId_def)
  ultimately show ?thesis using reply_to_zero_unverified by simp
qed

end
