(* ===== verification/MainWiring.thy ===== *)
theory MainWiring
  imports Startup SessionStore S3Client UpdateRouter WebhookContext
begin

text \<open>
  How \<^verbatim>\<open>src/src/main.cpp\<close> puts the parts together: the health probe, the session before the client is made, the
  place of the receivers' list in S3, what the router is given, the calls behind its hooks, and the last
  decision of the process, how to exit.
\<close>

section \<open>The health probe\<close>

definition kDefaultPort :: "16 word" where
  "kDefaultPort = 8080"

text \<open>The port the probe asks: \<open>None\<close> where \<^verbatim>\<open>std::atoi\<close> is undefined; the cast keeps 16 bits.\<close>

definition healthPort :: "(string \<Rightarrow> string option) \<Rightarrow> 16 word option" where
  "healthPort getenv = (case getenv ''TGW_LISTEN_PORT'' of
     None \<Rightarrow> Some kDefaultPort
   | Some s \<Rightarrow> map_option of_int (atoi s))"

text \<open>\<open>None\<close>: nothing within 2500 ms; \<open>Some None\<close>: no response; otherwise its status. The exit code.\<close>

definition healthExit :: "nat option option \<Rightarrow> nat" where
  "healthExit answer = (if answer = Some (Some 200) then 0 else 1)"

section \<open>The exit\<close>

datatype process_exit = ReturnFromMain int | ExitNow int

definition exitCodeAfterS3 :: "int \<Rightarrow> s3_io \<Rightarrow> process_exit \<times> s3_io" where
  "exitCodeAfterS3 code s =
     (let (clean, s1) = shutdownIdleLoop s in (if clean then ReturnFromMain code else ExitNow code, s1))"

section \<open>The session\<close>

text \<open>The two switches: first S3, then the variable. \<open>Inl\<close> is the failed start, both with the file as it is
  then. The outer \<open>None\<close> stands for a write that never comes to an end.\<close>

definition prepareSession ::
  "os_calls \<Rightarrow> os_calls \<Rightarrow> config \<Rightarrow> s3_result \<Rightarrow> binlog \<Rightarrow> (binlog, binlog) result option" where
  "prepareSession o1 o2 c got f =
     (case restoreFromS3 o1 (cf_s3 c) got f of
        None \<Rightarrow> None
      | Some (r, f1) \<Rightarrow>
          if r = RestoreError then Some (Inl f1)
          else (case restoreSession o2 (cf_session_b64 c) f1 of
                  None \<Rightarrow> None
                | Some (r2, f2) \<Rightarrow> Some (if r2 = RestoreError then Inl f2 else Inr f2)))"

section \<open>The webhooks\<close>

text \<open>The directory of the session's key, as far as its last slash, and the name of the list.\<close>

definition webhookKey :: "string \<Rightarrow> string" where
  "webhookKey session_key = rev (dropWhile (\<lambda>c. c \<noteq> CHR ''/'') (rev session_key)) @ ''webhooks.json''"

definition kChainLimit :: int where
  "kChainLimit = 20"

text \<open>The hook of the router and the coroutine it starts. \<open>get\<close> is what TDLib answers for a message.\<close>

definition messageHook ::
  "(int \<Rightarrow> int \<Rightarrow> message option) \<Rightarrow> int \<Rightarrow> string \<Rightarrow> message \<Rightarrow> webhook_event option" where
  "messageHook get owner session msg =
     (let det = detect msg owner (0 < m_chat_id msg) (m_is_channel_post msg)
      in if \<not> dr_triggered det \<and> \<not> dr_reply_pending det then None
         else buildEvent get msg det owner session (m_date msg) kChainLimit)"

section \<open>The router and the callbacks\<close>

definition mainRouter :: "config \<Rightarrow> bool \<Rightarrow> router" where
  "mainRouter c kafka_made = \<lparr>ro_session = cf_session_id c, ro_seq = 0, ro_has_publisher = kafka_made,
     ro_has_ready_cb = cf_keep_online c, ro_has_tracker = cf_humanize_typing c,
     ro_has_webhook = cf_webhooks_enabled c\<rparr>"

datatype main_call = PushNow | SendOneWay td_function | AskOwner | QueueQuit

definition onReady :: "config \<Rightarrow> main_call list" where
  "onReady c = [PushNow, SendOneWay (LoadChats 100)]
     @ (if cf_keep_online c then [SendOneWay (SetOptionOnline True)] else [])
     @ (if cf_webhooks_enabled c then [AskOwner] else [])"

text \<open>The callback for the restored connection, and the timer, which main registers together.\<close>

definition keepOnline :: "config \<Rightarrow> main_call list" where
  "keepOnline c = (if cf_keep_online c then [SendOneWay (SetOptionOnline True)] else [])"

definition onUnexpectedTermination :: "main_call list" where
  "onUnexpectedTermination = [QueueQuit]"

text \<open>The answer to \<^verbatim>\<open>getMe\<close>; the cell holds 0 until then.\<close>

definition storeOwner :: "td_object option \<Rightarrow> int \<Rightarrow> int" where
  "storeOwner ob owner = (case ob of Some (ObjUser u) \<Rightarrow> u_id u | _ \<Rightarrow> owner)"

text \<open>What one update leads to: the router's effects, the authorization state's callbacks, and behind them the
  calls main has put there.\<close>

definition callbackCalls :: "config \<Rightarrow> auth_call \<Rightarrow> main_call list" where
  "callbackCalls c k = (case k of ReadyCall \<Rightarrow> onReady c | TerminationCall \<Rightarrow> onUnexpectedTermination)"

definition applyEffect :: "config \<Rightarrow> router_effect \<Rightarrow> auth \<times> main_call list \<Rightarrow> auth \<times> main_call list" where
  "applyEffect c e st = (case st of (a, calls) \<Rightarrow> (case e of
     AuthUpdate u \<Rightarrow>
       (let a1 = auth_onUpdate (Some u) a
        in (a1, calls @ concat (map (callbackCalls c) (drop (length (au_calls a)) (au_calls a1)))))
   | ConnectionReady \<Rightarrow> (a, calls @ keepOnline c)
   | _ \<Rightarrow> (a, calls)))"

fun gateway_run ::
  "(json \<Rightarrow> string) \<Rightarrow> config \<Rightarrow> td_object option list \<Rightarrow> auth \<Rightarrow> router \<Rightarrow> main_call list" where
  "gateway_run writer c [] a ro = []"
| "gateway_run writer c (u # us) a ro =
     (let (ro1, es) = onUpdate writer u ro; (a1, calls) = fold (applyEffect c) es (a, [])
      in calls @ gateway_run writer c us a1 ro1)"

definition mainAuth :: auth where
  "mainAuth = setOnUnexpectedTermination (setOnReady auth_init)"

section \<open>The probe finds the gateway\<close>

definition port_is :: "int \<Rightarrow> config \<Rightarrow> bool" where
  "port_is p c \<longleftrightarrow> cf_listen_port c = p"

lemma port_kept:
  "list_all (keeps (port_is p)) (drop 2 (serverSettings w) @ s3Settings w @ eventSettings w)"
  unfolding group_defs by (simp add: keeps_guard, (safe, (rule keeps_intros, simp add: port_is_def)+)+)

lemma port_kept_before:
  "list_all (keeps (port_is p)) (telegramSettings w @ webhookSettings w @ humanizeSettings w @ take 1 (serverSettings w))"
  unfolding group_defs by (simp add: keeps_guard, (safe, (rule keeps_intros, simp add: port_is_def)+)+)

lemma listen_port:
  assumes "load_config w = Inr c" "envOrFile w ''TGW_LISTEN_PORT'' [] = Inr s"
  shows "if s = [] then cf_listen_port c = 8080 else parseNumericEnv UInt16 ''TGW_LISTEN_PORT'' s = Inr (cf_listen_port c)"
proof -
  let ?port = "numSetting w UInt16 ''TGW_LISTEN_PORT'' (\<lambda>v c. c\<lparr>cf_listen_port := v\<rparr>)"
  let ?before = "telegramSettings w @ webhookSettings w @ humanizeSettings w @ take 1 (serverSettings w)"
  let ?after = "drop 2 (serverSettings w) @ s3Settings w @ eventSettings w"
  have "serverSettings w = take 1 (serverSettings w) @ ?port # drop 2 (serverSettings w)"
    by (simp add: serverSettings_def)
  then have "runSettings (?before @ ?port # ?after) default_config = Inr c"
    using assms(1) unfolding load_config_def by (metis append.assoc append_Cons)
  then obtain a b where ab: "runSettings ?before default_config = Inr a" "?port a = Inr b" "runSettings ?after b = Inr c"
    by (auto simp: runSettings_append)
  have "port_is 8080 a"
    using runSettings_keeps [OF port_kept_before _ ab(1)] by (simp add: port_is_def default_config_def)
  moreover have "port_is (cf_listen_port b) c"
    using runSettings_keeps [OF port_kept _ ab(3)] by (simp add: port_is_def)
  ultimately show ?thesis using ab(2) assms(2) by (auto simp: numSetting_def port_is_def split: if_splits)
qed

lemma config_blank_space: "config_blank c \<Longrightarrow> is_space c"
  by (auto simp: config_blank_def is_space_def)

lemma trim_split: "\<exists>a b. s = a @ trim s @ b \<and> list_all config_blank a \<and> list_all config_blank b"
proof -
  define t where "t = dropWhile config_blank s"
  have tr: "trim s = rev (dropWhile config_blank (rev t))" by (simp add: trim_def t_def)
  have "rev t = takeWhile config_blank (rev t) @ dropWhile config_blank (rev t)" by simp
  then have "t = trim s @ rev (takeWhile config_blank (rev t))" unfolding tr by (metis rev_append rev_rev_ident)
  then have "s = takeWhile config_blank s @ trim s @ rev (takeWhile config_blank (rev t))"
    unfolding t_def by (metis takeWhile_dropWhile_id)
  moreover have "list_all config_blank (takeWhile config_blank x)" for x
    by (auto simp: list_all_iff dest: set_takeWhileD)
  ultimately show ?thesis by (metis list_all_rev)
qed

lemma scan_number_blanks:
  assumes "list_all is_space a" "list_all is_digit ds" "ds \<noteq> []" "list_all is_space b"
  shows "\<exists>n. scan_number (a @ ds @ b) = (False, ds, n)"
proof -
  obtain d r where d: "ds = d # r" "is_digit d" using assms(2,3) by (cases ds) auto
  have "takeWhile is_space (a @ ds @ b) = a"
    using assms(1) d digit_not_space [of d] by (subst takeWhile_append2) (auto simp: list_all_iff)
  moreover have "takeWhile is_digit (ds @ b) = ds"
  proof -
    have "takeWhile is_digit b = []" using assms(4) digit_not_space by (cases b) auto
    then show ?thesis using assms(2) by (subst takeWhile_append2) (auto simp: list_all_iff)
  qed
  ultimately show ?thesis using d digit_not_sign [of d] by (simp add: scan_number_def Let_def)
qed

lemma atoi_blank: "list_all is_space s \<Longrightarrow> atoi s = Some 0"
proof -
  assume "list_all is_space s"
  then have t: "takeWhile is_space s = s" by (simp add: takeWhile_eq_all_conv list_all_iff)
  have "scan_number s = (False, [], length s)" unfolding scan_number_def t by (simp add: Let_def)
  then show ?thesis by (simp add: atoi_def)
qed

text \<open>the probe in the container asks the port the gateway listens on, when the port is not given in a file: for
  every value of the variable that the gateway starts with, blanks around the number included. The one exception
  is a variable that is set but blank: the gateway then listens on 8080 and the probe asks port 0.\<close>

theorem probe_asks_listen_port:
  assumes "load_config w = Inr c" "os_getenv w ''TGW_LISTEN_PORT_FILE'' = None"
  shows "healthPort (os_getenv w) =
    (if (case os_getenv w ''TGW_LISTEN_PORT'' of None \<Rightarrow> False | Some s \<Rightarrow> trim s = []) then Some 0
     else Some (of_int (cf_listen_port c)))"
proof (cases "os_getenv w ''TGW_LISTEN_PORT''")
  case None
  then have "envOrFile w ''TGW_LISTEN_PORT'' [] = Inr []" using assms(2) by (simp add: envOrFile_def)
  from listen_port [OF assms(1) this] None show ?thesis by (simp add: healthPort_def kDefaultPort_def)
next
  case (Some s)
  then have e: "envOrFile w ''TGW_LISTEN_PORT'' [] = Inr (trim s)" using assms(2) by (simp add: envOrFile_def)
  obtain a b where ab: "s = a @ trim s @ b" "list_all is_space a" "list_all is_space b"
    using trim_split [of s] config_blank_space by (auto simp: list_all_iff)
  show ?thesis
  proof (cases "trim s = []")
    case True
    then have "list_all is_space s" using ab by (simp add: list_all_iff) (metis Un_iff append_Nil set_append)
    with Some True show ?thesis by (simp add: healthPort_def atoi_blank)
  next
    case False
    with listen_port [OF assms(1) e] have "parseNumericEnv UInt16 ''TGW_LISTEN_PORT'' (trim s) = Inr (cf_listen_port c)"
      by simp
    then have n: "numeral_of UInt16 (trim s) (cf_listen_port c)" "cf_listen_port c \<le> 65535"
      by (auto dest!: parseNumericEnv_Inr simp: num_hi_def)
    then have ds: "list_all is_digit (trim s)" "cf_listen_port c = int (digits_value (trim s))"
      by (auto simp: numeral_of_def num_signed_def)
    obtain k where "scan_number s = (False, trim s, k)"
      using scan_number_blanks [OF ab(2) ds(1) False ab(3)] ab(1) by metis
    then have "atoi s = Some (cf_listen_port c)"
      using False ds(2) n(2) by (simp add: atoi_def int_bounds)
    with Some False show ?thesis by (simp add: healthPort_def)
  qed
qed

lemma sample_port_loads:
  "load_config (sample_os [(''TGW_LISTEN_PORT'', '' 9000 '')]) =
     Inr ((sample_accepted ''default'')\<lparr>cf_listen_port := 9000\<rparr>)"
  by code_simp

theorem probe_asks_listen_port_witness:
  "healthPort (os_getenv (sample_os [(''TGW_LISTEN_PORT'', '' 9000 '')])) = Some 9000"
proof -
  have "os_getenv (sample_os [(''TGW_LISTEN_PORT'', '' 9000 '')]) ''TGW_LISTEN_PORT_FILE'' = None" by code_simp
  note probe_asks_listen_port [OF sample_port_loads this]
  moreover have "os_getenv (sample_os [(''TGW_LISTEN_PORT'', '' 9000 '')]) ''TGW_LISTEN_PORT'' = Some '' 9000 ''" by code_simp
  moreover have "trim '' 9000 '' \<noteq> []" by code_simp
  ultimately show ?thesis by simp
qed

section \<open>The session a start goes on with\<close>

lemma restoreFromS3_ok:
  assumes "restoreFromS3 o1 c got f = Some (r, f1)" "r \<noteq> RestoreError"
  shows "f1 = (if s3_enabled c \<and> \<not> file_exists o1 f \<and> s3_ok got then Some (sr_body got, kSecretMode) else f)"
  using assms
  by (auto simp: restoreFromS3_def s3_ok_def s3_not_found_def split: if_splits dest: writeSecretFile_ok)

lemma restoreSession_ok:
  assumes "restoreSession o1 text f = Some (r, f1)" "r \<noteq> RestoreError"
  shows "if text = [] \<or> file_exists o1 f then f1 = f else f1 = Some (the (base64Decode text), kSecretMode) \<and> base64Decode text \<noteq> None"
  using assms by (auto simp: restoreSession_def split: if_splits option.splits dest: writeSecretFile_ok)

text \<open>C21: which session a start goes on with, where the file system tells whether the file is there: the file on the
  disk, untouched; without one the object in S3, byte for byte; without that the one of the variable; and
  otherwise none. A start that goes on never does so with a part of a session it restored itself.\<close>

theorem session_precedence:
  assumes "prepareSession o1 o2 c got f = Some (Inr f')" "os_exists o1" "os_exists o2"
  shows "f' = (if f \<noteq> None then f
     else if s3_enabled (cf_s3 c) \<and> s3_ok got then Some (sr_body got, kSecretMode)
     else if cf_session_b64 c \<noteq> [] then map_option (\<lambda>bytes. (bytes, kSecretMode)) (base64Decode (cf_session_b64 c))
     else None)"
proof -
  from assms(1) obtain r f1 r2 where r: "restoreFromS3 o1 (cf_s3 c) got f = Some (r, f1)" "r \<noteq> RestoreError"
      "restoreSession o2 (cf_session_b64 c) f1 = Some (r2, f')" "r2 \<noteq> RestoreError"
    by (auto simp: prepareSession_def split: option.splits if_splits prod.splits)
  show ?thesis
    using restoreFromS3_ok [OF r(1,2)] restoreSession_ok [OF r(3,4)] assms(2,3)
    by (cases f) (auto simp: file_exists_def split: if_splits)
qed

text \<open>Only an object in S3 that cannot be read, a text that is no session, or a refused write keep it from
  starting.\<close>

lemma prepareSession_fails:
  assumes "prepareSession o1 o2 c got f = Some (Inl f')"
  shows "(s3_enabled (cf_s3 c) \<and> \<not> file_exists o1 f \<and> \<not> s3_not_found got
      \<and> (\<not> s3_ok got \<or> (\<exists>f''. writeSecretFile o1 (sr_body got) f = Some (False, f''))))
    \<or> (cf_session_b64 c \<noteq> [] \<and> (base64Decode (cf_session_b64 c) \<in> {None, Some []}
      \<or> (\<exists>bytes g g'. base64Decode (cf_session_b64 c) = Some bytes \<and> writeSecretFile o2 bytes g = Some (False, g'))))"
  using assms
  by (auto simp: prepareSession_def restoreFromS3_def restoreSession_def split: option.splits if_splits prod.splits)

theorem session_precedence_witness:
  "prepareSession (sample_calls [Wrote 3]) (sample_calls []) (sample_accepted ''default'')
     \<lparr>sr_http_status = 404, sr_body = []\<rparr> (Some (''x'', 420)) = Some (Inr (Some (''x'', 420)))"
proof -
  have "prepareSession (sample_calls [Wrote 3]) (sample_calls []) (sample_accepted ''default'')
     \<lparr>sr_http_status = 404, sr_body = []\<rparr> (Some (''x'', 420)) = Some (Inr (Some (''x'', 420)))" by code_simp
  moreover from session_precedence [OF this] have "Some (''x'', 420 :: nat) = Some (''x'', 420)"
    by (simp add: sample_calls_def)
  ultimately show ?thesis by simp
qed

section \<open>The place of the receivers' list\<close>

definition dirname :: "string \<Rightarrow> string" where
  "dirname key = rev (dropWhile (\<lambda>c. c \<noteq> CHR ''/'') (rev key))"

definition basename :: "string \<Rightarrow> string" where
  "basename key = rev (takeWhile (\<lambda>c. c \<noteq> CHR ''/'') (rev key))"

lemma dirname_basename: "dirname key @ basename key = key"
  unfolding dirname_def basename_def by (metis rev_append rev_rev_ident takeWhile_dropWhile_id)

lemma webhookKey_dirname: "webhookKey key = dirname key @ ''webhooks.json''"
  by (simp add: webhookKey_def dirname_def)

text \<open>where the list of receivers is kept: two sessions share it exactly when their session objects lie in one
  directory of the bucket; the list takes the place of the session itself exactly when that is called
  \<^verbatim>\<open>webhooks.json\<close>; and with the keys the gateway builds, neither happens.\<close>

theorem receivers_list_place:
  "(webhookKey k = webhookKey l \<longleftrightarrow> dirname k = dirname l)
   \<and> (webhookKey k = k \<longleftrightarrow> basename k = ''webhooks.json'')
   \<and> (CHR ''/'' \<notin> set s \<longrightarrow> webhookKey (prefix @ ''/'' @ s @ ''/td.binlog'') = prefix @ ''/'' @ s @ ''/webhooks.json'')"
proof (intro conjI impI)
  show "webhookKey k = webhookKey l \<longleftrightarrow> dirname k = dirname l" by (simp add: webhookKey_dirname)
  show "webhookKey k = k \<longleftrightarrow> basename k = ''webhooks.json''"
    unfolding webhookKey_dirname by (metis dirname_basename same_append_eq)
  show "webhookKey (prefix @ ''/'' @ s @ ''/td.binlog'') = prefix @ ''/'' @ s @ ''/webhooks.json''"
    by (simp add: webhookKey_def)
qed

theorem receivers_list_place_witness:
  "webhookKey ''t/default/td.binlog'' = ''t/default/webhooks.json''"
  using receivers_list_place [of _ _ "''default''" "''t''"] by simp

section \<open>Which messages reach the receivers\<close>

lemma detect_triggered:
  "dr_triggered (detect msg owner priv bc) \<longleftrightarrow>
     \<not> bc \<and> \<not> m_is_outgoing msg \<and> \<not> senderIsOwner msg owner
     \<and> (m_contains_unread_mention msg \<or> replyParentId msg = None \<and> priv)"
  by (auto simp: detect_def noTrigger_def senderIsOwner_def replyParentId_def split: if_splits option.splits reply_to.splits)

lemma detect_reason:
  "dr_triggered (detect msg owner priv bc) \<Longrightarrow>
     dr_reason (detect msg owner priv bc) = (if m_contains_unread_mention msg then Mention else Dm)"
  by (auto simp: detect_def noTrigger_def split: if_splits)

lemma detect_not_both: "dr_triggered (detect msg owner priv bc) \<Longrightarrow> \<not> dr_reply_pending (detect msg owner priv bc)"
  by (auto simp: detect_triggered detect_pending)

text \<open>What \<open>buildEvent\<close> decides, whatever the chain is.\<close>

lemma buildEvent_decides:
  assumes "0 < chain_limit"
  shows "(\<exists>ev. buildEvent get msg det owner session received_at chain_limit = Some ev) \<longleftrightarrow>
     \<not> dr_reply_pending det \<or> (\<exists>parent. replyParentId msg = Some parent
        \<and> (parent = 0 \<or> (\<exists>p. get (m_chat_id msg) parent = Some p \<and> senderIsOwner p owner)))"
proof (cases "replyParentId msg")
  case None
  then show ?thesis using assms by (auto simp: buildEvent_def Let_def)
next
  case (Some parent)
  show ?thesis
  proof (cases "parent = 0")
    case True
    with Some assms show ?thesis
      by (auto simp: buildEvent_def Let_def chain_loop.simps)
  next
    case False
    show ?thesis unfolding buildEvent_parent [OF Some False assms] using Some False
      by (auto split: option.splits)
  qed
qed

lemma buildEvent_reason:
  assumes "buildEvent get msg det owner session received_at chain_limit = Some ev" "\<not> dr_reply_pending det" "0 < chain_limit"
  shows "ev_reason ev = reasonName (dr_reason det)"
proof (cases "replyParentId msg")
  case None
  then show ?thesis using assms by (auto simp: buildEvent_def Let_def mk_event_def)
next
  case (Some parent)
  show ?thesis
  proof (cases "parent = 0")
    case True
    with Some assms show ?thesis by (auto simp: buildEvent_def Let_def mk_event_def chain_loop.simps)
  next
    case False
    show ?thesis using assms unfolding buildEvent_parent [OF Some False assms(3)]
      by (auto simp: mk_event_def split: if_splits)
  qed
qed

lemma messageHook_iff:
  "(\<exists>ev. messageHook get owner session msg = Some ev) \<longleftrightarrow>
     \<not> m_is_channel_post msg \<and> \<not> m_is_outgoing msg \<and> \<not> senderIsOwner msg owner
     \<and> (m_contains_unread_mention msg
        \<or> (case replyParentId msg of
             None \<Rightarrow> 0 < m_chat_id msg
           | Some parent \<Rightarrow> parent = 0 \<or> (\<exists>p. get (m_chat_id msg) parent = Some p \<and> senderIsOwner p owner)))"
  (is "?A \<longleftrightarrow> ?B")
proof -
  let ?det = "detect msg owner (0 < m_chat_id msg) (m_is_channel_post msg)"
  have l: "0 < kChainLimit" by (simp add: kChainLimit_def)
  have "?A \<longleftrightarrow> (dr_triggered ?det \<or> dr_reply_pending ?det)
      \<and> (\<not> dr_reply_pending ?det \<or> (\<exists>parent. replyParentId msg = Some parent
        \<and> (parent = 0 \<or> (\<exists>p. get (m_chat_id msg) parent = Some p \<and> senderIsOwner p owner))))"
    using buildEvent_decides [OF l] by (simp add: messageHook_def Let_def)
  also have "\<dots> \<longleftrightarrow> ?B" by (auto simp: detect_triggered detect_pending split: option.splits)
  finally show ?thesis .
qed


section \<open>What main does for the updates\<close>

lemma auth_calls_drop:
  "drop (length (au_calls a)) (au_calls (auth_onUpdate (Some (UpdateAuthorizationState (Some s))) a)) =
     (if isTerminal (authStateFromTd s) \<and> \<not> au_expect_shutdown a \<and> \<not> au_termination_reported a
           \<and> au_has_termination_cb a then [TerminationCall] else [])
     @ (if s = AsReady \<and> \<not> au_ready_reported a \<and> au_has_ready_cb a then [ReadyCall] else [])"
  by (simp add: step_simps)

lemma effects_frame:
  "fold (applyEffect c) (resolveEffects ro u) st = st" "applyEffect c (FanOut x y z) st = st"
  "applyEffect c (Publish k pl) st = st" "fold (applyEffect c) (webhookEffects ro u) st = st"
  by (cases st; auto simp: applyEffect_def resolveEffects_def webhookEffects_def split: td_object.split option.split)+

lemma forward_frame:
  "fold (applyEffect c) (snd (forwardUpdate writer u ro)) st = st"
  "ro_has_ready_cb (fst (forwardUpdate writer u ro)) = ro_has_ready_cb ro"
  by (auto simp: forwardUpdate_def Let_def effects_frame split: option.split)


definition is_terminal_update :: "td_object option \<Rightarrow> bool" where
  "is_terminal_update u = (case u of
     Some (UpdateAuthorizationState (Some s)) \<Rightarrow> isTerminal (authStateFromTd s) | _ \<Rightarrow> False)"

abbreviation ready_update :: "td_object option" where
  "ready_update \<equiv> Some (UpdateAuthorizationState (Some AsReady))"

abbreviation connected_update :: "td_object option" where
  "connected_update \<equiv> Some (UpdateConnectionState (Some True))"

abbreviation online_call :: main_call where
  "online_call \<equiv> SendOneWay (SetOptionOnline True)"

lemma onReady_counts [simp]:
  "count_list (onReady c) online_call = (if cf_keep_online c then 1 else 0)"
  "count_list (onReady c) PushNow = 1" "count_list (onReady c) QueueQuit = 0"
  "count_list (onReady c) AskOwner = (if cf_webhooks_enabled c then 1 else 0)"
  "count_list (keepOnline c) x = (if x = online_call \<and> cf_keep_online c then 1 else 0)"
  by (simp_all add: onReady_def keepOnline_def)

lemma gateway_step:
  assumes "\<not> au_expect_shutdown a" "au_has_termination_cb a" "au_has_ready_cb a" "ro_has_ready_cb ro = cf_keep_online c"
    and "onUpdate writer u ro = (ro1, es)" "fold (applyEffect c) es (a, []) = (a1, calls)"
  shows "\<not> au_expect_shutdown a1" "au_has_termination_cb a1" "au_has_ready_cb a1" "ro_has_ready_cb ro1 = cf_keep_online c"
    and "au_ready_reported a1 \<longleftrightarrow> au_ready_reported a \<or> u = ready_update"
    and "au_termination_reported a1 \<longleftrightarrow> au_termination_reported a \<or> is_terminal_update u"
    and "calls = (if is_terminal_update u \<and> \<not> au_termination_reported a then [QueueQuit] else [])
      @ (if u = ready_update \<and> \<not> au_ready_reported a then onReady c else [])
      @ (if u = connected_update then keepOnline c else [])"
proof -
  consider (auth) s where "u = Some (UpdateAuthorizationState (Some s))" | (noauth) "u = Some (UpdateAuthorizationState None)"
    | (conn) st where "u = Some (UpdateConnectionState st)" | (none) "u = None"
    | (rest) v where "u = Some v" "\<forall>s. v \<noteq> UpdateAuthorizationState s" "\<forall>st. v \<noteq> UpdateConnectionState st"
    by (metis not_None_eq)
  then have "\<not> au_expect_shutdown a1 \<and> au_has_termination_cb a1 \<and> au_has_ready_cb a1 \<and> ro_has_ready_cb ro1 = cf_keep_online c
    \<and> (au_ready_reported a1 \<longleftrightarrow> au_ready_reported a \<or> u = ready_update)
    \<and> (au_termination_reported a1 \<longleftrightarrow> au_termination_reported a \<or> is_terminal_update u)
    \<and> calls = (if is_terminal_update u \<and> \<not> au_termination_reported a then [QueueQuit] else [])
      @ (if u = ready_update \<and> \<not> au_ready_reported a then onReady c else [])
      @ (if u = connected_update then keepOnline c else [])"
  proof cases
    case (auth s)
    then have "ro1 = ro" "es = [AuthUpdate (UpdateAuthorizationState (Some s))]" using assms(5) by (auto simp: onUpdate_def)
    then show ?thesis
      using assms auth auth_calls_drop [of a s]
      by (auto simp: applyEffect_def Let_def step_simps is_terminal_update_def callbackCalls_def
          onUnexpectedTermination_def isTerminal_def authStateFromTd_def split: if_splits)
  next
    case noauth
    then have "ro1 = ro" "es = [AuthUpdate (UpdateAuthorizationState None)]" using assms(5) by (auto simp: onUpdate_def)
    then show ?thesis
      using assms noauth by (auto simp: applyEffect_def Let_def auth_onUpdate_def is_terminal_update_def)
  next
    case (conn st)
    then have "ro1 = ro" "es = (if ro_has_ready_cb ro \<and> st = Some True then [ConnectionReady] else [])"
      using assms(5) by (auto simp: onUpdate_def)
    then show ?thesis
      using assms conn by (auto simp: applyEffect_def is_terminal_update_def keepOnline_def split: if_splits)
  next
    case none
    then show ?thesis using assms by (auto simp: onUpdate_def is_terminal_update_def)
  next
    case (rest v)
    then have "onUpdate writer u ro = forwardUpdate writer v ro" by (cases v) (simp_all add: onUpdate_def)
    then have "forwardUpdate writer v ro = (ro1, es)" using assms(5) by simp
    then have "es = snd (forwardUpdate writer v ro)" "ro1 = fst (forwardUpdate writer v ro)" by simp_all
    then show ?thesis
      using assms rest forward_frame by (auto simp: is_terminal_update_def split: td_object.split)
  qed
  then show "\<not> au_expect_shutdown a1" "au_has_termination_cb a1" "au_has_ready_cb a1" "ro_has_ready_cb ro1 = cf_keep_online c"
    and "au_ready_reported a1 \<longleftrightarrow> au_ready_reported a \<or> u = ready_update"
    and "au_termination_reported a1 \<longleftrightarrow> au_termination_reported a \<or> is_terminal_update u"
    and "calls = (if is_terminal_update u \<and> \<not> au_termination_reported a then [QueueQuit] else [])
      @ (if u = ready_update \<and> \<not> au_ready_reported a then onReady c else [])
      @ (if u = connected_update then keepOnline c else [])"
    by blast+
qed

lemma gateway_counts:
  assumes "\<not> au_expect_shutdown a" "au_has_termination_cb a" "au_has_ready_cb a" "ro_has_ready_cb ro = cf_keep_online c"
  shows "count_list (gateway_run writer c us a ro) QueueQuit =
      (if \<not> au_termination_reported a \<and> list_ex is_terminal_update us then 1 else 0)
    \<and> count_list (gateway_run writer c us a ro) PushNow =
      (if \<not> au_ready_reported a \<and> ready_update \<in> set us then 1 else 0)
    \<and> count_list (gateway_run writer c us a ro) AskOwner =
      (if \<not> au_ready_reported a \<and> ready_update \<in> set us \<and> cf_webhooks_enabled c then 1 else 0)
    \<and> count_list (gateway_run writer c us a ro) online_call =
      (if cf_keep_online c then count_list us connected_update
          + (if \<not> au_ready_reported a \<and> ready_update \<in> set us then 1 else 0) else 0)"
  using assms
proof (induction us arbitrary: a ro)
  case (Cons u us)
  obtain ro1 es where o: "onUpdate writer u ro = (ro1, es)" by fastforce
  obtain a1 calls where f: "fold (applyEffect c) es (a, []) = (a1, calls)" by fastforce
  note st = gateway_step [OF Cons.prems o f]
  have r: "gateway_run writer c (u # us) a ro = calls @ gateway_run writer c us a1 ro1" by (simp add: o f)
  have t: "\<not> is_terminal_update ready_update" "\<not> is_terminal_update connected_update"
    by (simp_all add: is_terminal_update_def isTerminal_def authStateFromTd_def)
  note ih = Cons.IH [OF st(1-4)]
  consider "u = ready_update" | "u = connected_update" | "u \<noteq> ready_update" "u \<noteq> connected_update" by blast
  then show ?case using ih t unfolding r st(7) st(5,6) by cases auto
qed simp

text \<open>what the process does for TDLib's updates, whatever they are and in whatever order they come, until a shutdown
  is announced: it asks to quit exactly once, at the first terminal state; it pushes the session to S3, and
  asks for the owner's id where webhooks are on, exactly once, at the first ready state; and where the account
  is to be kept online it says so at that moment and at every restored connection, and otherwise never.\<close>

theorem updates_acted_on:
  "count_list (gateway_run writer c us mainAuth (mainRouter c k)) QueueQuit = (if list_ex is_terminal_update us then 1 else 0)
   \<and> count_list (gateway_run writer c us mainAuth (mainRouter c k)) PushNow = (if ready_update \<in> set us then 1 else 0)
   \<and> count_list (gateway_run writer c us mainAuth (mainRouter c k)) AskOwner =
       (if ready_update \<in> set us \<and> cf_webhooks_enabled c then 1 else 0)
   \<and> count_list (gateway_run writer c us mainAuth (mainRouter c k)) online_call =
       (if cf_keep_online c then count_list us connected_update + (if ready_update \<in> set us then 1 else 0) else 0)"
  using gateway_counts [of mainAuth "mainRouter c k" c writer us]
  by (simp add: mainAuth_def mainRouter_def auth_init_def setOnReady_def setOnUnexpectedTermination_def)

end
