(* ===== verification/Bridge.thy ===== *)
theory Bridge
  imports ResolveOnce TdApi
begin

text \<open>
  The bridge from TDLib's asynchronous interface to one request, one response:
  \<^verbatim>\<open>src/src/bridge/td_bridge.{hpp,cpp}\<close>, \<^verbatim>\<open>correlation_map.{hpp,cpp}\<close>, \<^verbatim>\<open>request_id.hpp\<close> and
  \<^verbatim>\<open>request_state.hpp\<close>. A \<^verbatim>\<open>RequestState\<close> is an index; its phase and result are the slot of
  \<open>ResolveOnce\<close> (an empty slot is phase \<^verbatim>\<open>Pending\<close>), its id and deadline the lists \<open>b_ids\<close> and
  \<open>b_deadlines\<close>. Time is the integer count of the steady clock, whose largest value is \<open>time_max\<close>.
  The transport and the update sink are the environment: what is handed to them is recorded, what they
  deliver is the argument of a step. Handlers, the receiver thread and the event loops interleave; one
  step of \<open>bstep\<close> is one critical section.
\<close>

datatype phase = Fulfilled | TimedOut | Rejected

type_synonym bridge_result = "phase \<times> td_object option"

definition makeError :: "int \<Rightarrow> string \<Rightarrow> td_object" where
  "makeError code msg = ObjError (TdError code msg)"

definition time_max :: int where
  "time_max = 9223372036854775807"

record bridge =
  b_max_inflight :: nat
  b_ttl :: int
  b_sweep_interval :: int
  b_counter :: u64
  b_once :: "(u64, bridge_result) once"
  b_ids :: "u64 list"
  b_deadlines :: "int list"
  b_unsent :: "(nat \<times> td_function) list"
  b_sent :: "(nat option \<times> u64 \<times> td_function) list"
  b_received :: "(u64 \<times> td_object) list"
  b_updates :: "td_object list"
  b_last_sweep :: int

section \<open>Request ids\<close>

text \<open>\<^verbatim>\<open>RequestIdGenerator::next\<close>: the id, which is also the counter's new value; the loop that skips 0 turns at
  most once, because the value after 0 is 1.\<close>

definition next_id :: "u64 \<Rightarrow> u64" where
  "next_id counter = (let i = counter + 1 in if i = 0 then i + 1 else i)"

section \<open>The correlation table\<close>

text \<open>\<^verbatim>\<open>CorrelationMap::tryInsert\<close>: \<^verbatim>\<open>emplace\<close> leaves an existing node alone, and true is returned all the same.\<close>

definition corr_tryInsert :: "nat \<Rightarrow> 'k \<Rightarrow> 'v \<Rightarrow> ('k \<times> 'v) list \<Rightarrow> bool \<times> ('k \<times> 'v) list" where
  "corr_tryInsert max_inflight k v t =
     (if max_inflight \<le> length t then (False, t)
      else (True, if map_of t k = None then t @ [(k, v)] else t))"

interpretation corr: claim_table map_of "corr_tryInsert m" table_claim
  by unfold_locales
    (auto simp: table_claim_laws corr_tryInsert_def map_add_def fun_eq_iff split: option.splits if_splits)

section \<open>The operations\<close>

text \<open>
  \<^verbatim>\<open>TdAwaitable::await_suspend\<close> up to the end of \<^verbatim>\<open>CorrelationMap::tryInsert\<close>: a fresh state with the next id
  and a deadline; over the limit it is rejected and the coroutine goes on at once.
\<close>

definition await_suspend :: "int \<Rightarrow> td_function \<Rightarrow> bridge \<Rightarrow> bridge" where
  "await_suspend now fn b =
     (let i = next_id (b_counter b);
          ref = length (slots (b_once b));
          b1 = b\<lparr>b_counter := i, b_ids := b_ids b @ [i], b_deadlines := b_deadlines b @ [now + b_ttl b]\<rparr>
      in case corr_tryInsert (b_max_inflight b) i ref (table (b_once b)) of
           (False, _) \<Rightarrow>
             b1\<lparr>b_once := once_reject (Rejected, Some (makeError 503 ''SERVICE_BUSY'')) (b_once b)\<rparr>
         | (True, t) \<Rightarrow>
             b1\<lparr>b_once := (b_once b)\<lparr>table := t, slots := slots (b_once b) @ [None]\<rparr>,
                b_unsent := b_unsent b @ [(ref, fn)]\<rparr>)"

text \<open>The second half of \<^verbatim>\<open>registerAndSend\<close>: \<^verbatim>\<open>transport_.send\<close> for a state that is in the table.\<close>

definition send_registered :: "nat \<times> td_function \<Rightarrow> bridge \<Rightarrow> bridge" where
  "send_registered e b =
     b\<lparr>b_unsent := remove1 e (b_unsent b),
       b_sent := b_sent b @ [(Some (fst e), b_ids b ! fst e, snd e)]\<rparr>"

definition sendOneWay :: "td_function \<Rightarrow> bridge \<Rightarrow> bridge" where
  "sendOneWay fn b =
     (let i = next_id (b_counter b)
      in b\<lparr>b_counter := i, b_sent := b_sent b @ [(None, i, fn)]\<rparr>)"

text \<open>\<^verbatim>\<open>dispatch\<close> up to the end of the claim: a response to a request, or an update for the sink.\<close>

definition dispatch_claim :: "u64 \<Rightarrow> td_object \<Rightarrow> bridge \<Rightarrow> bridge" where
  "dispatch_claim rid ob b =
     (if rid \<noteq> 0
      then b\<lparr>b_received := b_received b @ [(rid, ob)],
             b_once := once_claim rid (Fulfilled, Some ob) (b_once b)\<rparr>
      else b\<lparr>b_updates := b_updates b @ [ob]\<rparr>)"

text \<open>\<^verbatim>\<open>CorrelationMap::claimExpired\<close>, whose nodes the caller then resolves with one and the same result.\<close>

definition claimExpired :: "int \<Rightarrow> bridge_result \<Rightarrow> bridge \<Rightarrow> bridge" where
  "claimExpired now r b =
     b\<lparr>b_once := once_claim_all (\<lambda>ref. b_deadlines b ! ref \<le> now) r (b_once b)\<rparr>"

text \<open>\<^verbatim>\<open>TdBridge::resolve\<close>.\<close>

definition resolve :: "bool \<Rightarrow> nat \<times> bridge_result \<Rightarrow> bridge \<Rightarrow> bridge" where
  "resolve loop_running e b = b\<lparr>b_once := once_resolve loop_running e (b_once b)\<rparr>"

definition resolve_claimed :: "bool \<Rightarrow> bridge \<Rightarrow> bridge" where
  "resolve_claimed loop_running b = fold (resolve loop_running) (claimed (b_once b)) b"

definition sweepExpired :: "bool \<Rightarrow> int \<Rightarrow> bridge \<Rightarrow> bridge" where
  "sweepExpired loop_running now b =
     resolve_claimed loop_running
       (claimExpired now (TimedOut, Some (makeError 504 ''UPSTREAM_TIMEOUT'')) b)"

definition drainPending :: "bool \<Rightarrow> bridge \<Rightarrow> bridge" where
  "drainPending loop_running b =
     resolve_claimed loop_running
       (claimExpired time_max (Rejected, Some (makeError 503 ''UPSTREAM_SHUTDOWN'')) b)"

definition dispatch :: "bool \<Rightarrow> u64 \<Rightarrow> td_object \<Rightarrow> bridge \<Rightarrow> bridge" where
  "dispatch loop_running rid ob b = resolve_claimed loop_running (dispatch_claim rid ob b)"

text \<open>One turn of the receive loop after \<^verbatim>\<open>receive\<close> has returned: the sweep when it is due, then the answer.\<close>

definition receive_turn :: "bool \<Rightarrow> int \<Rightarrow> u64 \<times> td_object option \<Rightarrow> bridge \<Rightarrow> bridge" where
  "receive_turn loop_running now resp b =
     (let b1 = (if b_sweep_interval b \<le> now - b_last_sweep b
                then (sweepExpired loop_running now b)\<lparr>b_last_sweep := now\<rparr> else b)
      in case snd resp of
           None \<Rightarrow> b1
         | Some ob \<Rightarrow> dispatch loop_running (fst resp) ob b1)"

section \<open>Interleaving\<close>

definition bridge_init :: "nat \<Rightarrow> int \<Rightarrow> int \<Rightarrow> bridge" where
  "bridge_init m ttl ivl =
     \<lparr>b_max_inflight = m, b_ttl = ttl, b_sweep_interval = ivl, b_counter = 0, b_once = once_empty,
      b_ids = [], b_deadlines = [], b_unsent = [], b_sent = [], b_received = [], b_updates = [],
      b_last_sweep = 0\<rparr>"

text \<open>
  The counter's wrap-around is out of reach (at a million requests a second it takes half a million
  years) and so is the clock's; both are bounds of the two steps they belong to.
\<close>

inductive bstep :: "bridge \<Rightarrow> bridge \<Rightarrow> bool" where
  step_suspend: "b_counter b \<noteq> - 1 \<Longrightarrow> now + b_ttl b \<le> time_max \<Longrightarrow> bstep b (await_suspend now fn b)"
| step_send: "e \<in> set (b_unsent b) \<Longrightarrow> bstep b (send_registered e b)"
| step_oneway: "b_counter b \<noteq> - 1 \<Longrightarrow> bstep b (sendOneWay fn b)"
| step_receive: "bstep b (dispatch_claim rid ob b)"
| step_expire: "bstep b (claimExpired now (TimedOut, Some (makeError 504 ''UPSTREAM_TIMEOUT'')) b)"
| step_drain: "bstep b (claimExpired time_max (Rejected, Some (makeError 503 ''UPSTREAM_SHUTDOWN'')) b)"
| step_resolve: "e \<in> set (claimed (b_once b)) \<Longrightarrow> bstep b (resolve lr e b)"
| step_resume: "i \<in> set (queued (b_once b)) \<Longrightarrow> bstep b (b\<lparr>b_once := once_resume i (b_once b)\<rparr>)"

inductive bridge_reachable :: "bridge \<Rightarrow> bool" where
  reach_init: "bridge_reachable (bridge_init m ttl ivl)"
| reach_step: "bridge_reachable b \<Longrightarrow> bstep b b' \<Longrightarrow> bridge_reachable b'"

inductive_cases bstepE: "bstep b b'"

section \<open>Request ids never repeat\<close>

lemma next_id_simp: "c \<noteq> - 1 \<Longrightarrow> next_id c = c + 1"
  by (auto simp: next_id_def Let_def eq_neg_iff_add_eq_0)

lemma next_id_nonzero: "next_id c \<noteq> 0"
proof (cases "c = - 1")
  case True
  then show ?thesis by (simp add: next_id_def)
next
  case False
  then have "c + 1 \<noteq> 0" by (simp add: eq_neg_iff_add_eq_0)
  then show ?thesis by (simp add: next_id_def)
qed

lemma unat_next_id: "c \<noteq> - 1 \<Longrightarrow> unat (next_id c) = Suc (unat c)"
  by (simp add: next_id_simp unatSuc eq_neg_iff_add_eq_0 add.commute)

section \<open>The invariant\<close>

text \<open>The results a handler may see: the response that came for its id, or one of the gateway's three errors.\<close>

definition good_result :: "bridge \<Rightarrow> nat \<Rightarrow> bridge_result \<Rightarrow> bool" where
  "good_result b i r \<longleftrightarrow>
     (\<exists>ob. r = (Fulfilled, Some ob) \<and> (b_ids b ! i, ob) \<in> set (b_received b))
     \<or> r = (TimedOut, Some (makeError 504 ''UPSTREAM_TIMEOUT''))
     \<or> r = (Rejected, Some (makeError 503 ''SERVICE_BUSY''))
     \<or> r = (Rejected, Some (makeError 503 ''UPSTREAM_SHUTDOWN''))"

definition sent_ok :: "u64 list \<Rightarrow> u64 \<Rightarrow> nat option \<times> u64 \<times> td_function \<Rightarrow> bool" where
  "sent_ok ids counter x = (case fst x of
     Some i \<Rightarrow> i < length ids \<and> fst (snd x) = ids ! i
   | None \<Rightarrow> fst (snd x) \<notin> set ids \<and> unat (fst (snd x)) \<le> unat counter)"

definition ids_inv :: "bridge \<Rightarrow> bool" where
  "ids_inv b \<longleftrightarrow>
     distinct (b_ids b) \<and> (\<forall>i \<in> set (b_ids b). i \<noteq> 0 \<and> unat i \<le> unat (b_counter b))
     \<and> (\<forall>e \<in> set (table (b_once b)). snd e < length (b_ids b) \<and> fst e = b_ids b ! snd e)
     \<and> (\<forall>e \<in> set (b_unsent b). fst e < length (b_ids b))
     \<and> (\<forall>x \<in> set (b_sent b). sent_ok (b_ids b) (b_counter b) x)"

definition results_inv :: "bridge \<Rightarrow> bool" where
  "results_inv b \<longleftrightarrow>
     (\<forall>e \<in> set (claimed (b_once b)). good_result b (fst e) (snd e))
     \<and> (\<forall>i < length (slots (b_once b)). \<forall>r. slots (b_once b) ! i = Some r \<longrightarrow> good_result b i r)"

definition bridge_inv :: "bridge \<Rightarrow> bool" where
  "bridge_inv b \<longleftrightarrow>
     once_inv (b_once b) \<and> ids_inv b \<and> results_inv b
     \<and> length (b_ids b) = length (slots (b_once b))
     \<and> length (b_deadlines b) = length (slots (b_once b))
     \<and> (\<forall>d \<in> set (b_deadlines b). d \<le> time_max)
     \<and> length (table (b_once b)) \<le> b_max_inflight b"

lemma bridge_inv_init: "bridge_inv (bridge_init m ttl ivl)"
  by (simp add: bridge_inv_def bridge_init_def ids_inv_def results_inv_def once_empty_def
      once_inv_empty [unfolded once_empty_def])

lemma fresh_id:
  assumes "ids_inv b" "b_counter b \<noteq> - 1"
  shows "next_id (b_counter b) \<notin> set (b_ids b)" "map_of (table (b_once b)) (next_id (b_counter b)) = None"
    "(None, rid, fn) \<in> set (b_sent b) \<Longrightarrow> rid \<noteq> next_id (b_counter b)"
proof -
  show 1: "next_id (b_counter b) \<notin> set (b_ids b)"
    using assms unat_next_id [OF assms(2)] by (fastforce simp: ids_inv_def)
  show "map_of (table (b_once b)) (next_id (b_counter b)) = None"
    using assms(1) 1 by (auto simp: ids_inv_def map_of_eq_None_iff)
  show "rid \<noteq> next_id (b_counter b)" if "(None, rid, fn) \<in> set (b_sent b)"
    using assms(1) that unat_next_id [OF assms(2)] by (auto simp: ids_inv_def sent_ok_def dest!: bspec)
qed

lemma await_suspend_cases:
  assumes "ids_inv b" "b_counter b \<noteq> - 1"
  obtains (busy) "b_max_inflight b \<le> length (table (b_once b))"
      "await_suspend now fn b = b\<lparr>b_counter := next_id (b_counter b), b_ids := b_ids b @ [next_id (b_counter b)],
         b_deadlines := b_deadlines b @ [now + b_ttl b],
         b_once := once_reject (Rejected, Some (makeError 503 ''SERVICE_BUSY'')) (b_once b)\<rparr>"
    | (waiting) "length (table (b_once b)) < b_max_inflight b"
      "await_suspend now fn b = b\<lparr>b_counter := next_id (b_counter b), b_ids := b_ids b @ [next_id (b_counter b)],
         b_deadlines := b_deadlines b @ [now + b_ttl b],
         b_once := once_insert (next_id (b_counter b)) (b_once b),
         b_unsent := b_unsent b @ [(length (slots (b_once b)), fn)]\<rparr>"
  using fresh_id(2) [OF assms]
  by (cases "b_max_inflight b \<le> length (table (b_once b))")
    (auto simp: await_suspend_def Let_def corr_tryInsert_def once_insert_def)

lemma good_result_mono:
  "good_result b i r \<Longrightarrow> i < length (b_ids b) \<Longrightarrow> b_ids b' = b_ids b @ x \<Longrightarrow>
   set (b_received b) \<subseteq> set (b_received b') \<Longrightarrow> good_result b' i r"
  by (auto simp: good_result_def nth_append)

lemma ids_inv_frame:
  assumes "ids_inv b" "b_ids b' = b_ids b" "b_counter b' = b_counter b" "b_sent b' = b_sent b"
    and "\<forall>e \<in> set (table (b_once b')). e \<in> set (table (b_once b))"
    and "\<forall>e \<in> set (b_unsent b'). e \<in> set (b_unsent b)"
  shows "ids_inv b'"
  using assms(1,5,6) unfolding ids_inv_def assms(2-4) by blast

lemma ids_inv_grow:
  assumes ids: "ids_inv b" and c: "b_counter b \<noteq> - 1"
    and b': "b_counter b' = next_id (b_counter b)" "b_ids b' = b_ids b @ [next_id (b_counter b)]"
      "b_sent b' = b_sent b"
    and tbl: "\<forall>e \<in> set (table (b_once b')). e \<in> set (table (b_once b)) \<or> e = (next_id (b_counter b), length (b_ids b))"
    and uns: "\<forall>e \<in> set (b_unsent b'). e \<in> set (b_unsent b) \<or> fst e = length (b_ids b)"
  shows "ids_inv b'"
proof -
  note fresh = fresh_id [OF ids c] and un = unat_next_id [OF c]
  have grow: "i < length (b_ids b) \<Longrightarrow> b_ids b' ! i = b_ids b ! i" for i by (simp add: b'(2) nth_append)
  have "distinct (b_ids b') \<and> (\<forall>i \<in> set (b_ids b'). i \<noteq> 0 \<and> unat i \<le> unat (b_counter b'))"
    using ids fresh(1) un next_id_nonzero by (auto simp: ids_inv_def b')
  moreover have "snd e < length (b_ids b') \<and> fst e = b_ids b' ! snd e" if "e \<in> set (table (b_once b'))" for e
  proof (cases "e \<in> set (table (b_once b))")
    case True
    then have "snd e < length (b_ids b)" "fst e = b_ids b ! snd e" using ids by (auto simp: ids_inv_def)
    then show ?thesis using grow [of "snd e"] by (simp add: b'(2))
  next
    case False
    then have "e = (next_id (b_counter b), length (b_ids b))" using tbl that by blast
    then show ?thesis by (simp add: b'(2))
  qed
  moreover have "fst e < length (b_ids b')" if "e \<in> set (b_unsent b')" for e
  proof -
    have "fst e \<le> length (b_ids b)" using uns that ids by (auto simp: ids_inv_def less_imp_le)
    then show ?thesis by (simp add: b'(2))
  qed
  moreover have "sent_ok (b_ids b') (b_counter b') x" if "x \<in> set (b_sent b')" for x
  proof -
    have old: "sent_ok (b_ids b) (b_counter b) x" using that ids by (simp add: b'(3) ids_inv_def)
    show ?thesis
    proof (cases "fst x")
      case None
      then have "fst (snd x) \<noteq> next_id (b_counter b)"
        using fresh(3) [of "fst (snd x)" "snd (snd x)"] that b'(3) by (cases x) auto
      with None old un show ?thesis by (simp add: sent_ok_def b'(1,2))
    next
      case (Some i)
      with old grow [of i] show ?thesis by (simp add: sent_ok_def b'(2))
    qed
  qed
  ultimately show ?thesis unfolding ids_inv_def by blast
qed

lemma results_inv_frame:
  assumes "results_inv b" "b_ids b' = b_ids b" "set (b_received b) \<subseteq> set (b_received b')"
    and "\<forall>e \<in> set (claimed (b_once b')). e \<in> set (claimed (b_once b)) \<or> good_result b' (fst e) (snd e)"
    and "length (slots (b_once b')) = length (slots (b_once b))"
    and "\<forall>i r. slots (b_once b') ! i = Some r \<longrightarrow> slots (b_once b) ! i = Some r \<or> good_result b' i r"
  shows "results_inv b'"
proof -
  have mono: "good_result b i r \<Longrightarrow> good_result b' i r" for i r
    using assms(2,3) by (auto simp: good_result_def)
  then show ?thesis
    using assms(1,4,6) unfolding results_inv_def assms(5) by metis
qed

lemma results_grow:
  assumes "results_inv b" "once_inv (b_once b)" "length (b_ids b) = length (slots (b_once b))"
    and "b_ids b' = b_ids b @ x" "b_received b' = b_received b"
    and "claimed (b_once b') = claimed (b_once b)" "slots (b_once b') = slots (b_once b) @ [s]"
    and "\<And>r. s = Some r \<Longrightarrow> good_result b' (length (slots (b_once b))) r"
  shows "results_inv b'"
proof -
  have grow: "good_result b i r \<Longrightarrow> i < length (b_ids b) \<Longrightarrow> good_result b' i r" for i r
    using good_result_mono [OF _ _ assms(4)] assms(5) by simp
  have "good_result b' (fst e) (snd e)" if "e \<in> set (claimed (b_once b'))" for e
    using that assms(1) place_bounds(2) [OF assms(2), of e]
    by (intro grow) (simp_all add: results_inv_def assms(3,6))
  moreover have "good_result b' i r"
    if "i < length (slots (b_once b'))" "slots (b_once b') ! i = Some r" for i r
  proof (cases "i < length (slots (b_once b))")
    case True
    then have "slots (b_once b) ! i = Some r" using that by (simp add: assms(7) nth_append)
    then have "good_result b i r" using assms(1) True unfolding results_inv_def by blast
    then show ?thesis using True by (intro grow) (simp_all add: assms(3))
  next
    case False
    then have i: "i = length (slots (b_once b))" using that(1) by (simp add: assms(7))
    then have "s = Some r" using that(2) by (simp add: assms(7))
    then show ?thesis unfolding i by (rule assms(8))
  qed
  ultimately show ?thesis unfolding results_inv_def by blast
qed

lemma await_suspend_inv [inv_intros]:
  assumes inv: "bridge_inv b" and c: "b_counter b \<noteq> - 1" and t: "now + b_ttl b \<le> time_max"
  shows "bridge_inv (await_suspend now fn b)"
proof -
  have ids: "ids_inv b" and once: "once_inv (b_once b)" and res: "results_inv b"
    and len: "length (b_ids b) = length (slots (b_once b))"
    using inv by (auto simp: bridge_inv_def)
  from ids c show ?thesis
  proof (cases rule: await_suspend_cases [where now = now and fn = fn])
    case busy
    have "ids_inv (await_suspend now fn b)"
      by (rule ids_inv_grow [OF ids c]) (simp_all add: busy(2) once_reject_def)
    moreover have "results_inv (await_suspend now fn b)"
      by (rule results_grow [OF res once len]) (auto simp: busy(2) once_reject_def good_result_def)
    ultimately show ?thesis
      using inv t once_reject_inv [OF once] unfolding bridge_inv_def by (auto simp: busy(2) once_reject_def)
  next
    case waiting
    have "ids_inv (await_suspend now fn b)"
      by (rule ids_inv_grow [OF ids c]) (auto simp: waiting(2) once_insert_def len)
    moreover have "results_inv (await_suspend now fn b)"
      by (rule results_grow [OF res once len]) (auto simp: waiting(2) once_insert_def)
    moreover have "once_inv (once_insert (next_id (b_counter b)) (b_once b))"
      using fresh_id(2) [OF ids c] by (intro once_insert_inv [OF once]) (simp add: map_of_eq_None_iff)
    ultimately show ?thesis
      using inv t waiting(1) unfolding bridge_inv_def by (auto simp: waiting(2) once_insert_def)
  qed
qed

text \<open>The steps that make no new state.\<close>

lemma frame_inv:
  assumes inv: "bridge_inv b" and once: "once_inv (b_once b')" and ids: "ids_inv b'" and res: "results_inv b'"
    and "b_ids b' = b_ids b" "b_deadlines b' = b_deadlines b" "b_max_inflight b' = b_max_inflight b"
    and "length (slots (b_once b')) = length (slots (b_once b))"
    and "length (table (b_once b')) \<le> length (table (b_once b))"
  shows "bridge_inv b'"
  using assms unfolding bridge_inv_def by auto

lemma bridge_invD:
  assumes "bridge_inv b"
  shows "once_inv (b_once b)" "ids_inv b" "results_inv b"
    "length (b_ids b) = length (slots (b_once b))" "length (b_deadlines b) = length (slots (b_once b))"
  using assms by (auto simp: bridge_inv_def)

lemma send_registered_inv [inv_intros]:
  assumes "bridge_inv b" "e \<in> set (b_unsent b)"
  shows "bridge_inv (send_registered e b)"
proof (rule frame_inv [OF assms(1)])
  show "ids_inv (send_registered e b)"
    using bridge_invD(2) [OF assms(1)] assms(2)
    by (auto simp: ids_inv_def send_registered_def sent_ok_def dest: set_remove1_subset [THEN subsetD])
qed (use bridge_invD [OF assms(1)] in
    \<open>simp_all add: send_registered_def results_inv_def good_result_def\<close>)

lemma sendOneWay_inv [inv_intros]:
  assumes "bridge_inv b" "b_counter b \<noteq> - 1"
  shows "bridge_inv (sendOneWay fn b)"
proof (rule frame_inv [OF assms(1)])
  note ids = bridge_invD(2) [OF assms(1)]
  note un = unat_next_id [OF assms(2)] and fresh = fresh_id(1) [OF ids assms(2)]
  have "sent_ok (b_ids b) (next_id (b_counter b)) x" if "x \<in> set (b_sent b)" for x
  proof -
    have "sent_ok (b_ids b) (b_counter b) x" using ids that by (simp add: ids_inv_def)
    then show ?thesis using un by (auto simp: sent_ok_def split: option.splits)
  qed
  moreover have "\<forall>i \<in> set (b_ids b). unat i \<le> unat (next_id (b_counter b))"
    using ids un by (auto simp: ids_inv_def)
  moreover have "sent_ok (b_ids b) (next_id (b_counter b)) (None, next_id (b_counter b), fn)"
    using fresh by (simp add: sent_ok_def)
  ultimately show "ids_inv (sendOneWay fn b)"
    using ids by (auto simp: ids_inv_def sendOneWay_def Let_def)
qed (use bridge_invD [OF assms(1)] in
    \<open>simp_all add: sendOneWay_def Let_def results_inv_def good_result_def\<close>)

lemma dispatch_claim_inv [inv_intros]:
  assumes "bridge_inv b"
  shows "bridge_inv (dispatch_claim rid ob b)"
proof (rule frame_inv [OF assms])
  note inv = bridge_invD [OF assms]
  show "once_inv (b_once (dispatch_claim rid ob b))"
    using inv(1) by (simp add: dispatch_claim_def once_claim_inv)
  show "ids_inv (dispatch_claim rid ob b)"
    by (rule ids_inv_frame [OF inv(2)]) (auto simp: dispatch_claim_def once_claim_def split: option.splits)
  have "b_ids b ! i = rid" if "map_of (table (b_once b)) rid = Some i" for i
    using inv(2) map_of_SomeD [OF that] by (fastforce simp: ids_inv_def)
  then show "results_inv (dispatch_claim rid ob b)"
    by (intro results_inv_frame [OF inv(3)])
      (auto simp: dispatch_claim_def once_claim_def good_result_def split: option.splits)
qed (auto simp: dispatch_claim_def once_claim_def split: option.splits)

lemma claimExpired_inv [inv_intros]:
  assumes "bridge_inv b" "\<And>i b. good_result b i r"
  shows "bridge_inv (claimExpired now r b)"
proof (rule frame_inv [OF assms(1)])
  note inv = bridge_invD [OF assms(1)]
  show "once_inv (b_once (claimExpired now r b))"
    using inv(1) by (simp add: claimExpired_def once_claim_all_inv)
  show "ids_inv (claimExpired now r b)"
    by (rule ids_inv_frame [OF inv(2)]) (auto simp: claimExpired_def once_claim_all_def)
  show "results_inv (claimExpired now r b)"
    using assms(2) by (intro results_inv_frame [OF inv(3)]; cases r) (auto simp: claimExpired_def once_claim_all_def)
qed (auto simp: claimExpired_def once_claim_all_def)

lemma resolve_inv [inv_intros]:
  assumes "bridge_inv b" "e \<in> set (claimed (b_once b))"
  shows "bridge_inv (resolve lr e b)"
proof (rule frame_inv [OF assms(1)])
  note inv = bridge_invD [OF assms(1)]
  note f = once_resolve_frame [OF assms(2), of lr]
  have i: "fst e < length (slots (b_once b))" by (rule place_bounds(2) [OF inv(1) assms(2)])
  have n: "slots (b_once b) ! fst e = None" using inv(1) assms(2) by (simp add: once_inv_def)
  have s: "slots (once_resolve lr e (b_once b)) = (slots (b_once b))[fst e := Some (snd e)]"
    using n by (simp add: once_resolve_def Let_def)
  have g: "good_result (resolve lr e b) (fst e) (snd e)"
    using inv(3) assms(2) by (auto simp: results_inv_def good_result_def resolve_def)
  show "once_inv (b_once (resolve lr e b))"
    using inv(1) assms(2) by (simp add: resolve_def once_resolve_inv)
  show "ids_inv (resolve lr e b)"
    by (rule ids_inv_frame [OF inv(2)]) (simp_all add: resolve_def f)
  show "results_inv (resolve lr e b)"
  proof (rule results_inv_frame [OF inv(3)])
    show "\<forall>i r. slots (b_once (resolve lr e b)) ! i = Some r \<longrightarrow>
        slots (b_once b) ! i = Some r \<or> good_result (resolve lr e b) i r"
      using g i by (auto simp: resolve_def s nth_list_update)
  qed (auto simp: resolve_def f dest: set_remove1_subset [THEN subsetD])
qed (use once_resolve_frame [OF assms(2), of lr] in \<open>simp_all add: resolve_def\<close>)

lemma resume_inv [inv_intros]:
  assumes "bridge_inv b" "i \<in> set (queued (b_once b))"
  shows "bridge_inv (b\<lparr>b_once := once_resume i (b_once b)\<rparr>)"
proof (rule frame_inv [OF assms(1)])
  note inv = bridge_invD [OF assms(1)]
  note f = once_resume_frame [of i "b_once b"]
  show "once_inv (b_once (b\<lparr>b_once := once_resume i (b_once b)\<rparr>))"
    using inv(1) assms(2) by (simp add: once_resume_inv)
  show "ids_inv (b\<lparr>b_once := once_resume i (b_once b)\<rparr>)"
    by (rule ids_inv_frame [OF inv(2)]) (simp_all add: f)
  show "results_inv (b\<lparr>b_once := once_resume i (b_once b)\<rparr>)"
    by (rule results_inv_frame [OF inv(3)]) (simp_all add: f)
qed (simp_all add: once_resume_frame)

lemma good_errors [simp]:
  "good_result b i (TimedOut, Some (makeError 504 ''UPSTREAM_TIMEOUT''))"
  "good_result b i (Rejected, Some (makeError 503 ''UPSTREAM_SHUTDOWN''))"
  by (simp_all add: good_result_def)

lemma bstep_inv: "bstep b b' \<Longrightarrow> bridge_inv b \<Longrightarrow> bridge_inv b'"
  by (induction rule: bstep.induct) (simp_all add: await_suspend_inv send_registered_inv sendOneWay_inv
      dispatch_claim_inv claimExpired_inv resolve_inv resume_inv)

lemma reachable_inv: "bridge_reachable b \<Longrightarrow> bridge_inv b"
  by (induction rule: bridge_reachable.induct) (simp_all add: bridge_inv_init bstep_inv)

section \<open>The sequential operations are sequences of steps\<close>

lemma resolve_claimed_once:
  "resolve_claimed lr b = b\<lparr>b_once := fold (once_resolve lr) (claimed (b_once b)) (b_once b)\<rparr>"
proof -
  have "fold (resolve lr) es b = b\<lparr>b_once := fold (once_resolve lr) es (b_once b)\<rparr>" for es
    by (induction es arbitrary: b) (simp_all add: resolve_def)
  then show ?thesis by (simp add: resolve_claimed_def)
qed

lemma fold_resolve_reach:
  "bridge_reachable b \<Longrightarrow> claimed (b_once b) = es \<Longrightarrow> bridge_reachable (fold (resolve lr) es b)"
proof (induction es arbitrary: b)
  case (Cons e es)
  then have e: "e \<in> set (claimed (b_once b))" by simp
  have "bridge_reachable (resolve lr e b)"
    using Cons.prems(1) step_resolve [OF e] by (rule reach_step)
  moreover have "claimed (b_once (resolve lr e b)) = es"
    using once_resolve_frame(3) [OF e, of lr] Cons.prems(2) by (simp add: resolve_def)
  ultimately show ?case using Cons.IH by simp
qed simp

lemma resolve_claimed_reach: "bridge_reachable b \<Longrightarrow> bridge_reachable (resolve_claimed lr b)"
  by (simp add: resolve_claimed_def fold_resolve_reach)

lemma dispatch_reach: "bridge_reachable b \<Longrightarrow> bridge_reachable (dispatch lr rid ob b)"
  unfolding dispatch_def by (intro resolve_claimed_reach reach_step [OF _ step_receive])

lemma sweepExpired_reach: "bridge_reachable b \<Longrightarrow> bridge_reachable (sweepExpired lr now b)"
  unfolding sweepExpired_def by (intro resolve_claimed_reach reach_step [OF _ step_expire])

lemma drainPending_reach: "bridge_reachable b \<Longrightarrow> bridge_reachable (drainPending lr b)"
  unfolding drainPending_def by (intro resolve_claimed_reach reach_step [OF _ step_drain])

lemma claimExpired_table:
  "table (b_once (claimExpired now r b)) = filter (\<lambda>e. \<not> b_deadlines b ! snd e \<le> now) (table (b_once b))"
  by (simp add: claimExpired_def once_claim_all_def)

lemma resolve_claimed_table:
  assumes "once_inv (b_once b)"
  shows "table (b_once (resolve_claimed lr b)) = table (b_once b)"
    "length (slots (b_once (resolve_claimed lr b))) = length (slots (b_once b))"
    "b_deadlines (resolve_claimed lr b) = b_deadlines b"
    "claimed (b_once (resolve_claimed lr b)) = []"
  using fold_resolve [OF assms refl, of lr] by (simp_all add: resolve_claimed_once)

section \<open>What the bridge promises\<close>

text \<open>C1: one request, one resumption. After any interleaving of handlers, receiver, sweeps, shutdown and event
  loops, no coroutine has been resumed twice; and every coroutine ever suspended is in exactly one
  place: waiting in the table, claimed by one resolver, queued in its loop, or resumed. None is lost.\<close>

theorem bridge_exactly_once:
  assumes "bridge_reachable b"
  shows "distinct (map fst (resumed (b_once b)))
    \<and> mset (map snd (table (b_once b))) + mset (map fst (claimed (b_once b))) + mset (queued (b_once b))
        + mset (map fst (resumed (b_once b))) = mset [0..<length (slots (b_once b))]"
proof -
  have inv: "once_inv (b_once b)" using reachable_inv [OF assms] by (simp add: bridge_inv_def)
  have "distinct (map fst (resumed (b_once b)))" using places_once [OF inv] by simp
  moreover have "places (b_once b) = mset [0..<length (slots (b_once b))]"
    using inv by (simp add: once_inv_def)
  ultimately show ?thesis by (simp add: places_def)
qed

lemma one_request_reachable:
  "bridge_reachable (dispatch True 1 ObjOk (await_suspend 0 GetMe (bridge_init 2000 30000 1000)))"
  by (intro dispatch_reach reach_step [OF reach_init step_suspend])
    (simp_all add: bridge_init_def time_max_def)

theorem bridge_exactly_once_witness:
  "queued (b_once (dispatch True 1 ObjOk (await_suspend 0 GetMe (bridge_init 2000 30000 1000)))) = [0]
   \<and> distinct (map fst (resumed (b_once (dispatch True 1 ObjOk (await_suspend 0 GetMe (bridge_init 2000 30000 1000))))))"
  using bridge_exactly_once [OF one_request_reachable]
  by (simp add: dispatch_def dispatch_claim_def resolve_claimed_def await_suspend_def next_id_def
      bridge_init_def once_empty_def corr_tryInsert_def once_claim_def resolve_def once_resolve_def Let_def)

text \<open>What a resumed coroutine was given, and the id a request was sent under.\<close>

lemma resumed_good:
  assumes "bridge_reachable b" "(i, r) \<in> set (resumed (b_once b))"
  shows "good_result b i r"
proof -
  have inv: "bridge_inv b" using assms(1) by (rule reachable_inv)
  then have once: "once_inv (b_once b)" and res: "results_inv b" by (auto simp: bridge_inv_def)
  have "slots (b_once b) ! i = Some r" using once assms(2) by (force simp: once_inv_def)
  moreover have "i < length (slots (b_once b))" using place_bounds(4) [OF once assms(2)] by simp
  ultimately show ?thesis using res unfolding results_inv_def by blast
qed

lemma sent_id:
  assumes "bridge_reachable b" "(Some i, rid, fn) \<in> set (b_sent b)"
  shows "rid = b_ids b ! i"
  using reachable_inv [OF assms(1)] assms(2) by (fastforce simp: bridge_inv_def ids_inv_def sent_ok_def)

text \<open>C9: what a resumed handler gets: never a null object; the object TDLib sent for the very id of the
  request, or one of the gateway's own errors (busy, timeout, shutdown), and the phase tells which.\<close>

theorem bridge_result_is_own:
  assumes "bridge_reachable b" "(i, ph, ob) \<in> set (resumed (b_once b))"
  shows "(case ph of
      Fulfilled \<Rightarrow> (\<exists>v. ob = Some v \<and> (b_ids b ! i, v) \<in> set (b_received b))
    | TimedOut \<Rightarrow> ob = Some (ObjError (TdError 504 ''UPSTREAM_TIMEOUT''))
    | Rejected \<Rightarrow> ob \<in> {Some (ObjError (TdError 503 ''SERVICE_BUSY'')), Some (ObjError (TdError 503 ''UPSTREAM_SHUTDOWN''))})
    \<and> distinct (b_ids b)"
  using resumed_good [OF assms] reachable_inv [OF assms(1)]
  by (auto simp: good_result_def makeError_def bridge_inv_def ids_inv_def split: phase.split)

theorem bridge_result_is_own_witness:
  "\<exists>b :: bridge. (0, Fulfilled, Some ObjOk) \<in> set (resumed (b_once b)) \<and> (b_ids b ! 0, ObjOk) \<in> set (b_received b)"
proof -
  let ?b = "dispatch False 1 ObjOk (await_suspend 0 GetMe (bridge_init 2000 30000 1000))"
  have r: "bridge_reachable ?b"
    by (intro dispatch_reach reach_step [OF reach_init step_suspend]) (simp_all add: bridge_init_def time_max_def)
  have m: "(0, Fulfilled, Some ObjOk) \<in> set (resumed (b_once ?b))"
    by (simp add: dispatch_def dispatch_claim_def resolve_claimed_def await_suspend_def next_id_def
        bridge_init_def once_empty_def corr_tryInsert_def once_claim_def resolve_def once_resolve_def Let_def)
  show ?thesis using bridge_result_is_own [OF r m] m by auto
qed

text \<open>insert before send. Once a request has been handed to TDLib, the response to its id finds the waiting
  coroutine in the table, unless that coroutine has already been claimed, queued or resumed: no
  response can come too early and be dropped. And a fire-and-forget call shares its id with no request.\<close>

theorem bridge_insert_before_send:
  assumes "bridge_reachable b" "(Some i, rid, fn) \<in> set (b_sent b)"
  shows "(map_of (table (b_once b)) rid = Some i \<or> i \<in> fst ` set (claimed (b_once b))
      \<or> i \<in> set (queued (b_once b)) \<or> i \<in> fst ` set (resumed (b_once b)))
    \<and> (\<forall>x \<in> set (b_sent b). fst x = None \<longrightarrow> fst (snd x) \<notin> set (b_ids b))"
proof -
  have inv: "bridge_inv b" using assms(1) by (rule reachable_inv)
  then have once: "once_inv (b_once b)" and ids: "ids_inv b"
    and len: "length (b_ids b) = length (slots (b_once b))" by (auto simp: bridge_inv_def)
  have i: "i < length (b_ids b)" "rid = b_ids b ! i"
    using ids assms(2) by (fastforce simp: ids_inv_def sent_ok_def)+
  then have "i \<in># places (b_once b)" using once len by (simp add: once_inv_def)
  then consider "i \<in> snd ` set (table (b_once b))" | "i \<in> fst ` set (claimed (b_once b))"
    | "i \<in> set (queued (b_once b))" | "i \<in> fst ` set (resumed (b_once b))"
    by (auto simp: places_def)
  then have "map_of (table (b_once b)) rid = Some i \<or> i \<in> fst ` set (claimed (b_once b))
      \<or> i \<in> set (queued (b_once b)) \<or> i \<in> fst ` set (resumed (b_once b))"
  proof cases
    case 1
    then obtain e where e: "e \<in> set (table (b_once b))" "i = snd e" by auto
    moreover have "fst e = rid" using ids e i(2) by (auto simp: ids_inv_def)
    moreover have "distinct (map fst (table (b_once b)))" using once by (simp add: once_inv_def)
    ultimately have "map_of (table (b_once b)) rid = Some i" by (metis map_of_is_SomeI prod.collapse)
    then show ?thesis by simp
  qed blast+
  moreover have "\<forall>x \<in> set (b_sent b). fst x = None \<longrightarrow> fst (snd x) \<notin> set (b_ids b)"
    using ids by (auto simp: ids_inv_def sent_ok_def split: option.splits)
  ultimately show ?thesis by blast
qed

theorem bridge_insert_before_send_witness:
  "\<exists>b :: bridge. (Some 0, 1, GetMe) \<in> set (b_sent b) \<and> map_of (table (b_once b)) 1 = Some 0"
proof -
  let ?a = "await_suspend 0 GetMe (bridge_init 2000 30000 1000)"
  let ?b = "send_registered (0, GetMe) ?a"
  have a: "bridge_reachable ?a"
    by (intro reach_step [OF reach_init step_suspend]) (simp_all add: bridge_init_def time_max_def)
  note ev = await_suspend_def next_id_def bridge_init_def once_empty_def corr_tryInsert_def
    send_registered_def Let_def
  have r: "bridge_reachable ?b" by (rule reach_step [OF a step_send]) (simp add: ev)
  have s: "(Some 0, 1, GetMe) \<in> set (b_sent ?b)" by (simp add: ev)
  have m: "map_of (table (b_once ?b)) 1 = Some 0"
    using bridge_insert_before_send [OF r s] by (simp add: ev)
  show ?thesis by (rule exI [of _ ?b]) (rule conjI [OF s m])
qed

text \<open>shutdown leaves nobody waiting. After \<^verbatim>\<open>drainPending\<close>, once the event loops have run what is queued,
  every coroutine that was ever suspended has been resumed exactly once.\<close>

theorem bridge_drain_complete:
  assumes "bridge_reachable b"
  shows "table (b_once (drainPending lr b)) = []
    \<and> mset (map fst (resumed (settle lr (b_once (drainPending lr b))))) = mset [0..<length (slots (b_once b))]"
proof -
  let ?r = "(Rejected, Some (makeError 503 ''UPSTREAM_SHUTDOWN''))"
  have inv: "bridge_inv b" using assms by (rule reachable_inv)
  then have "\<forall>e \<in> set (table (b_once b)). b_deadlines b ! snd e \<le> time_max"
    by (auto simp: bridge_inv_def ids_inv_def)
  then have t: "table (b_once (claimExpired time_max ?r b)) = []"
    by (simp add: claimExpired_table filter_empty_conv)
  have c: "once_inv (b_once (claimExpired time_max ?r b))"
    using claimExpired_inv [OF inv, of ?r] by (simp add: bridge_inv_def)
  have e: "table (b_once (drainPending lr b)) = []"
    unfolding drainPending_def by (simp add: resolve_claimed_table [OF c] t)
  moreover have "once_inv (b_once (drainPending lr b))"
    using reachable_inv [OF drainPending_reach [OF assms]] by (simp add: bridge_inv_def)
  moreover have "length (slots (b_once (drainPending lr b))) = length (slots (b_once b))"
    unfolding drainPending_def resolve_claimed_table(2) [OF c]
    by (simp add: claimExpired_def once_claim_all_def)
  ultimately show ?thesis using settled_all_resumed [of "b_once (drainPending lr b)" lr] by simp
qed

theorem bridge_drain_complete_witness:
  "table (b_once (drainPending True (await_suspend 0 GetMe (bridge_init 2000 30000 1000)))) = []"
proof -
  have "bridge_reachable (await_suspend 0 GetMe (bridge_init 2000 30000 1000))"
    by (intro reach_step [OF reach_init step_suspend]) (simp_all add: bridge_init_def time_max_def)
  from bridge_drain_complete [OF this, of True] show ?thesis by simp
qed

text \<open>the limits hold. There are never more requests in flight than configured; and a turn of the receive
  loop in which the sweep is due leaves no request in the table whose deadline has passed.\<close>

theorem bridge_limits:
  assumes "bridge_reachable b"
  shows "length (table (b_once b)) \<le> b_max_inflight b
    \<and> (b_sweep_interval b \<le> now - b_last_sweep b \<longrightarrow>
        (\<forall>e \<in> set (table (b_once (receive_turn lr now (rid, ans) b))). now < b_deadlines b ! snd e))"
proof -
  have inv: "bridge_inv b" using assms by (rule reachable_inv)
  let ?r = "(TimedOut, Some (makeError 504 ''UPSTREAM_TIMEOUT''))"
  let ?s = "(sweepExpired lr now b)\<lparr>b_last_sweep := now\<rparr>"
  have c: "once_inv (b_once (claimExpired now ?r b))"
    using claimExpired_inv [OF inv, of ?r] by (simp add: bridge_inv_def)
  have t: "\<forall>e \<in> set (table (b_once ?s)). now < b_deadlines b ! snd e"
    unfolding sweepExpired_def by (simp add: resolve_claimed_table [OF c] claimExpired_table)
  have so: "once_inv (b_once (dispatch_claim rid ob ?s))" for ob
    using reachable_inv [OF sweepExpired_reach [OF assms]]
    by (auto simp: bridge_inv_def dispatch_claim_def intro: once_claim_inv)
  have sub: "set (table (b_once (dispatch lr rid ob ?s))) \<subseteq> set (table (b_once ?s))" for ob
    unfolding dispatch_def resolve_claimed_table(1) [OF so]
    by (auto simp: dispatch_claim_def once_claim_def split: option.splits)
  have "\<forall>e \<in> set (table (b_once (receive_turn lr now (rid, ans) b))). now < b_deadlines b ! snd e"
    if "b_sweep_interval b \<le> now - b_last_sweep b"
    using that t sub by (cases ans) (auto simp: receive_turn_def Let_def)
  then show ?thesis using inv by (simp add: bridge_inv_def)
qed

theorem bridge_limits_witness:
  "length (table (b_once (await_suspend 0 GetMe (bridge_init 1 30000 1000)))) \<le> 1"
proof -
  have "bridge_reachable (await_suspend 0 GetMe (bridge_init 1 30000 1000))"
    by (intro reach_step [OF reach_init step_suspend]) (simp_all add: bridge_init_def time_max_def)
  from bridge_limits [OF this, of 0 True 0 None] show ?thesis
    by (simp add: await_suspend_def bridge_init_def Let_def once_empty_def corr_tryInsert_def once_reject_def)
qed

end
