(* ===== verification/BoundedQueue.thy ===== *)
theory BoundedQueue
  imports Prelude
begin

text \<open>
  The contract between a thread that must never block and a worker that may: the webhook dispatcher and the
  Kafka sink both put an item into a queue under a mutex, drop it when the queue is full, and let the worker
  swap the whole queue out. The abstract queue they implement is a list that takes an item while it is shorter
  than its capacity and hands out everything at once; \<open>bounded_queue\<close> is the interface, and every run of an
  implementation is a run of that queue.
\<close>

datatype 'a queue_op = Offer 'a | TakeAll

section \<open>The abstract queue\<close>

text \<open>Its state: what waits, what was handed out so far, and how many items were refused for want of room.\<close>

type_synonym 'a fifo = "'a list \<times> 'a list \<times> nat"

fun fifo_step :: "nat \<Rightarrow> 'a queue_op \<Rightarrow> 'a fifo \<Rightarrow> 'a fifo" where
  "fifo_step cap (Offer x) (waiting, taken, refused) =
     (if length waiting < cap then (waiting @ [x], taken, refused) else (waiting, taken, Suc refused))"
| "fifo_step cap TakeAll (waiting, taken, refused) = ([], taken @ waiting, refused)"

definition fifo_run :: "nat \<Rightarrow> 'a queue_op list \<Rightarrow> 'a fifo \<Rightarrow> 'a fifo" where
  "fifo_run cap ops q = fold (fifo_step cap) ops q"

fun offered :: "'a queue_op list \<Rightarrow> 'a list" where
  "offered [] = []"
| "offered (Offer x # ops) = x # offered ops"
| "offered (TakeAll # ops) = offered ops"

lemma fifo_run_simps [simp]:
  "fifo_run cap [] q = q"
  "fifo_run cap (op # ops) q = fifo_run cap ops (fifo_step cap op q)"
  by (simp_all add: fifo_run_def)

text \<open>What is handed out and what still waits are, in order, the offers that were not refused.\<close>

fun kept :: "nat \<Rightarrow> nat \<Rightarrow> 'a queue_op list \<Rightarrow> 'a list" where
  "kept cap n [] = []"
| "kept cap n (Offer x # ops) = (if n < cap then x # kept cap (Suc n) ops else kept cap n ops)"
| "kept cap n (TakeAll # ops) = kept cap 0 ops"

lemma fifo_run_kept:
  assumes "length w \<le> cap" "fifo_run cap ops (w, t, n) = (w', t', n')"
  shows "t' @ w' = t @ w @ kept cap (length w) ops \<and> length w' \<le> cap
    \<and> n' + length (kept cap (length w) ops) = n + length (offered ops)"
  using assms
proof (induction ops arbitrary: w t n)
  case (Cons op ops)
  show ?case
  proof (cases op)
    case (Offer x)
    show ?thesis
    proof (cases "length w < cap")
      case True
      then show ?thesis using Cons.prems Cons.IH [of "w @ [x]" t n] Offer by auto
    next
      case False
      then show ?thesis using Cons.prems Cons.IH [of w t "Suc n"] Offer by auto
    qed
  next
    case TakeAll
    then show ?thesis using Cons.prems Cons.IH [of "[]" "t @ w" n] by auto
  qed
qed simp

section \<open>The interface\<close>

locale bounded_queue =
  fixes offer :: "'a \<Rightarrow> 's \<Rightarrow> 's" and take_all :: "'s \<Rightarrow> 'a list \<times> 's"
    and waiting :: "'s \<Rightarrow> 'a list" and capacity :: "'s \<Rightarrow> nat" and open_for :: "'s \<Rightarrow> bool" and drops :: "'s \<Rightarrow> u64"
  assumes offer_room: "open_for s \<Longrightarrow> length (waiting s) < capacity s \<Longrightarrow>
      waiting (offer x s) = waiting s @ [x] \<and> drops (offer x s) = drops s"
    and offer_full: "open_for s \<Longrightarrow> capacity s \<le> length (waiting s) \<Longrightarrow>
      waiting (offer x s) = waiting s \<and> drops (offer x s) = drops s + 1"
    and offer_frame: "capacity (offer x s) = capacity s \<and> open_for (offer x s) = open_for s"
    and take_result: "fst (take_all s) = waiting s \<and> waiting (snd (take_all s)) = []"
    and take_frame: "capacity (snd (take_all s)) = capacity s \<and> open_for (snd (take_all s)) = open_for s
      \<and> drops (snd (take_all s)) = drops s"
begin

fun step :: "'a queue_op \<Rightarrow> 's \<times> 'a list \<Rightarrow> 's \<times> 'a list" where
  "step (Offer x) (s, out) = (offer x s, out)"
| "step TakeAll (s, out) = (snd (take_all s), out @ fst (take_all s))"

definition run :: "'a queue_op list \<Rightarrow> 's \<Rightarrow> 's \<times> 'a list" where
  "run ops s = fold step ops (s, [])"

text \<open>One step of the implementation is one step of the abstract queue.\<close>

lemma step_refines:
  assumes "open_for s" "drops s = d + of_nat n"
    and "step op (s, out) = (s', out')" "fifo_step (capacity s) op (waiting s, out, n) = (w', t', n')"
  shows "waiting s' = w' \<and> out' = t' \<and> drops s' = d + of_nat n' \<and> open_for s' \<and> capacity s' = capacity s"
proof (cases op)
  case (Offer x)
  show ?thesis
  proof (cases "length (waiting s) < capacity s")
    case True
    then show ?thesis using assms offer_room [OF assms(1) True, of x] offer_frame [of x s] Offer by auto
  next
    case False
    then have "capacity s \<le> length (waiting s)" by simp
    from offer_full [OF assms(1) this, of x] show ?thesis
      using assms False offer_frame [of x s] Offer by auto
  qed
next
  case TakeAll
  then show ?thesis using assms take_result [of s] take_frame [of s] by auto
qed

lemma run_refines:
  assumes "open_for s" "run ops s = (s', out)" "fifo_run (capacity s) ops (waiting s, [], 0) = (w, t, n)"
  shows "waiting s' = w \<and> out = t \<and> drops s' = drops s + of_nat n \<and> open_for s' \<and> capacity s' = capacity s"
proof -
  have "fold step ops (s, o0) = (s', out) \<Longrightarrow> fifo_run (capacity s) ops (waiting s, o0, m) = (w, t, n) \<Longrightarrow>
      open_for s \<Longrightarrow> drops s = d + of_nat m \<Longrightarrow>
      waiting s' = w \<and> out = t \<and> drops s' = d + of_nat n \<and> open_for s' \<and> capacity s' = capacity s" for o0 m d
  proof (induction ops arbitrary: s o0 m)
    case (Cons op ops)
    obtain s1 o1 where st: "step op (s, o0) = (s1, o1)" by fastforce
    obtain w1 t1 n1 where ft: "fifo_step (capacity s) op (waiting s, o0, m) = (w1, t1, n1)"
      by (cases "fifo_step (capacity s) op (waiting s, o0, m)") auto
    from step_refines [OF Cons.prems(3,4) st ft]
    have s1: "waiting s1 = w1" "o1 = t1" "drops s1 = d + of_nat n1" "open_for s1" "capacity s1 = capacity s" by auto
    have "fold step ops (s1, o1) = (s', out)" using Cons.prems(1) st by simp
    moreover have "fifo_run (capacity s1) ops (waiting s1, o1, n1) = (w, t, n)"
      using Cons.prems(2) ft s1 by simp
    ultimately show ?case using Cons.IH [of s1 o1 n1] s1 by simp
  qed simp
  from this [of "[]" 0 "drops s"] assms show ?thesis by (simp add: run_def)
qed

text \<open>Nothing is lost but what is refused, nothing is reordered or doubled, and every refusal is counted.\<close>

lemma run_keeps:
  assumes "open_for s" "length (waiting s) \<le> capacity s" "run ops s = (s', out)"
  shows "out @ waiting s' = waiting s @ kept (capacity s) (length (waiting s)) ops"
    and "length (waiting s') \<le> capacity s"
    and "drops s' = drops s + of_nat (length (offered ops) - length (kept (capacity s) (length (waiting s)) ops))"
proof -
  obtain w t n where f: "fifo_run (capacity s) ops (waiting s, [], 0) = (w, t, n)"
    by (cases "fifo_run (capacity s) ops (waiting s, [], 0)") auto
  note r = run_refines [OF assms(1,3) f] and k = fifo_run_kept [OF assms(2) f]
  show "out @ waiting s' = waiting s @ kept (capacity s) (length (waiting s)) ops" using r k by simp
  show "length (waiting s') \<le> capacity s" using r k by simp
  from k have "n + length (kept (capacity s) (length (waiting s)) ops) = length (offered ops)" by simp
  then have "n = length (offered ops) - length (kept (capacity s) (length (waiting s)) ops)" by arith
  then show "drops s' = drops s + of_nat (length (offered ops) - length (kept (capacity s) (length (waiting s)) ops))"
    using r by simp
qed

end

end
