(* ===== verification/WebhookUrl.thy ===== *)
theory WebhookUrl
  imports CppStrings
begin

text \<open>
  The pure functions of \<^verbatim>\<open>src/src/webhook/webhook_dispatcher.cpp\<close>: taking a receiver's URL apart, and the
  guard against receivers on private addresses. \<^verbatim>\<open>sscanf\<close> is modelled as the C library carries it out, a
  field at a time, with the wrap-around of \<^verbatim>\<open>%u\<close>; \<^verbatim>\<open>inet_pton\<close> for IPv6 is a parameter that yields the
  sixteen bytes of an address, or nothing.
\<close>

section \<open>URLs\<close>

record parsed_url =
  pu_base :: string
  pu_path :: string
  pu_host :: string

definition urlAuthority :: "string \<Rightarrow> string" where
  "urlAuthority rest = (case find_char CHR ''/'' rest of None \<Rightarrow> rest | Some j \<Rightarrow> take j rest)"

definition urlPath :: "string \<Rightarrow> string" where
  "urlPath rest = (case find_char CHR ''/'' rest of None \<Rightarrow> ''/'' | Some j \<Rightarrow> drop j rest)"

definition urlHost :: "string \<Rightarrow> string" where
  "urlHost authority =
     (if hd authority = CHR ''[''
      then (case find_char CHR '']'' authority of
              None \<Rightarrow> drop 1 authority
            | Some close \<Rightarrow> take (close - 1) (drop 1 authority))
      else (case find_char CHR '':'' authority of
              None \<Rightarrow> authority
            | Some colon \<Rightarrow> take colon authority))"

text \<open>\<open>None\<close> is \<^verbatim>\<open>valid == false\<close>.\<close>

definition parseUrl :: "string \<Rightarrow> parsed_url option" where
  "parseUrl url = (case find_str ''://'' url of
     None \<Rightarrow> None
   | Some scheme_end \<Rightarrow>
       (let scheme = take scheme_end url
        in if scheme \<noteq> ''http'' \<and> scheme \<noteq> ''https'' then None
           else (let rest = drop (scheme_end + 3) url; authority = urlAuthority rest
                 in if authority = [] then None
                    else Some \<lparr>pu_base = scheme @ ''://'' @ authority, pu_path = urlPath rest,
                           pu_host = urlHost authority\<rparr>)))"

section \<open>Private addresses\<close>

definition isPrivateIpv4Octets :: "u32 \<Rightarrow> u32 \<Rightarrow> bool" where
  "isPrivateIpv4Octets o0 o1 =
     (if o0 = 127 \<or> o0 = 10 \<or> o0 = 0 then True
      else if o0 = 192 \<and> o1 = 168 then True
      else if o0 = 172 \<and> 16 \<le> o1 \<and> o1 \<le> 31 then True
      else if o0 = 169 \<and> o1 = 254 then True
      else False)"

definition isPrivateIpv6 :: "u8 list \<Rightarrow> bool" where
  "isPrivateIpv6 buf =
     (if list_all (\<lambda>b. b = 0) buf then True
      else if list_all (\<lambda>b. b = 0) (take 15 buf) \<and> buf ! 15 = 1 then True
      else if buf ! 0 AND 0xFE = 0xFC then True
      else if buf ! 0 = 0xFE \<and> buf ! 1 AND 0xC0 = 0x80 then True
      else if take 12 buf = replicate 10 0 @ [0xFF, 0xFF] \<or> list_all (\<lambda>b. b = 0) (take 12 buf)
      then isPrivateIpv4Octets (ucast (buf ! 12)) (ucast (buf ! 13))
      else False)"

text \<open>One \<^verbatim>\<open>%u\<close>: blanks, a sign, digits; the value is that of \<^verbatim>\<open>strtoul\<close>, cut to 32 bits, and what follows is left.\<close>

definition scan_u :: "string \<Rightarrow> (u32 \<times> string) option" where
  "scan_u s = (case scan_number s of (neg, ds, pos) \<Rightarrow>
     if ds = [] then None
     else Some (if uint64_max < digits_value ds then - 1
                else if neg then - of_nat (digits_value ds) else of_nat (digits_value ds), drop pos s))"

definition scan_dot :: "string \<Rightarrow> string option" where
  "scan_dot s = (case s of [] \<Rightarrow> None | c # t \<Rightarrow> if c = CHR ''.'' then Some t else None)"

definition scan_quad :: "string \<Rightarrow> (u32 \<times> u32) option" where
  "scan_quad s =
     Option.bind (scan_u s) (\<lambda>(o0, s0). Option.bind (scan_dot s0) (\<lambda>t0.
     Option.bind (scan_u t0) (\<lambda>(o1, s1). Option.bind (scan_dot s1) (\<lambda>t1.
     Option.bind (scan_u t1) (\<lambda>(o2, s2). Option.bind (scan_dot s2) (\<lambda>t2.
     Option.bind (scan_u t2) (\<lambda>(o3, s3). Some (o0, o1))))))))"

definition isPrivateHost :: "(string \<Rightarrow> u8 list option) \<Rightarrow> string \<Rightarrow> bool" where
  "isPrivateHost inet_pton6 host =
     (if host = [] \<or> host = ''localhost'' then True
      else if CHR '':'' \<in> set host
      then (case inet_pton6 host of None \<Rightarrow> True | Some buf \<Rightarrow> isPrivateIpv6 buf)
      else (case scan_quad host of None \<Rightarrow> False | Some (o0, o1) \<Rightarrow> isPrivateIpv4Octets o0 o1))"

section \<open>Facts: URLs\<close>

lemma find_char_absent [simp]: "c \<notin> set s \<Longrightarrow> find_char c s = None"
  by simp

lemma find_str_scheme: "CHR '':'' \<notin> set p \<Longrightarrow> find_str ''://'' (p @ ''://'' @ r) = Some (length p)"
  by (induction p) (auto simp: starts_with_def)

lemma urlHost_plain:
  assumes "CHR '':'' \<notin> set host" "host \<noteq> []" "hd host \<noteq> CHR ''[''" "port = [] \<or> hd port = CHR '':''"
  shows "urlHost (host @ port) = host"
proof (cases port)
  case Nil
  then show ?thesis using assms by (simp add: urlHost_def del: find_char_None)
next
  case (Cons c ps)
  then have "c = CHR '':''" using assms(4) by simp
  then show ?thesis using assms(1-3) Cons by (simp add: urlHost_def find_char_first)
qed

lemma urlHost_bracketed: "CHR '']'' \<notin> set host \<Longrightarrow> urlHost (CHR ''['' # host @ CHR '']'' # port) = host"
  using find_char_first [of "CHR '']''" "CHR ''['' # host" port] by (simp add: urlHost_def)

text \<open>How a receiver's URL is taken apart: base and path joined are the URL again, the path is \<^verbatim>\<open>/\<close> when it has
  none and starts with a slash when it has one, and the host is the name before the port, or what the brackets
  of an IPv6 address hold.\<close>

theorem parseUrl_parts:
  assumes "scheme = ''http'' \<or> scheme = ''https''" "CHR ''/'' \<notin> set (host @ port)" "path = [] \<or> hd path = CHR ''/''"
    and "host \<noteq> []" "CHR '':'' \<notin> set host" "hd host \<noteq> CHR ''[''" "port = [] \<or> hd port = CHR '':''"
    and "CHR '']'' \<notin> set v6" "CHR ''/'' \<notin> set v6"
  shows "parseUrl (scheme @ ''://'' @ host @ port @ path) =
      Some \<lparr>pu_base = scheme @ ''://'' @ host @ port, pu_path = (if path = [] then ''/'' else path), pu_host = host\<rparr>
    \<and> parseUrl (scheme @ ''://['' @ v6 @ '']'' @ port @ path) =
      Some \<lparr>pu_base = scheme @ ''://['' @ v6 @ '']'' @ port, pu_path = (if path = [] then ''/'' else path), pu_host = v6\<rparr>"
proof -
  have parts: "urlAuthority (a @ path) = a \<and> urlPath (a @ path) = (if path = [] then ''/'' else path)"
    if "CHR ''/'' \<notin> set a" for a
  proof (cases path)
    case Nil
    with that show ?thesis by (simp add: urlAuthority_def urlPath_def del: find_char_None)
  next
    case (Cons c p)
    then have "c = CHR ''/''" using assms(3) by simp
    then have "find_char CHR ''/'' (a @ path) = Some (length a)" using that Cons by (simp add: find_char_first)
    with Cons show ?thesis by (simp add: urlAuthority_def urlPath_def)
  qed
  have parse: "parseUrl (scheme @ ''://'' @ a @ path) =
      Some \<lparr>pu_base = scheme @ ''://'' @ a, pu_path = (if path = [] then ''/'' else path), pu_host = urlHost a\<rparr>"
    if "CHR ''/'' \<notin> set a" "a \<noteq> []" for a
  proof -
    have "CHR '':'' \<notin> set scheme" using assms(1) by auto
    then have "find_str ''://'' (scheme @ ''://'' @ a @ path) = Some (length scheme)" by (rule find_str_scheme)
    then show ?thesis using assms(1) that parts [OF that(1)] by (auto simp: parseUrl_def Let_def)
  qed
  have "parseUrl (scheme @ ''://'' @ (host @ port) @ path) = Some \<lparr>pu_base = scheme @ ''://'' @ (host @ port),
      pu_path = (if path = [] then ''/'' else path), pu_host = urlHost (host @ port)\<rparr>"
    using assms(2,4) by (intro parse) auto
  moreover have "parseUrl (scheme @ ''://'' @ (''['' @ v6 @ '']'' @ port) @ path) =
      Some \<lparr>pu_base = scheme @ ''://'' @ (''['' @ v6 @ '']'' @ port),
        pu_path = (if path = [] then ''/'' else path), pu_host = urlHost (''['' @ v6 @ '']'' @ port)\<rparr>"
    using assms(2,9) by (intro parse) auto
  ultimately show ?thesis
    using urlHost_plain [OF assms(5,4,6,7)] urlHost_bracketed [OF assms(8), of port] by simp
qed

section \<open>Facts: the guard\<close>

definition dotted :: "nat \<Rightarrow> nat \<Rightarrow> nat \<Rightarrow> nat \<Rightarrow> string" where
  "dotted a b c d = nat_to_string a @ ''.'' @ nat_to_string b @ ''.'' @ nat_to_string c @ ''.'' @ nat_to_string d"

lemma scan_u_nat:
  assumes "case r of x # _ \<Rightarrow> \<not> is_digit x | [] \<Rightarrow> True" "n < 256"
  shows "scan_u (nat_to_string n @ r) = Some (of_nat n, r)"
  using assms scan_number_nat_append [OF assms(1), of n] by (simp add: scan_u_def uint64_max_def)

lemma scan_quad_dotted:
  assumes "a < 256" "b < 256" "c < 256" "d < 256"
  shows "scan_quad (dotted a b c d) = Some (of_nat a, of_nat b)"
proof -
  have dot: "scan_u (nat_to_string n @ CHR ''.'' # r) = Some (of_nat n, CHR ''.'' # r)" if "n < 256" for n r
    using that by (intro scan_u_nat) (simp_all add: is_digit_def)
  have fin: "scan_u (nat_to_string d) = Some (of_nat d, [])"
    using scan_u_nat [of "[]" d] assms(4) by simp
  show ?thesis
    using assms by (simp add: scan_quad_def dotted_def dot fin scan_dot_def)
qed

text \<open>The networks that are meant, as address and prefix length, and membership by the leading bits.\<close>

definition private_networks :: "((nat \<times> nat \<times> nat \<times> nat) \<times> nat) list" where
  "private_networks = [((127, 0, 0, 0), 8), ((10, 0, 0, 0), 8), ((0, 0, 0, 0), 8), ((192, 168, 0, 0), 16),
     ((172, 16, 0, 0), 12), ((169, 254, 0, 0), 16)]"

fun address :: "nat \<times> nat \<times> nat \<times> nat \<Rightarrow> nat" where
  "address (a, b, c, d) = ((a * 256 + b) * 256 + c) * 256 + d"

definition in_network :: "nat \<times> nat \<times> nat \<times> nat \<Rightarrow> (nat \<times> nat \<times> nat \<times> nat) \<times> nat \<Rightarrow> bool" where
  "in_network x n \<longleftrightarrow> address x div 2 ^ (32 - snd n) = address (fst n) div 2 ^ (32 - snd n)"

lemma of_nat_u32_eq: "n < 256 \<Longrightarrow> k < 256 \<Longrightarrow> (of_nat n :: u32) = of_nat k \<longleftrightarrow> n = k"
  by (simp add: word_of_nat_eq_iff take_bit_nat_eq_self)

lemma of_nat_u32_le: "n < 256 \<Longrightarrow> k < 256 \<Longrightarrow> (of_nat n :: u32) \<le> of_nat k \<longleftrightarrow> n \<le> k"
  by (simp add: word_le_nat_alt unat_of_nat)

lemma octets_numbers:
  assumes "a < 256" "b < 256"
  shows "isPrivateIpv4Octets (of_nat a) (of_nat b) \<longleftrightarrow>
    a = 127 \<or> a = 10 \<or> a = 0 \<or> (a = 192 \<and> b = 168) \<or> (a = 172 \<and> 16 \<le> b \<and> b \<le> 31) \<or> (a = 169 \<and> b = 254)"
  unfolding isPrivateIpv4Octets_def
  using of_nat_u32_eq [OF assms(1), of 127] of_nat_u32_eq [OF assms(1), of 10] of_nat_u32_eq [OF assms(1), of 0]
    of_nat_u32_eq [OF assms(1), of 192] of_nat_u32_eq [OF assms(1), of 172] of_nat_u32_eq [OF assms(1), of 169]
    of_nat_u32_eq [OF assms(2), of 168] of_nat_u32_eq [OF assms(2), of 254]
    of_nat_u32_le [OF _ assms(2), of 16] of_nat_u32_le [OF assms(2), of 31]
  by (auto simp: not_less)

lemma network_tests:
  "in_network x ((127, 0, 0, 0), 8) \<longleftrightarrow> address x div 16777216 = 127"
  "in_network x ((10, 0, 0, 0), 8) \<longleftrightarrow> address x div 16777216 = 10"
  "in_network x ((0, 0, 0, 0), 8) \<longleftrightarrow> address x div 16777216 = 0"
  "in_network x ((192, 168, 0, 0), 16) \<longleftrightarrow> address x div 65536 = 49320"
  "in_network x ((172, 16, 0, 0), 12) \<longleftrightarrow> address x div 1048576 = 2753"
  "in_network x ((169, 254, 0, 0), 16) \<longleftrightarrow> address x div 65536 = 43518"
  by (simp_all add: in_network_def)

lemma two_digits:
  fixes a b c d k :: nat
  assumes "b < k" "d < k"
  shows "a * k + b = c * k + d \<longleftrightarrow> a = c \<and> b = d"
proof
  assume eq: "a * k + b = c * k + d"
  have "(a * k + b) div k = a" "(c * k + d) div k = c" using assms by simp_all
  with eq have "a = c" by simp
  with eq show "a = c \<and> b = d" by simp
qed simp

lemma networks_numbers:
  assumes "a < 256" "b < 256" "c < 256" "d < 256"
  shows "list_ex (in_network (a, b, c, d)) private_networks \<longleftrightarrow>
    a = 127 \<or> a = 10 \<or> a = 0 \<or> (a = 192 \<and> b = 168) \<or> (a = 172 \<and> 16 \<le> b \<and> b \<le> 31) \<or> (a = 169 \<and> b = 254)"
proof -
  define n where "n = address (a, b, c, d)"
  have byte: "(m * 256 + x) div 256 = m" if "x < 256" for m x :: nat using that by simp
  have n2: "n div (256 * 256) = a * 256 + b"
    unfolding n_def address.simps div_mult2_eq using assms(3,4) by (simp only: byte)
  then have n3: "n div (256 * 256 * 256) = a"
    using byte [OF assms(2), of a] by (simp only: div_mult2_eq [of n "256 * 256"])
  have "n div (256 * 256 * 16) = (a * 256 + b) div 16" using n2 by (simp only: div_mult2_eq [of n "256 * 256"])
  also have "a * 256 + b = b + (a * 16) * 16" by simp
  also have "(b + (a * 16) * 16) div 16 = a * 16 + b div 16" by (subst div_mult_self1) simp_all
  finally have "n div 16777216 = a" "n div 65536 = a * 256 + b" "n div 1048576 = a * 16 + b div 16"
    using n2 n3 by simp_all
  moreover have "a * 256 + b = 49320 \<longleftrightarrow> a = 192 \<and> b = 168" "a * 256 + b = 43518 \<longleftrightarrow> a = 169 \<and> b = 254"
    using two_digits [OF assms(2), of 168 a 192] two_digits [OF assms(2), of 254 a 169] by simp_all
  moreover have "a * 16 + b div 16 = 2753 \<longleftrightarrow> a = 172 \<and> b div 16 = 1"
  proof -
    have "b div 16 < 16" using assms(2) by (simp add: less_mult_imp_div_less)
    from two_digits [OF this, of 1 a 172] show ?thesis by simp
  qed
  moreover have "b div 16 = 1 \<longleftrightarrow> 16 \<le> b \<and> b \<le> 31"
    using div_nat_eqI [of 1 16 b] div_less [of b 16] div_le_mono [of 32 b 16] by (cases "b < 16"; cases "b \<le> 31") auto
  ultimately show ?thesis
    by (simp only: private_networks_def network_tests n_def [symmetric] list_ex_Nil_iff list_ex_Cons_iff) blast
qed

lemma mapped_octets: "isPrivateIpv6 (replicate 10 0 @ [0xFF, 0xFF, x, y, z, w]) = isPrivateIpv4Octets (ucast x) (ucast y)"
proof -
  have r: "replicate 10 (0 :: u8) = [0, 0, 0, 0, 0, 0, 0, 0, 0, 0]" by (simp add: numeral_eq_Suc)
  show ?thesis unfolding isPrivateIpv6_def r by simp
qed

text \<open>C37: The guard classifies every literal address as the networks do: a dotted quad is private exactly when it
  lies in one of the listed networks, an IPv6 address that carries an IPv4 address is treated as that address
  is, and what looks like IPv6 but is no address counts as private.\<close>

theorem guard_exact:
  assumes "a < 256" "b < 256" "c < 256" "d < 256" "CHR '':'' \<in> set v6"
    and "inet_pton6 v6 = Some (replicate 10 0 @ [0xFF, 0xFF, of_nat a, of_nat b, of_nat c, of_nat d])"
    and "CHR '':'' \<in> set junk" "inet_pton6 junk = None"
  shows "(isPrivateHost inet_pton6 (dotted a b c d) \<longleftrightarrow> list_ex (in_network (a, b, c, d)) private_networks)
    \<and> (isPrivateHost inet_pton6 v6 \<longleftrightarrow> list_ex (in_network (a, b, c, d)) private_networks)
    \<and> isPrivateHost inet_pton6 junk"
proof -
  have "c \<notin> set (nat_to_string n)" if "\<not> is_digit c" for c n using that nat_to_string_all_digits by blast
  then have no: "CHR '':'' \<notin> set (dotted a b c d)" "CHR ''l'' \<notin> set (dotted a b c d)"
    by (auto simp: dotted_def is_digit_def)
  then have "dotted a b c d \<noteq> ''localhost''" by (metis list.set_intros(1))
  moreover have "dotted a b c d \<noteq> []" by (simp add: dotted_def)
  ultimately have "isPrivateHost inet_pton6 (dotted a b c d) \<longleftrightarrow> isPrivateIpv4Octets (of_nat a) (of_nat b)"
    using scan_quad_dotted [OF assms(1-4)] no(1) by (simp add: isPrivateHost_def)
  moreover have "isPrivateHost inet_pton6 v6 \<longleftrightarrow> isPrivateIpv4Octets (of_nat a) (of_nat b)"
  proof -
    have u: "(ucast (of_nat n :: u8) :: u32) = of_nat n" if "n < 256" for n
      using that by (simp add: unsigned_of_nat take_bit_nat_eq_self)
    have "v6 \<noteq> []" "v6 \<noteq> ''localhost''" using assms(5) by auto
    then show ?thesis
      using assms(5,6) by (simp add: isPrivateHost_def mapped_octets u [OF assms(1)] u [OF assms(2)])
  qed
  moreover have "isPrivateHost inet_pton6 junk" using assms(7,8) by (auto simp: isPrivateHost_def)
  ultimately show ?thesis
    using octets_numbers [OF assms(1,2)] networks_numbers [OF assms(1-4)] by blast
qed

text \<open>What the guard lets through although it reaches the machine itself: names are compared with the case and
  without a trailing dot, and only four decimal fields are taken for an address.\<close>

theorem guard_gaps:
  "list_all (\<lambda>host. \<not> isPrivateHost inet_pton6 host) [''LOCALHOST'', ''localhost.'', ''127.1'', ''2130706433'', ''0x7f.0.0.1'']"
proof -
  have "scan_number ''LOCALHOST'' = (False, [], 0)" "scan_number ''localhost.'' = (False, [], 0)"
      "scan_number ''127.1'' = (False, ''127'', 3)" "scan_number ''1'' = (False, ''1'', 1)"
      "scan_number ''2130706433'' = (False, ''2130706433'', 10)" "scan_number ''0x7f.0.0.1'' = (False, ''0'', 1)"
    by code_simp+
  then have "scan_quad ''LOCALHOST'' = None" "scan_quad ''localhost.'' = None" "scan_quad ''127.1'' = None"
      "scan_quad ''2130706433'' = None" "scan_quad ''0x7f.0.0.1'' = None"
    by (simp_all add: scan_quad_def scan_u_def scan_dot_def)
  then show ?thesis by (simp add: isPrivateHost_def)
qed

section \<open>Instances\<close>

theorem parseUrl_parts_witness:
  "parseUrl ''https://h:8443/x'' = Some \<lparr>pu_base = ''https://h:8443'', pu_path = ''/x'', pu_host = ''h''\<rparr>
   \<and> parseUrl ''https://[::1]:8443/x'' = Some \<lparr>pu_base = ''https://[::1]:8443'', pu_path = ''/x'', pu_host = ''::1''\<rparr>"
  using parseUrl_parts [of "''https''" "''h''" "'':8443''" "''/x''" "''::1''"] by simp

definition sample_inet :: "string \<Rightarrow> u8 list option" where
  "sample_inet h = (if h = ''::ffff:10.1.2.3''
     then Some (replicate 10 0 @ [0xFF, 0xFF, of_nat 10, of_nat 1, of_nat 2, of_nat 3]) else None)"

theorem guard_exact_witness:
  "isPrivateHost sample_inet (dotted 10 1 2 3) \<and> isPrivateHost sample_inet ''::ffff:10.1.2.3''
   \<and> isPrivateHost sample_inet ''1:2''"
proof -
  have net: "list_ex (in_network (10, 1, 2, 3)) private_networks" by (simp add: networks_numbers)
  have "sample_inet ''::ffff:10.1.2.3'' =
      Some (replicate 10 0 @ [0xFF, 0xFF, of_nat 10, of_nat 1, of_nat 2, of_nat 3])" "sample_inet ''1:2'' = None"
    by (simp_all add: sample_inet_def)
  with net guard_exact [of 10 1 2 3 "''::ffff:10.1.2.3''" sample_inet "''1:2''"] show ?thesis by simp
qed

end
