(* ===== verification/WebhookRegistry.thy ===== *)
theory WebhookRegistry
  imports RouteHelpers
begin

text \<open>
  \<^verbatim>\<open>src/src/webhook/webhook_registry.cpp\<close> and \<^verbatim>\<open>src/src/http/webhook_routes.cpp\<close>: the registered receivers of
  events, their three routes, and what survives a restart. The mutex makes every operation on the list
  atomic; saving happens after it is released, at once for a store without network and in a thread of its
  own for S3, so a save is a step that other operations may come before. SHA-256 and the reading and writing
  of JSON text are parameters.
\<close>

record webhook =
  wh_id :: string
  wh_url :: string
  wh_secret :: string
  wh_active :: bool

section \<open>The stored form\<close>

definition webhookToJson :: "webhook \<Rightarrow> json" where
  "webhookToJson h = JObj [(''id'', JStr (wh_id h)), (''url'', JStr (wh_url h)), (''secret'', JStr (wh_secret h)),
     (''active'', JBool (wh_active h))]"

definition stringOr :: "string \<Rightarrow> json \<Rightarrow> string" where
  "stringOr d v = (case v of JStr s \<Rightarrow> s | _ \<Rightarrow> d)"

definition boolOr :: "bool \<Rightarrow> json \<Rightarrow> bool" where
  "boolOr d v = (case v of JBool b \<Rightarrow> b | _ \<Rightarrow> d)"

definition jsonToWebhook :: "json \<Rightarrow> webhook option" where
  "jsonToWebhook item = (case item of
     JObj ms \<Rightarrow>
       (case jmember ms ''id'' of
          JStr i \<Rightarrow> if i = [] then None
            else Some \<lparr>wh_id = i, wh_url = stringOr [] (jmember ms ''url''),
                   wh_secret = stringOr [] (jmember ms ''secret''), wh_active = boolOr True (jmember ms ''active'')\<rparr>
        | _ \<Rightarrow> None)
   | _ \<Rightarrow> None)"

definition loadFromStore :: "(string \<Rightarrow> json option) \<Rightarrow> string option \<Rightarrow> webhook list" where
  "loadFromStore reader raw = (case raw of
     None \<Rightarrow> []
   | Some t \<Rightarrow> (case reader t of Some (JArr items) \<Rightarrow> List.map_filter jsonToWebhook items | _ \<Rightarrow> []))"

definition serializeHooks :: "(json \<Rightarrow> string) \<Rightarrow> webhook list \<Rightarrow> string" where
  "serializeHooks writer hooks = writer (JArr (map webhookToJson hooks))"

section \<open>The list of hooks\<close>

fun upsertHook :: "webhook \<Rightarrow> webhook list \<Rightarrow> webhook list" where
  "upsertHook w [] = [w]"
| "upsertHook w (h # hs) = (if wh_id h = wh_id w then w # hs else h # upsertHook w hs)"

fun eraseHook :: "string \<Rightarrow> webhook list \<Rightarrow> webhook list option" where
  "eraseHook i [] = None"
| "eraseHook i (h # hs) = (if wh_id h = i then Some hs else map_option ((#) h) (eraseHook i hs))"

definition activeSnapshot :: "webhook list \<Rightarrow> webhook list" where
  "activeSnapshot hooks = filter wh_active hooks"

definition hookId :: "(string \<Rightarrow> string) \<Rightarrow> string \<Rightarrow> string" where
  "hookId sha256Hex url = take 16 (sha256Hex url)"

section \<open>The registry and its store\<close>

record registry =
  wr_hooks :: "webhook list"
  wr_store :: "string option"
  wr_pending :: "string list"

text \<open>What the registry is built from: the library functions, and whether the store needs the network.\<close>

record registry_env =
  re_sha256Hex :: "string \<Rightarrow> string"
  re_writer :: "json \<Rightarrow> string"
  re_isAsync :: bool

definition persist :: "registry_env \<Rightarrow> bool \<Rightarrow> string \<Rightarrow> registry \<Rightarrow> registry" where
  "persist v ok snapshot r =
     (if re_isAsync v then r\<lparr>wr_pending := wr_pending r @ [snapshot]\<rparr>
      else if ok then r\<lparr>wr_store := Some snapshot\<rparr> else r)"

definition registry_add :: "registry_env \<Rightarrow> string \<Rightarrow> string \<Rightarrow> bool \<Rightarrow> bool \<Rightarrow> registry \<Rightarrow> string \<times> registry" where
  "registry_add v url secret active ok r =
     (let i = hookId (re_sha256Hex v) url;
          hooks = upsertHook \<lparr>wh_id = i, wh_url = url, wh_secret = secret, wh_active = active\<rparr> (wr_hooks r)
      in (i, persist v ok (serializeHooks (re_writer v) hooks) (r\<lparr>wr_hooks := hooks\<rparr>)))"

definition registry_remove :: "registry_env \<Rightarrow> string \<Rightarrow> bool \<Rightarrow> registry \<Rightarrow> bool \<times> registry" where
  "registry_remove v i ok r = (case eraseHook i (wr_hooks r) of
     None \<Rightarrow> (False, r)
   | Some hooks \<Rightarrow> (True, persist v ok (serializeHooks (re_writer v) hooks) (r\<lparr>wr_hooks := hooks\<rparr>)))"

text \<open>The thread that carries the \<open>n\<close>-th snapshot not yet saved ends; \<open>ok\<close> is whether the store took it.\<close>

definition save_ends :: "nat \<Rightarrow> bool \<Rightarrow> registry \<Rightarrow> registry" where
  "save_ends n ok r =
     (if n < length (wr_pending r)
      then r\<lparr>wr_pending := take n (wr_pending r) @ drop (Suc n) (wr_pending r),
             wr_store := (if ok then Some (wr_pending r ! n) else wr_store r)\<rparr>
      else r)"

section \<open>The routes\<close>

definition hookListing :: "webhook \<Rightarrow> json" where
  "hookListing h = JObj [(''id'', JStr (wh_id h)), (''url'', JStr (wh_url h)), (''active'', JBool (wh_active h))]"

definition handleWebhookCreate :: "registry_env \<Rightarrow> request \<Rightarrow> bool \<Rightarrow> registry \<Rightarrow> response \<times> registry" where
  "handleWebhookCreate v req ok r = (case textField req ''url'' of
     None \<Rightarrow> (validation ''field 'url' is required'', r)
   | Some url \<Rightarrow>
       (case bodyObject req of
          None \<Rightarrow> (validation ''field 'url' is required'', r)
        | Some ms \<Rightarrow>
            (let secret = stringOr [] (jmember ms ''secret''); active = boolOr True (jmember ms ''active'');
                 (i, r') = registry_add v url secret active ok r
             in (jsonResponse (okBody [(''data'', JObj [(''id'', JStr i), (''url'', JStr url), (''active'', JBool active)])]) 200,
                 r'))))"

definition handleWebhookList :: "registry \<Rightarrow> response" where
  "handleWebhookList r = jsonResponse (okBody [(''data'', JArr (map hookListing (wr_hooks r)))]) 200"

definition handleWebhookDelete :: "registry_env \<Rightarrow> string \<Rightarrow> bool \<Rightarrow> registry \<Rightarrow> response \<times> registry" where
  "handleWebhookDelete v i ok r =
     (let (found, r') = registry_remove v i ok r
      in (if \<not> found then serviceError ''NOT_FOUND'' ''webhook not found'' 404 else jsonResponse (okBody []) 200, r'))"

section \<open>The contract of a table of records\<close>

text \<open>A list searched by an id that every record carries behaves as a map from ids to records.\<close>

locale keyed_records =
  fixes key :: "'r \<Rightarrow> 'k" and insert_rec :: "'r \<Rightarrow> 'r list \<Rightarrow> 'r list" and erase_rec :: "'k \<Rightarrow> 'r list \<Rightarrow> 'r list option"
  assumes insert_here: "key y = key x \<Longrightarrow> key x \<notin> key ` set xs \<Longrightarrow> insert_rec x (xs @ y # ys) = xs @ x # ys"
    and insert_new: "key x \<notin> key ` set xs \<Longrightarrow> insert_rec x xs = xs @ [x]"
    and erase_here: "key y = k \<Longrightarrow> k \<notin> key ` set xs \<Longrightarrow> erase_rec k (xs @ y # ys) = Some (xs @ ys)"
    and erase_absent: "k \<notin> key ` set xs \<Longrightarrow> erase_rec k xs = None"
begin

definition view :: "'r list \<Rightarrow> 'k \<Rightarrow> 'r option" where
  "view xs = map_of (map (\<lambda>x. (key x, x)) xs)"

lemma view_append: "view (xs @ ys) = view ys ++ view xs"
  by (simp add: view_def)

lemma view_Cons: "view (x # xs) = (view xs)(key x \<mapsto> x)"
  by (simp add: view_def)

lemma view_Nil: "view [] = Map.empty"
  by (simp add: view_def)

lemma add_absent: "m k = None \<Longrightarrow> (n(k \<mapsto> x)) ++ m = (n ++ m)(k \<mapsto> x)"
  by (auto simp: fun_eq_iff map_add_def split: option.split)

lemma view_None: "view xs k = None \<longleftrightarrow> k \<notin> key ` set xs"
  unfolding view_def by (simp add: map_of_eq_None_iff image_image)

lemma first_record:
  assumes "k \<in> key ` set xs"
  obtains ys y zs where "xs = ys @ y # zs" "key y = k" "k \<notin> key ` set ys"
proof -
  have "\<exists>y \<in> set xs. key y = k" using assms by blast
  then obtain ys y zs where "xs = ys @ y # zs" "key y = k" "\<forall>y \<in> set ys. key y \<noteq> k"
    using split_list_first_prop [of xs "\<lambda>y. key y = k"] by blast
  then show thesis by (intro that [of ys y zs]) blast+
qed

lemma view_insert: "view (insert_rec x xs) = (view xs)(key x \<mapsto> x)"
proof (cases "key x \<in> key ` set xs")
  case True
  then obtain ys y zs where xs: "xs = ys @ y # zs" "key y = key x" "key x \<notin> key ` set ys" by (rule first_record)
  then have "view ys (key x) = None" by (simp add: view_None)
  then show ?thesis
    unfolding xs(1) insert_here [OF xs(2,3)] by (simp add: view_append view_Cons add_absent xs(2))
next
  case False
  then have "view xs (key x) = None" by (simp add: view_None)
  then show ?thesis
    unfolding insert_new [OF False] by (simp add: view_append view_Cons view_Nil add_absent)
qed

lemma insert_distinct: "distinct (map key xs) \<Longrightarrow> distinct (map key (insert_rec x xs))"
proof (cases "key x \<in> key ` set xs")
  case True
  assume d: "distinct (map key xs)"
  from True obtain ys y zs where xs: "xs = ys @ y # zs" "key y = key x" "key x \<notin> key ` set ys" by (rule first_record)
  have "insert_rec x xs = ys @ x # zs" using insert_here [OF xs(2,3)] by (simp add: xs(1))
  then show ?thesis using d xs(2) by (simp add: xs(1))
next
  case False
  assume "distinct (map key xs)"
  with False insert_new [OF False] show ?thesis by simp
qed

lemma erase_Some:
  assumes "distinct (map key xs)" "erase_rec k xs = Some ys"
  shows "view ys = (view xs)(k := None) \<and> distinct (map key ys) \<and> k \<in> key ` set xs \<and> set ys \<subseteq> set xs"
proof (cases "k \<in> key ` set xs")
  case True
  then obtain as y bs where xs: "xs = as @ y # bs" "key y = k" "k \<notin> key ` set as" by (rule first_record)
  have ys: "ys = as @ bs" using erase_here [OF xs(2,3)] assms(2) xs(1) by simp
  have "view as k = None" "view bs k = None" using xs assms(1) by (auto simp: view_None)
  then have "view ys = (view xs)(k := None)"
    using xs(2) by (auto simp: xs(1) ys view_append view_Cons fun_eq_iff map_add_def split: option.splits)
  then show ?thesis using True assms(1) by (auto simp: xs(1) ys)
next
  case False
  with erase_absent [OF False] assms(2) show ?thesis by simp
qed

lemma erase_None: "erase_rec k xs = None \<longleftrightarrow> view xs k = None"
proof
  assume n: "erase_rec k xs = None"
  show "view xs k = None"
  proof (rule ccontr)
    assume "view xs k \<noteq> None"
    then have "k \<in> key ` set xs" by (simp add: view_None)
    then obtain ys y zs where "xs = ys @ y # zs" "key y = k" "k \<notin> key ` set ys" by (rule first_record)
    then show False using erase_here n by fastforce
  qed
next
  assume "view xs k = None"
  then show "erase_rec k xs = None" using erase_absent by (simp add: view_None)
qed

lemma view_set: "distinct (map key xs) \<Longrightarrow> x \<in> set xs \<longleftrightarrow> view xs (key x) = Some x"
  unfolding view_def by (subst map_of_eq_Some_iff) (auto simp: distinct_map comp_def)

end

lemma upsertHook_here:
  "wh_id y = wh_id x \<Longrightarrow> wh_id x \<notin> wh_id ` set xs \<Longrightarrow> upsertHook x (xs @ y # ys) = xs @ x # ys"
  by (induction xs) auto

lemma upsertHook_new: "wh_id x \<notin> wh_id ` set xs \<Longrightarrow> upsertHook x xs = xs @ [x]"
  by (induction xs) auto

lemma eraseHook_here:
  "wh_id y = k \<Longrightarrow> k \<notin> wh_id ` set xs \<Longrightarrow> eraseHook k (xs @ y # ys) = Some (xs @ ys)"
  by (induction xs) auto

lemma eraseHook_absent: "k \<notin> wh_id ` set xs \<Longrightarrow> eraseHook k xs = None"
  by (induction xs) auto

interpretation hooks: keyed_records wh_id upsertHook eraseHook
  by unfold_locales (simp_all add: upsertHook_here upsertHook_new eraseHook_here eraseHook_absent)

section \<open>Runs\<close>

datatype registry_op = OpAdd string string bool bool | OpRemove string bool | OpSaveEnds nat bool

fun registry_step :: "registry_env \<Rightarrow> registry_op \<Rightarrow> registry \<Rightarrow> registry" where
  "registry_step v (OpAdd url secret active ok) r = snd (registry_add v url secret active ok r)"
| "registry_step v (OpRemove i ok) r = snd (registry_remove v i ok r)"
| "registry_step v (OpSaveEnds n ok) r = save_ends n ok r"

definition registry_run :: "registry_env \<Rightarrow> registry_op list \<Rightarrow> registry \<Rightarrow> registry" where
  "registry_run v ops r = fold (registry_step v) ops r"

text \<open>What the registry is meant to be: a map from ids to receivers.\<close>

definition hook_map :: "webhook list \<Rightarrow> string \<Rightarrow> webhook option" where
  "hook_map hs = map_of (map (\<lambda>h. (wh_id h, h)) hs)"

fun spec_step :: "registry_env \<Rightarrow> registry_op \<Rightarrow> (string \<Rightarrow> webhook option) \<Rightarrow> string \<Rightarrow> webhook option" where
  "spec_step v (OpAdd url secret active ok) m =
     m(hookId (re_sha256Hex v) url \<mapsto>
         \<lparr>wh_id = hookId (re_sha256Hex v) url, wh_url = url, wh_secret = secret, wh_active = active\<rparr>)"
| "spec_step v (OpRemove i ok) m = m(i := None)"
| "spec_step v (OpSaveEnds n ok) m = m"

lemma hook_map_view: "hook_map hs = hooks.view hs"
  by (simp add: hook_map_def hooks.view_def)

lemma persist_hooks [simp]: "wr_hooks (persist v ok s r) = wr_hooks r"
  by (simp add: persist_def)

lemma save_ends_hooks [simp]: "wr_hooks (save_ends n ok r) = wr_hooks r"
  by (simp add: save_ends_def)

lemma registry_step_refines:
  assumes "distinct (map wh_id (wr_hooks r))"
  shows "hook_map (wr_hooks (registry_step v op r)) = spec_step v op (hook_map (wr_hooks r))
    \<and> distinct (map wh_id (wr_hooks (registry_step v op r)))"
proof (cases op)
  case (OpAdd url secret active ok)
  then show ?thesis
    using hooks.insert_distinct [OF assms]
    by (simp add: registry_add_def Let_def hook_map_view hooks.view_insert)
next
  case (OpRemove i ok)
  show ?thesis
  proof (cases "eraseHook i (wr_hooks r)")
    case None
    then have "hook_map (wr_hooks r) i = None" using hooks.erase_None by (simp add: hook_map_view)
    then have "(hook_map (wr_hooks r))(i := None) = hook_map (wr_hooks r)" by (simp add: fun_upd_idem)
    with None assms OpRemove show ?thesis by (simp add: registry_remove_def)
  next
    case (Some hs)
    with hooks.erase_Some [OF assms Some] OpRemove show ?thesis by (simp add: registry_remove_def hook_map_view)
  qed
next
  case OpSaveEnds
  with assms show ?thesis by simp
qed

lemma registry_run_refines:
  "distinct (map wh_id (wr_hooks r)) \<Longrightarrow>
   hook_map (wr_hooks (registry_run v ops r)) = fold (spec_step v) ops (hook_map (wr_hooks r))
   \<and> distinct (map wh_id (wr_hooks (registry_run v ops r)))"
proof (induction ops arbitrary: r)
  case Nil
  then show ?case by (simp add: registry_run_def)
next
  case (Cons op ops)
  from registry_step_refines [OF Cons.prems, of v op] Cons.IH [of "registry_step v op r"]
  show ?case by (simp add: registry_run_def)
qed

text \<open>C19: The registry is a map from ids to receivers: registering a URL again replaces its entry, removing one
  takes out exactly that, saving changes nothing, no id is ever listed twice, and the dispatcher is given
  exactly the active ones.\<close>

theorem registry_refines_map:
  assumes "distinct (map wh_id (wr_hooks r))"
  shows "hook_map (wr_hooks (registry_run v ops r)) = fold (spec_step v) ops (hook_map (wr_hooks r))
    \<and> distinct (map wh_id (wr_hooks (registry_run v ops r)))
    \<and> set (activeSnapshot (wr_hooks (registry_run v ops r))) =
        {h. fold (spec_step v) ops (hook_map (wr_hooks r)) (wh_id h) = Some h \<and> wh_active h}"
  using registry_run_refines [OF assms, of v ops] hooks.view_set [of "wr_hooks (registry_run v ops r)"]
  by (auto simp: activeSnapshot_def hook_map_view)

section \<open>Restarts\<close>

text \<open>
  What the registry needs of JsonCpp: that a list of hooks, written and read again, is an array with an object of the
  same four members for each of them, in whatever order an object has them. JsonCpp's strings are UTF-8: it
  writes what is not ASCII as escapes, and other bytes as the replacement character. So this is asked for
  hooks whose strings are UTF-8 text (RFC 3629) only.
\<close>

definition continuation :: "char \<Rightarrow> bool" where
  "continuation c \<longleftrightarrow> 128 \<le> (of_char c :: nat) \<and> (of_char c :: nat) < 192"

fun utf8_text :: "string \<Rightarrow> bool" where
  "utf8_text [] = True"
| "utf8_text (c # cs) =
     (let b = of_char c :: nat
      in if b < 128 then utf8_text cs
         else if b < 194 then False
         else if b < 224 then (case cs of c1 # r \<Rightarrow> continuation c1 \<and> utf8_text r | _ \<Rightarrow> False)
         else if b < 240 then (case cs of
             c1 # c2 # r \<Rightarrow> continuation c1 \<and> continuation c2 \<and> (b \<noteq> 224 \<or> 160 \<le> (of_char c1 :: nat))
               \<and> (b \<noteq> 237 \<or> (of_char c1 :: nat) < 160) \<and> utf8_text r
           | _ \<Rightarrow> False)
         else if b < 245 then (case cs of
             c1 # c2 # c3 # r \<Rightarrow> continuation c1 \<and> continuation c2 \<and> continuation c3
               \<and> (b \<noteq> 240 \<or> 144 \<le> (of_char c1 :: nat)) \<and> (b \<noteq> 244 \<or> (of_char c1 :: nat) < 144) \<and> utf8_text r
           | _ \<Rightarrow> False)
         else False)"

lemma ascii_text: "list_all (\<lambda>c. (of_char c :: nat) < 128) s \<Longrightarrow> utf8_text s"
  by (induction s) simp_all

definition text_hook :: "webhook \<Rightarrow> bool" where
  "text_hook h \<longleftrightarrow> wh_id h \<noteq> [] \<and> utf8_text (wh_id h) \<and> utf8_text (wh_url h) \<and> utf8_text (wh_secret h)"

definition same_hook :: "webhook \<Rightarrow> json \<Rightarrow> bool" where
  "same_hook h item = (case item of
     JObj ms \<Rightarrow> jmember ms ''id'' = JStr (wh_id h) \<and> jmember ms ''url'' = JStr (wh_url h)
       \<and> jmember ms ''secret'' = JStr (wh_secret h) \<and> jmember ms ''active'' = JBool (wh_active h)
   | _ \<Rightarrow> False)"

definition reads_back :: "(string \<Rightarrow> json option) \<Rightarrow> (json \<Rightarrow> string) \<Rightarrow> bool" where
  "reads_back reader writer \<longleftrightarrow> (\<forall>hs. list_all text_hook hs \<longrightarrow>
     (\<exists>items. reader (writer (JArr (map webhookToJson hs))) = Some (JArr items) \<and> list_all2 same_hook hs items))"

text \<open>SHA-256 in hexadecimal digits is text and not empty.\<close>

definition hex_digests :: "(string \<Rightarrow> string) \<Rightarrow> bool" where
  "hex_digests sha256Hex \<longleftrightarrow> (\<forall>u. sha256Hex u \<noteq> [] \<and> list_all (\<lambda>c. c \<in> set ''0123456789abcdef'') (sha256Hex u))"

lemma hookId_text:
  assumes "hex_digests sha256Hex"
  shows "hookId sha256Hex u \<noteq> [] \<and> utf8_text (hookId sha256Hex u)"
proof -
  have d: "sha256Hex u \<noteq> []" "list_all (\<lambda>c. c \<in> set ''0123456789abcdef'') (sha256Hex u)"
    using assms by (simp_all add: hex_digests_def)
  have "(of_char c :: nat) < 128" if "c \<in> set (hookId sha256Hex u)" for c
  proof -
    have "c \<in> set (sha256Hex u)" using that in_set_takeD by (fastforce simp: hookId_def)
    then have "c \<in> set ''0123456789abcdef''" using d(2) by (simp only: list_all_iff)
    then show ?thesis by auto
  qed
  then show ?thesis using d(1) ascii_text [of "hookId sha256Hex u"] by (simp add: hookId_def list_all_iff)
qed

lemma same_hook_read: "same_hook h item \<Longrightarrow> wh_id h \<noteq> [] \<Longrightarrow> jsonToWebhook item = Some h"
  by (cases item) (simp_all add: same_hook_def jsonToWebhook_def stringOr_def boolOr_def)

lemma same_hooks_read:
  "list_all2 same_hook hs items \<Longrightarrow> list_all text_hook hs \<Longrightarrow> List.map_filter jsonToWebhook items = hs"
  by (induction hs items rule: list_all2_induct) (simp_all add: List.map_filter_simps same_hook_read text_hook_def)

lemma load_serialized:
  assumes "reads_back reader writer" "list_all text_hook hs"
  shows "loadFromStore reader (Some (serializeHooks writer hs)) = hs"
proof -
  obtain items where "reader (writer (JArr (map webhookToJson hs))) = Some (JArr items)" "list_all2 same_hook hs items"
    using assms by (auto simp: reads_back_def)
  with same_hooks_read [OF this(2) assms(2)] show ?thesis by (simp add: loadFromStore_def serializeHooks_def)
qed

text \<open>The saves succeed, and the threads that carry them end in the order they were started.\<close>

definition orderly :: "registry_op \<Rightarrow> bool" where
  "orderly op = (case op of OpAdd _ _ _ ok \<Rightarrow> ok | OpRemove _ ok \<Rightarrow> ok | OpSaveEnds n ok \<Rightarrow> n = 0 \<and> ok)"

definition text_op :: "registry_op \<Rightarrow> bool" where
  "text_op op = (case op of OpAdd url secret _ _ \<Rightarrow> utf8_text url \<and> utf8_text secret | _ \<Rightarrow> True)"

definition stored_inv :: "(string \<Rightarrow> json option) \<Rightarrow> (json \<Rightarrow> string) \<Rightarrow> registry \<Rightarrow> bool" where
  "stored_inv reader writer r \<longleftrightarrow> list_all text_hook (wr_hooks r)
     \<and> (if wr_pending r = [] then loadFromStore reader (wr_store r) = wr_hooks r
        else last (wr_pending r) = serializeHooks writer (wr_hooks r))"

lemma persist_stored:
  assumes "reads_back reader (re_writer v)" "list_all text_hook hs"
    and "\<not> re_isAsync v \<Longrightarrow> wr_pending r = []"
  shows "stored_inv reader (re_writer v) (persist v True (serializeHooks (re_writer v) hs) (r\<lparr>wr_hooks := hs\<rparr>))"
  using assms load_serialized [OF assms(1,2)] by (auto simp: persist_def stored_inv_def)

lemma upsert_all: "P x \<Longrightarrow> list_all P hs \<Longrightarrow> list_all P (upsertHook x hs)"
  by (induction hs) auto

lemma erase_all: "eraseHook i hs = Some gs \<Longrightarrow> list_all P hs \<Longrightarrow> list_all P gs"
  by (induction hs arbitrary: gs) (auto split: if_splits)

definition sync_ok :: "registry_env \<Rightarrow> registry \<Rightarrow> bool" where
  "sync_ok v r \<longleftrightarrow> re_isAsync v \<or> wr_pending r = []"

lemma persist_sync [simp]: "sync_ok v r \<Longrightarrow> sync_ok v (persist v ok s (r\<lparr>wr_hooks := hs\<rparr>))"
  by (auto simp: sync_ok_def persist_def)

lemma stored_step:
  assumes v: "reads_back reader (re_writer v)" "hex_digests (re_sha256Hex v)"
    and "stored_inv reader (re_writer v) r" "sync_ok v r" "orderly op" "text_op op"
  shows "stored_inv reader (re_writer v) (registry_step v op r) \<and> sync_ok v (registry_step v op r)"
proof (cases op)
  case (OpAdd url secret active ok)
  have "text_hook \<lparr>wh_id = hookId (re_sha256Hex v) url, wh_url = url, wh_secret = secret, wh_active = active\<rparr>"
    using hookId_text [OF v(2)] assms(6) by (simp add: text_hook_def text_op_def OpAdd)
  then show ?thesis
    using assms OpAdd persist_stored [OF v(1) upsert_all]
    by (auto simp: registry_add_def Let_def orderly_def stored_inv_def [of _ _ r] sync_ok_def [of v r])
next
  case (OpRemove i ok)
  then show ?thesis
    using assms persist_stored [OF v(1) erase_all]
    by (auto simp: registry_remove_def orderly_def stored_inv_def [of _ _ r] sync_ok_def [of v r] split: option.split)
next
  case (OpSaveEnds n ok)
  show ?thesis
  proof (cases "wr_pending r")
    case Nil
    then show ?thesis using assms OpSaveEnds by (simp add: save_ends_def)
  next
    case (Cons p ps)
    then show ?thesis
      using assms OpSaveEnds load_serialized [OF v(1), of "wr_hooks r"]
      by (auto simp: save_ends_def orderly_def stored_inv_def sync_ok_def)
  qed
qed

lemma stored_run:
  assumes "reads_back reader (re_writer v)" "hex_digests (re_sha256Hex v)"
  shows "stored_inv reader (re_writer v) r \<Longrightarrow> sync_ok v r \<Longrightarrow> list_all orderly ops \<Longrightarrow> list_all text_op ops \<Longrightarrow>
    stored_inv reader (re_writer v) (registry_run v ops r)"
  by (induction ops arbitrary: r) (use stored_step [OF assms] in \<open>auto simp: registry_run_def\<close>)

definition registry_init :: registry where
  "registry_init = \<lparr>wr_hooks = [], wr_store = None, wr_pending = []\<rparr>"

text \<open>What a restart finds: once the saves are done, if each succeeded and they ended in the order they were
  started, and the URLs and secrets are text, reading the store gives back the registry exactly, the order of the entries, secrets and flags included.\<close>

theorem restart_restores:
  assumes "reads_back reader (re_writer v)" "hex_digests (re_sha256Hex v)"
    and "list_all orderly ops" "list_all text_op ops" "wr_pending (registry_run v ops registry_init) = []"
  shows "loadFromStore reader (wr_store (registry_run v ops registry_init)) = wr_hooks (registry_run v ops registry_init)"
  using stored_run [OF assms(1,2) _ _ assms(3,4), of registry_init] assms(5)
  by (simp add: stored_inv_def registry_init_def sync_ok_def loadFromStore_def)

text \<open>With the network store each save has a thread of its own and nothing keeps them in order: when the save
  of a removal ends before the save of the registration it removes, every save has succeeded, the registry is
  empty, and yet the next start brings the removed receiver back, secret and all.\<close>

theorem removal_undone_by_restart:
  assumes "reads_back reader (re_writer v)" "re_isAsync v" "hex_digests (re_sha256Hex v)" "utf8_text url" "utf8_text secret"
    and "r = registry_run v [OpAdd url secret True True, OpRemove (hookId (re_sha256Hex v) url) True,
           OpSaveEnds 1 True, OpSaveEnds 0 True] registry_init"
  shows "wr_hooks r = [] \<and> wr_pending r = []
    \<and> loadFromStore reader (wr_store r) =
        [\<lparr>wh_id = hookId (re_sha256Hex v) url, wh_url = url, wh_secret = secret, wh_active = True\<rparr>]"
proof -
  let ?h = "\<lparr>wh_id = hookId (re_sha256Hex v) url, wh_url = url, wh_secret = secret, wh_active = True\<rparr>"
  have "text_hook ?h" using hookId_text [OF assms(3)] assms(4,5) by (simp add: text_hook_def)
  then have "loadFromStore reader (Some (serializeHooks (re_writer v) [?h])) = [?h]"
    by (intro load_serialized [OF assms(1)]) simp
  then show ?thesis
    using assms(2) by (simp add: assms(6) registry_run_def registry_add_def registry_remove_def Let_def persist_def
        save_ends_def registry_init_def)
qed

section \<open>Secrets\<close>

text \<open>No route of the registry gives a secret away: the list and the answer to a registration are the same
  whatever the secrets are.\<close>

theorem secrets_not_listed:
  "handleWebhookList (r\<lparr>wr_hooks := map (\<lambda>h. h\<lparr>wh_secret := f h\<rparr>) (wr_hooks r)\<rparr>) = handleWebhookList r
   \<and> fst (handleWebhookCreate v (q\<lparr>rq_json := Some (JObj (put ''secret'' j ms))\<rparr>) ok r) =
     fst (handleWebhookCreate v (q\<lparr>rq_json := Some (JObj ms)\<rparr>) ok r)"
  by (simp add: handleWebhookList_def hookListing_def [abs_def] comp_def handleWebhookCreate_def textField_def bodyObject_def
      registry_add_def Let_def split: json.split)

section \<open>Instances\<close>

text \<open>
  A writer and a reader of JSON as far as the stored form needs them, in the manner of JsonCpp: the members of an object in
  alphabetical order, a backslash before quotation marks and backslashes.
\<close>

fun escaped :: "string \<Rightarrow> string" where
  "escaped [] = [CHR 0x22]"
| "escaped (c # cs) = (if c = CHR 0x22 \<or> c = CHR 0x5C then CHR 0x5C # c # escaped cs else c # escaped cs)"

fun unescaped :: "string \<Rightarrow> (string \<times> string) option" where
  "unescaped [] = None"
| "unescaped (c # cs) =
     (if c = CHR 0x22 then Some ([], cs)
      else if c = CHR 0x5C then (case cs of [] \<Rightarrow> None | d # ds \<Rightarrow> map_option (\<lambda>(s, r). (d # s, r)) (unescaped ds))
      else map_option (\<lambda>(s, r). (c # s, r)) (unescaped cs))"

fun after_text :: "string \<Rightarrow> string \<Rightarrow> string option" where
  "after_text [] s = Some s"
| "after_text (c # cs) [] = None"
| "after_text (c # cs) (d # ds) = (if c = d then after_text cs ds else None)"

definition member_text :: "string \<Rightarrow> string" where
  "member_text k = CHR 0x22 # escaped k @ '':''"

definition write_item :: "json \<Rightarrow> string" where
  "write_item item = (case item of
     JObj ms \<Rightarrow> (case (jmember ms ''active'', jmember ms ''id'', jmember ms ''secret'', jmember ms ''url'') of
        (JBool b, JStr i, JStr k, JStr u) \<Rightarrow>
          ''{'' @ member_text ''active'' @ (if b then ''true'' else ''false'')
          @ '','' @ member_text ''id'' @ CHR 0x22 # escaped i @ '','' @ member_text ''secret'' @ CHR 0x22 # escaped k
          @ '','' @ member_text ''url'' @ CHR 0x22 # escaped u @ ''}''
      | _ \<Rightarrow> [])
   | _ \<Rightarrow> [])"

definition read_bool :: "string \<Rightarrow> (bool \<times> string) option" where
  "read_bool s = (case after_text ''true'' s of
     Some r \<Rightarrow> Some (True, r) | None \<Rightarrow> map_option (\<lambda>r. (False, r)) (after_text ''false'' s))"

definition read_string :: "string \<Rightarrow> string \<Rightarrow> (string \<times> string) option" where
  "read_string k s = Option.bind (after_text ('','' @ member_text k @ [CHR 0x22]) s) unescaped"

definition read_item :: "string \<Rightarrow> (json \<times> string) option" where
  "read_item s = Option.bind (after_text (''{'' @ member_text ''active'') s) (\<lambda>s.
     Option.bind (read_bool s) (\<lambda>(b, s). Option.bind (read_string ''id'' s) (\<lambda>(i, s).
     Option.bind (read_string ''secret'' s) (\<lambda>(k, s). Option.bind (read_string ''url'' s) (\<lambda>(u, s).
       map_option (\<lambda>r. (JObj [(''active'', JBool b), (''id'', JStr i), (''secret'', JStr k), (''url'', JStr u)], r))
         (after_text ''}'' s))))))"

fun write_items :: "json list \<Rightarrow> string" where
  "write_items [] = '']''"
| "write_items [x] = write_item x @ '']''"
| "write_items (x # y # zs) = write_item x @ '','' @ write_items (y # zs)"

definition sample_writer :: "json \<Rightarrow> string" where
  "sample_writer j = (case j of JArr items \<Rightarrow> ''['' @ write_items items | _ \<Rightarrow> ''null'')"

fun read_items :: "nat \<Rightarrow> string \<Rightarrow> json list option" where
  "read_items 0 s = None"
| "read_items (Suc n) s = (case read_item s of
     None \<Rightarrow> None
   | Some (x, r) \<Rightarrow>
       if after_text '','' r \<noteq> None then map_option ((#) x) (read_items n (the (after_text '','' r)))
       else if r = '']'' then Some [x] else None)"

definition sample_reader :: "string \<Rightarrow> json option" where
  "sample_reader s =
     (if s = ''[]'' then Some (JArr []) else map_option JArr (Option.bind (after_text ''['' s) (read_items (length s))))"

lemma after_text_append [simp]: "after_text cs (cs @ r) = Some r"
  by (induction cs) simp_all

lemma unescaped_escaped [simp]: "unescaped (escaped s @ r) = Some (s, r)"
  by (induction s) simp_all

lemma read_string_written: "read_string k ('','' @ member_text k @ CHR 0x22 # escaped s @ r) = Some (s, r)"
proof -
  have "after_text ('','' @ member_text k @ [CHR 0x22]) (('','' @ member_text k @ [CHR 0x22]) @ escaped s @ r) = Some (escaped s @ r)"
    by (rule after_text_append)
  then show ?thesis by (simp add: read_string_def)
qed

lemma read_bool_written: "read_bool ((if b then ''true'' else ''false'') @ r) = Some (b, r)"
  by (simp add: read_bool_def)

lemma read_item_written:
  "read_item (write_item (webhookToJson h) @ r) = Some (JObj [(''active'', JBool (wh_active h)), (''id'', JStr (wh_id h)),
     (''secret'', JStr (wh_secret h)), (''url'', JStr (wh_url h))], r)"
proof -
  let ?rest = "'','' @ member_text ''id'' @ CHR 0x22 # escaped (wh_id h) @ '','' @ member_text ''secret'' @ CHR 0x22 # escaped (wh_secret h)
    @ '','' @ member_text ''url'' @ CHR 0x22 # escaped (wh_url h) @ ''}'' @ r"
  have w: "write_item (webhookToJson h) @ r =
      (''{'' @ member_text ''active'') @ (if wh_active h then ''true'' else ''false'') @ ?rest"
    by (simp add: write_item_def webhookToJson_def)
  show ?thesis
    unfolding w read_item_def after_text_append Option.bind.simps read_bool_written prod.case read_string_written
    by simp
qed

lemma same_hook_sorted: "same_hook h (JObj [(''active'', JBool (wh_active h)), (''id'', JStr (wh_id h)),
     (''secret'', JStr (wh_secret h)), (''url'', JStr (wh_url h))])"
  by (simp add: same_hook_def)

lemma read_items_written:
  "hs \<noteq> [] \<Longrightarrow> length hs \<le> n \<Longrightarrow> \<exists>items. read_items n (write_items (map webhookToJson hs)) = Some items
     \<and> list_all2 same_hook hs items"
proof (induction hs arbitrary: n rule: induct_list012)
  case (2 h)
  then obtain m where "n = Suc m" by (cases n) auto
  then show ?case by (simp add: read_item_written same_hook_def)
next
  case (3 h h' hs)
  then obtain m where n: "n = Suc m" "length (h' # hs) \<le> m" by (cases n) auto
  with 3(2) [of m] obtain items where "read_items m (write_items (map webhookToJson (h' # hs))) = Some items"
      "list_all2 same_hook (h' # hs) items" by auto
  then show ?case by (simp add: n(1) read_item_written same_hook_sorted)
qed simp

lemma write_items_length: "length items \<le> length (write_items items)"
  by (induction items rule: write_items.induct) simp_all

lemma write_items_more: "items \<noteq> [] \<Longrightarrow> write_items (map webhookToJson items) \<noteq> '']''"
  by (induction items rule: induct_list012) (simp_all add: write_item_def webhookToJson_def)

lemma sample_reads_back: "reads_back sample_reader sample_writer"
  unfolding reads_back_def
proof (intro allI impI)
  fix hs
  show "\<exists>items. sample_reader (sample_writer (JArr (map webhookToJson hs))) = Some (JArr items) \<and> list_all2 same_hook hs items"
  proof (cases "hs = []")
    case True
    then show ?thesis by (simp add: sample_writer_def sample_reader_def)
  next
    case False
    let ?t = "write_items (map webhookToJson hs)"
    have "length hs \<le> length (''['' @ ?t)" using write_items_length [of "map webhookToJson hs"] by simp
    from read_items_written [OF False this] write_items_more [OF False] show ?thesis
      by (auto simp: sample_writer_def sample_reader_def)
  qed
qed

definition sample_registry_env :: registry_env where
  "sample_registry_env = \<lparr>re_sha256Hex = (\<lambda>s. ''0123456789abcdef''), re_writer = sample_writer, re_isAsync = True\<rparr>"

lemma sample_env_reads_back: "reads_back sample_reader (re_writer sample_registry_env)"
  using sample_reads_back by (simp add: sample_registry_env_def)

lemma sample_env_hex: "hex_digests (re_sha256Hex sample_registry_env)"
  by (simp add: sample_registry_env_def hex_digests_def)

definition sample_registry :: registry where
  "sample_registry = registry_run sample_registry_env [OpAdd ''u'' ''s'' True True, OpAdd ''v'' [] False True,
     OpSaveEnds 0 True, OpSaveEnds 0 True] registry_init"

lemma sample_registry_pending: "wr_pending sample_registry = []"
  by (simp add: sample_registry_def registry_run_def registry_add_def Let_def persist_def save_ends_def
      registry_init_def sample_registry_env_def)

theorem registry_refines_map_witness:
  "set (activeSnapshot (wr_hooks (registry_run sample_registry_env [OpAdd ''u'' ''s'' True True] registry_init))) =
     {h. fold (spec_step sample_registry_env) [OpAdd ''u'' ''s'' True True] Map.empty (wh_id h) = Some h \<and> wh_active h}"
proof -
  have "distinct (map wh_id (wr_hooks registry_init))" "hook_map (wr_hooks registry_init) = Map.empty"
    by (simp_all add: registry_init_def hook_map_def)
  with registry_refines_map [OF this(1), of sample_registry_env "[OpAdd ''u'' ''s'' True True]"] show ?thesis by simp
qed

theorem restart_restores_witness:
  "loadFromStore sample_reader (wr_store sample_registry) = wr_hooks sample_registry"
  unfolding sample_registry_def
proof (rule restart_restores [OF sample_env_reads_back sample_env_hex])
  show "wr_pending (registry_run sample_registry_env [OpAdd ''u'' ''s'' True True, OpAdd ''v'' [] False True,
     OpSaveEnds 0 True, OpSaveEnds 0 True] registry_init) = []"
    using sample_registry_pending by (simp add: sample_registry_def)
qed (simp_all add: orderly_def text_op_def)

definition sample_undone :: registry where
  "sample_undone = registry_run sample_registry_env [OpAdd ''u'' ''s'' True True, OpRemove ''0123456789abcdef'' True,
     OpSaveEnds 1 True, OpSaveEnds 0 True] registry_init"

theorem removal_undone_by_restart_witness:
  "wr_hooks sample_undone = [] \<and> wr_pending sample_undone = []
     \<and> loadFromStore sample_reader (wr_store sample_undone) =
         [\<lparr>wh_id = ''0123456789abcdef'', wh_url = ''u'', wh_secret = ''s'', wh_active = True\<rparr>]"
proof -
  have v: "re_isAsync sample_registry_env" "hex_digests (re_sha256Hex sample_registry_env)" "utf8_text ''u''" "utf8_text ''s''"
      and i: "hookId (re_sha256Hex sample_registry_env) ''u'' = ''0123456789abcdef''"
    by (simp_all add: sample_registry_env_def hookId_def hex_digests_def)
  show ?thesis
    by (rule removal_undone_by_restart [OF sample_env_reads_back v, unfolded i]) (rule sample_undone_def)
qed

end
