(* ===== verification/WebhookDispatcher.thy ===== *)
theory WebhookDispatcher
  imports BoundedQueue WebhookUrl WebhookRegistry WebhookContext
begin

text \<open>
  \<^verbatim>\<open>src/src/webhook/webhook_dispatcher.cpp\<close>: three threads deliver an event. \<^verbatim>\<open>dispatch\<close> puts it into a bounded
  queue; the worker swaps the queue out, takes the active receivers and posts one functor for each pair to the
  loop thread; the loop alone makes HTTP requests and gets their callbacks. \<^verbatim>\<open>stop\<close> joins the worker, waits for
  the loop to have run what was posted and for the requests in flight, and only then may destroy the loop;
  otherwise it leaks it. The state is one record, each atomic action of a thread a function on it, and \<open>dstep\<close>
  any of them in any order. The histories \<open>dp_accepted\<close>, \<open>dp_batches\<close> and \<open>dp_log\<close> are not in the code.
\<close>

section \<open>What is sent\<close>

record dispatch_env =
  de_writer :: "json \<Rightarrow> string"
  de_hmacSha256 :: "string \<Rightarrow> string \<Rightarrow> string"
  de_inet_pton6 :: "string \<Rightarrow> u8 list option"

definition kHex :: string where
  "kHex = ''0123456789abcdef''"

definition toHexLower :: "string \<Rightarrow> string" where
  "toHexLower bytes = concat (map (\<lambda>c. [kHex ! (of_char c div 16), kHex ! (of_char c mod 16)]) bytes)"

definition signBody :: "dispatch_env \<Rightarrow> string \<Rightarrow> string \<Rightarrow> string" where
  "signBody v secret body = ''sha256='' @ toHexLower (de_hmacSha256 v secret body)"

definition serializeEvent :: "dispatch_env \<Rightarrow> webhook_event \<Rightarrow> string" where
  "serializeEvent v ev = de_writer v (JObj
     [(''event_id'', JStr (ev_id ev)), (''session_id'', JStr (ev_session ev)), (''owner_id'', JStr (ev_owner ev)),
      (''trigger_reason'', JStr (ev_reason ev)), (''received_at'', JInt (ev_received_at ev)),
      (''message'', ev_message ev), (''reply_chain'', JArr (ev_chain ev)),
      (''chain_truncated'', JBool (ev_truncated ev))])"

record payload =
  pl_event_id :: string
  pl_body :: string

record http_post =
  hp_base :: string
  hp_path :: string
  hp_content_type :: string
  hp_headers :: "(string \<times> string) list"
  hp_body :: string

text \<open>\<^verbatim>\<open>deliverOnLoop\<close> up to \<^verbatim>\<open>sendRequest\<close>: the request, or nothing for a URL it cannot read or may not call.\<close>

definition deliverOnLoop :: "dispatch_env \<Rightarrow> bool \<Rightarrow> webhook \<Rightarrow> payload \<Rightarrow> http_post option" where
  "deliverOnLoop v ssrf_guard hook p = (case parseUrl (wh_url hook) of
     None \<Rightarrow> None
   | Some url \<Rightarrow>
       if ssrf_guard \<and> isPrivateHost (de_inet_pton6 v) (pu_host url) then None
       else Some \<lparr>hp_base = pu_base url, hp_path = pu_path url, hp_content_type = ''application/json'',
              hp_headers = [(''X-TGW-Signature'', signBody v (wh_secret hook) (pl_body p)),
                            (''X-TGW-Event-Id'', pl_event_id p)],
              hp_body = pl_body p\<rparr>)"

section \<open>The state\<close>

datatype worker = NoWorker | Waiting | Holding "payload list" | Posting "(webhook \<times> payload) list" | WorkerDone

datatype loop_thread = NoLoop | LoopUp | LoopGone | LoopLeaked

record dispatcher =
  dp_queue_max :: nat
  dp_ssrf_guard :: bool
  dp_queue :: "payload list"
  dp_started :: bool
  dp_stop :: bool
  dp_stopping :: bool
  dp_worker :: worker
  dp_loop :: loop_thread
  dp_posted :: "(webhook \<times> payload) list"
  dp_in_flight :: nat
  dp_dropped :: u64
  dp_delivered :: u64
  dp_failed :: u64
  dp_accepted :: "payload list"
  dp_batches :: "(payload list \<times> webhook list) list"
  dp_ran :: "(webhook \<times> payload) list"
  dp_log :: "(webhook \<times> payload \<times> http_post) list"

definition dispatcher_init :: "nat \<Rightarrow> bool \<Rightarrow> dispatcher" where
  "dispatcher_init queue_max ssrf_guard = \<lparr>dp_queue_max = queue_max, dp_ssrf_guard = ssrf_guard, dp_queue = [],
     dp_started = False, dp_stop = False, dp_stopping = False, dp_worker = NoWorker, dp_loop = NoLoop,
     dp_posted = [], dp_in_flight = 0, dp_dropped = 0, dp_delivered = 0, dp_failed = 0, dp_accepted = [],
     dp_batches = [], dp_ran = [], dp_log = []\<rparr>"

section \<open>The actions\<close>

definition dispatcher_start :: "dispatcher \<Rightarrow> dispatcher" where
  "dispatcher_start d =
     (if dp_started d then d
      else d\<lparr>dp_started := True, dp_stop := False, dp_loop := LoopUp, dp_worker := Waiting\<rparr>)"

definition dispatch_payload :: "payload \<Rightarrow> dispatcher \<Rightarrow> dispatcher" where
  "dispatch_payload p d =
     (if \<not> dp_started d \<or> dp_stop d then d
      else if dp_queue_max d \<le> length (dp_queue d) then d\<lparr>dp_dropped := dp_dropped d + 1\<rparr>
      else d\<lparr>dp_queue := dp_queue d @ [p], dp_accepted := dp_accepted d @ [p]\<rparr>)"

definition dispatch :: "dispatch_env \<Rightarrow> webhook_event \<Rightarrow> dispatcher \<Rightarrow> dispatcher" where
  "dispatch v ev d = dispatch_payload \<lparr>pl_event_id = ev_id ev, pl_body = serializeEvent v ev\<rparr> d"

definition swap_queue :: "dispatcher \<Rightarrow> payload list \<times> dispatcher" where
  "swap_queue d = (dp_queue d, d\<lparr>dp_queue := []\<rparr>)"

text \<open>The worker: the end of its wait, the snapshot of the receivers, and one functor posted at a time.\<close>

definition worker_take :: "dispatcher \<Rightarrow> dispatcher" where
  "worker_take d =
     (let (batch, d1) = swap_queue d
      in if batch = [] \<and> dp_stop d1 then d1\<lparr>dp_worker := WorkerDone\<rparr> else d1\<lparr>dp_worker := Holding batch\<rparr>)"

definition deliveries :: "payload list \<Rightarrow> webhook list \<Rightarrow> (webhook \<times> payload) list" where
  "deliveries batch hooks = concat (map (\<lambda>p. map (\<lambda>h. (h, p)) hooks) batch)"

definition worker_snapshot :: "webhook list \<Rightarrow> dispatcher \<Rightarrow> dispatcher" where
  "worker_snapshot hooks d = (case dp_worker d of
     Holding batch \<Rightarrow> d\<lparr>dp_worker := Posting (deliveries batch (activeSnapshot hooks)),
                       dp_batches := dp_batches d @ [(batch, activeSnapshot hooks)]\<rparr>
   | _ \<Rightarrow> d)"

definition worker_post :: "dispatcher \<Rightarrow> dispatcher" where
  "worker_post d = (case dp_worker d of
     Posting [] \<Rightarrow> d\<lparr>dp_worker := Waiting\<rparr>
   | Posting (x # xs) \<Rightarrow> d\<lparr>dp_worker := Posting xs, dp_posted := dp_posted d @ [x]\<rparr>
   | _ \<Rightarrow> d)"

text \<open>The loop thread: the next functor, and the callback of a request, which gives up its token.\<close>

definition loop_run :: "dispatch_env \<Rightarrow> dispatcher \<Rightarrow> dispatcher" where
  "loop_run v d = (case dp_posted d of
     [] \<Rightarrow> d
   | (h, p) # rest \<Rightarrow>
       (let d1 = d\<lparr>dp_posted := rest, dp_ran := dp_ran d @ [(h, p)]\<rparr>
        in case deliverOnLoop v (dp_ssrf_guard d) h p of
             None \<Rightarrow> d1
           | Some q \<Rightarrow> d1\<lparr>dp_in_flight := dp_in_flight d1 + 1, dp_log := dp_log d1 @ [(h, p, q)]\<rparr>))"

text \<open>\<open>None\<close> is a transport error; otherwise the status of the response.\<close>

definition http_callback :: "nat option \<Rightarrow> dispatcher \<Rightarrow> dispatcher" where
  "http_callback status d =
     (let d1 = (case status of
                  None \<Rightarrow> d\<lparr>dp_failed := dp_failed d + 1\<rparr>
                | Some s \<Rightarrow> if 200 \<le> s \<and> s < 300 then d\<lparr>dp_delivered := dp_delivered d + 1\<rparr>
                           else d\<lparr>dp_failed := dp_failed d + 1\<rparr>)
      in d1\<lparr>dp_in_flight := dp_in_flight d1 - 1\<rparr>)"

text \<open>\<^verbatim>\<open>stop\<close>: its first critical section, and its decision once the worker is joined and the waits are over.
  \<open>responsive\<close> is whether the barrier it posted was run within its five seconds.\<close>

definition stop_begin :: "dispatcher \<Rightarrow> dispatcher" where
  "stop_begin d = (if dp_stop d then d else d\<lparr>dp_stop := True, dp_stopping := True\<rparr>)"

definition stop_decide :: "bool \<Rightarrow> dispatcher \<Rightarrow> dispatcher" where
  "stop_decide responsive d =
     (if dp_loop d = NoLoop then d\<lparr>dp_stopping := False\<rparr>
      else if responsive \<and> dp_in_flight d = 0 then d\<lparr>dp_stopping := False, dp_loop := LoopGone\<rparr>
      else d\<lparr>dp_stopping := False, dp_loop := LoopLeaked\<rparr>)"

section \<open>The interleavings\<close>

definition loop_alive :: "dispatcher \<Rightarrow> bool" where
  "loop_alive d \<longleftrightarrow> dp_loop d = LoopUp \<or> dp_loop d = LoopLeaked"

text \<open>\<^verbatim>\<open>start\<close> and \<^verbatim>\<open>stop\<close> are called by the one thread that owns the dispatcher, so not during each other.\<close>

inductive dstep :: "dispatch_env \<Rightarrow> dispatcher \<Rightarrow> dispatcher \<Rightarrow> bool" for v where
  start: "\<not> dp_stopping d \<Longrightarrow> dstep v d (dispatcher_start d)"
| dispatch: "dstep v d (dispatch v ev d)"
| take: "dp_worker d = Waiting \<Longrightarrow> dp_stop d \<or> dp_queue d \<noteq> [] \<Longrightarrow> dstep v d (worker_take d)"
| snapshot: "dp_worker d = Holding batch \<Longrightarrow> dstep v d (worker_snapshot hooks d)"
| post: "dp_worker d = Posting xs \<Longrightarrow> dstep v d (worker_post d)"
| run: "loop_alive d \<Longrightarrow> dp_posted d \<noteq> [] \<Longrightarrow> dstep v d (loop_run v d)"
| callback: "loop_alive d \<Longrightarrow> 0 < dp_in_flight d \<Longrightarrow> dstep v d (http_callback status d)"
| stop: "dstep v d (stop_begin d)"
| decide: "dp_stopping d \<Longrightarrow> dp_worker d = WorkerDone \<or> dp_worker d = NoWorker \<Longrightarrow> \<not> responsive \<or> dp_posted d = []
    \<Longrightarrow> dstep v d (stop_decide responsive d)"

inductive dreach :: "dispatch_env \<Rightarrow> nat \<Rightarrow> bool \<Rightarrow> dispatcher \<Rightarrow> bool" for v mx g where
  init: "dreach v mx g (dispatcher_init mx g)"
| step: "dreach v mx g d \<Longrightarrow> dstep v d d' \<Longrightarrow> dreach v mx g d'"

section \<open>The queue\<close>

interpretation dispatch_queue: bounded_queue dispatch_payload swap_queue dp_queue dp_queue_max
  "\<lambda>d. dp_started d \<and> \<not> dp_stop d" dp_dropped
  by unfold_locales (auto simp: dispatch_payload_def swap_queue_def)

section \<open>The invariant\<close>

text \<open>The three phases of a dispatcher: not started, running (its stop may have begun), and stopped for good.\<close>

definition idle_phase :: "dispatcher \<Rightarrow> bool" where
  "idle_phase d \<longleftrightarrow> \<not> dp_started d \<and> dp_loop d = NoLoop \<and> dp_worker d = NoWorker \<and> dp_queue d = []
     \<and> dp_posted d = [] \<and> dp_in_flight d = 0"

definition running_phase :: "dispatcher \<Rightarrow> bool" where
  "running_phase d \<longleftrightarrow> dp_started d \<and> dp_loop d = LoopUp \<and> dp_worker d \<noteq> NoWorker
     \<and> (dp_worker d = WorkerDone \<longrightarrow> dp_stop d \<and> dp_queue d = [])"

definition stopped_phase :: "dispatcher \<Rightarrow> bool" where
  "stopped_phase d \<longleftrightarrow> dp_started d \<and> dp_worker d = WorkerDone \<and> dp_stop d \<and> \<not> dp_stopping d \<and> dp_queue d = []
     \<and> (dp_loop d = LoopLeaked \<or> dp_loop d = LoopGone \<and> dp_posted d = [] \<and> dp_in_flight d = 0)"

definition threads_inv :: "dispatcher \<Rightarrow> bool" where
  "threads_inv d \<longleftrightarrow> (idle_phase d \<or> running_phase d \<or> stopped_phase d) \<and> (dp_stopping d \<longrightarrow> dp_stop d)"

lemmas phase_defs = idle_phase_def running_phase_def stopped_phase_def

definition held_batch :: "worker \<Rightarrow> payload list" where
  "held_batch w = (case w of Holding batch \<Rightarrow> batch | _ \<Rightarrow> [])"

definition unposted :: "worker \<Rightarrow> (webhook \<times> payload) list" where
  "unposted w = (case w of Posting xs \<Rightarrow> xs | _ \<Rightarrow> [])"

definition flow_inv :: "dispatcher \<Rightarrow> bool" where
  "flow_inv d \<longleftrightarrow>
     dp_accepted d = concat (map fst (dp_batches d)) @ held_batch (dp_worker d) @ dp_queue d
     \<and> concat (map (\<lambda>(batch, hooks). deliveries batch hooks) (dp_batches d)) =
         dp_ran d @ dp_posted d @ unposted (dp_worker d)
     \<and> length (dp_queue d) \<le> dp_queue_max d"

definition request_of :: "dispatch_env \<Rightarrow> bool \<Rightarrow> webhook \<times> payload \<Rightarrow> (webhook \<times> payload \<times> http_post) option" where
  "request_of v g x = map_option (\<lambda>q. (fst x, snd x, q)) (deliverOnLoop v g (fst x) (snd x))"

definition calls_inv :: "dispatch_env \<Rightarrow> dispatcher \<Rightarrow> bool" where
  "calls_inv v d \<longleftrightarrow> dp_log d = List.map_filter (request_of v (dp_ssrf_guard d)) (dp_ran d)
     \<and> dp_in_flight d \<le> length (dp_log d)
     \<and> dp_delivered d + dp_failed d = of_nat (length (dp_log d) - dp_in_flight d)"

lemma held_batch_simps [simp]:
  "held_batch NoWorker = []" "held_batch Waiting = []" "held_batch (Holding b) = b" "held_batch (Posting xs) = []" "held_batch WorkerDone = []"
  "unposted NoWorker = []" "unposted Waiting = []" "unposted (Holding b) = []" "unposted (Posting xs) = xs"
  "unposted WorkerDone = []"
  by (simp_all add: held_batch_def unposted_def)

lemmas action_defs = dispatcher_start_def dispatch_def dispatch_payload_def worker_take_def swap_queue_def
  worker_snapshot_def worker_post_def stop_begin_def stop_decide_def

lemma loop_run_cases:
  obtains (none) "dp_posted d = []" "loop_run v d = d"
  | (skip) h p rest where "dp_posted d = (h, p) # rest" "deliverOnLoop v (dp_ssrf_guard d) h p = None"
      "loop_run v d = d\<lparr>dp_posted := rest, dp_ran := dp_ran d @ [(h, p)]\<rparr>"
  | (send) h p rest q where "dp_posted d = (h, p) # rest" "deliverOnLoop v (dp_ssrf_guard d) h p = Some q"
      "loop_run v d = d\<lparr>dp_posted := rest, dp_ran := dp_ran d @ [(h, p)], dp_in_flight := dp_in_flight d + 1,
         dp_log := dp_log d @ [(h, p, q)]\<rparr>"
proof (cases "dp_posted d")
  case Nil
  then show thesis by (intro none) (simp_all add: loop_run_def)
next
  case (Cons x rest)
  obtain h p where x: "x = (h, p)" by fastforce
  show thesis
  proof (cases "deliverOnLoop v (dp_ssrf_guard d) h p")
    case None
    then show thesis using Cons x by (intro skip) (simp_all add: loop_run_def Let_def)
  next
    case (Some q)
    then show thesis using Cons x by (intro send) (simp_all add: loop_run_def Let_def)
  qed
qed

lemma http_callback_frame [simp]:
  "dp_started (http_callback st d) = dp_started d" "dp_loop (http_callback st d) = dp_loop d"
  "dp_worker (http_callback st d) = dp_worker d" "dp_queue (http_callback st d) = dp_queue d"
  "dp_posted (http_callback st d) = dp_posted d" "dp_stop (http_callback st d) = dp_stop d"
  "dp_stopping (http_callback st d) = dp_stopping d" "dp_in_flight (http_callback st d) = dp_in_flight d - 1"
  "dp_accepted (http_callback st d) = dp_accepted d" "dp_batches (http_callback st d) = dp_batches d"
  "dp_ran (http_callback st d) = dp_ran d" "dp_log (http_callback st d) = dp_log d"
  "dp_queue_max (http_callback st d) = dp_queue_max d" "dp_ssrf_guard (http_callback st d) = dp_ssrf_guard d"
  "dp_delivered (http_callback st d) + dp_failed (http_callback st d) = dp_delivered d + dp_failed d + 1"
  by (auto simp: http_callback_def Let_def split: option.split)

lemma worker_post_phases: "threads_inv d \<Longrightarrow> dp_worker d = Posting xs \<Longrightarrow> threads_inv (worker_post d)"
  by (cases xs) (auto simp: threads_inv_def phase_defs worker_post_def)

lemma threads_step:
  assumes "dstep v d d'" "threads_inv d"
  shows "threads_inv d'"
  using assms(1)
proof cases
  case start
  then show ?thesis using assms(2) by (auto simp: threads_inv_def phase_defs dispatcher_start_def)
next
  case (dispatch ev)
  then show ?thesis using assms(2) by (auto simp: threads_inv_def phase_defs dispatch_def dispatch_payload_def)
next
  case take
  then show ?thesis using assms(2) by (auto simp: threads_inv_def phase_defs worker_take_def swap_queue_def)
next
  case (snapshot batch hooks)
  then show ?thesis using assms(2) by (auto simp: threads_inv_def phase_defs worker_snapshot_def)
next
  case (post xs)
  then show ?thesis using assms(2) worker_post_phases by simp
next
  case run
  then show ?thesis
    using assms(2) by (cases rule: loop_run_cases [where d = d and v = v])
      (auto simp: threads_inv_def phase_defs loop_alive_def)
next
  case (callback status)
  then show ?thesis using assms(2) by (auto simp: threads_inv_def phase_defs)
next
  case stop
  then show ?thesis using assms(2) by (auto simp: threads_inv_def phase_defs stop_begin_def)
next
  case (decide responsive)
  then show ?thesis using assms(2) by (auto simp: threads_inv_def phase_defs stop_decide_def)
qed

lemma flow_frame:
  "dp_accepted d' = dp_accepted d \<Longrightarrow> dp_batches d' = dp_batches d \<Longrightarrow> dp_worker d' = dp_worker d \<Longrightarrow>
   dp_queue d' = dp_queue d \<Longrightarrow> dp_ran d' @ dp_posted d' = dp_ran d @ dp_posted d \<Longrightarrow>
   dp_queue_max d' = dp_queue_max d \<Longrightarrow> flow_inv d' = flow_inv d"
  unfolding flow_inv_def by (metis append.assoc)

lemma flow_step:
  assumes "dstep v d d'" "threads_inv d" "flow_inv d"
  shows "flow_inv d'"
  using assms(1)
proof cases
  case start
  then show ?thesis
    using assms(2,3) by (auto simp: flow_inv_def threads_inv_def phase_defs dispatcher_start_def)
next
  case (dispatch ev)
  then show ?thesis using assms(3) by (auto simp: flow_inv_def dispatch_def dispatch_payload_def)
next
  case take
  then show ?thesis using assms(3) by (auto simp: flow_inv_def worker_take_def swap_queue_def)
next
  case (snapshot batch hooks)
  then show ?thesis using assms(3) by (auto simp: flow_inv_def worker_snapshot_def)
next
  case (post xs)
  then show ?thesis using assms(3) by (cases xs) (auto simp: flow_inv_def worker_post_def)
next
  case run
  then show ?thesis
    using assms(3) by (cases rule: loop_run_cases [where d = d and v = v])
      (simp, (simp only: run(1), subst flow_frame [of _ d], simp_all)+)
next
  case (callback status)
  have "flow_inv (http_callback status d) = flow_inv d" by (rule flow_frame) simp_all
  then show ?thesis using assms(3) callback(1) by simp
next
  case stop
  have "flow_inv (stop_begin d) = flow_inv d" by (rule flow_frame) (simp_all add: stop_begin_def)
  then show ?thesis using assms(3) stop by simp
next
  case (decide responsive)
  have "flow_inv (stop_decide responsive d) = flow_inv d" by (rule flow_frame) (simp_all add: stop_decide_def)
  then show ?thesis using assms(3) decide(1) by simp
qed

lemma calls_frame:
  "dp_log d' = dp_log d \<Longrightarrow> dp_ran d' = dp_ran d \<Longrightarrow> dp_in_flight d' = dp_in_flight d \<Longrightarrow>
   dp_ssrf_guard d' = dp_ssrf_guard d \<Longrightarrow> dp_delivered d' = dp_delivered d \<Longrightarrow> dp_failed d' = dp_failed d \<Longrightarrow>
   calls_inv v d' = calls_inv v d"
  by (simp add: calls_inv_def)

lemma map_filter_snoc: "List.map_filter f (xs @ [x]) = List.map_filter f xs @ (case f x of None \<Rightarrow> [] | Some y \<Rightarrow> [y])"
  by (induction xs) (auto simp: List.map_filter_simps split: option.split)

lemma calls_step:
  assumes "dstep v d d'" "calls_inv v d"
  shows "calls_inv v d'"
  using assms(1)
proof cases
  case start
  have "calls_inv v (dispatcher_start d) = calls_inv v d" by (rule calls_frame) (simp_all add: dispatcher_start_def)
  then show ?thesis using assms(2) start by simp
next
  case (dispatch ev)
  have "calls_inv v (dispatch v ev d) = calls_inv v d"
    by (rule calls_frame) (simp_all add: dispatch_def dispatch_payload_def)
  then show ?thesis using assms(2) dispatch by simp
next
  case take
  have "calls_inv v (worker_take d) = calls_inv v d" by (rule calls_frame) (simp_all add: worker_take_def swap_queue_def)
  then show ?thesis using assms(2) take by simp
next
  case (snapshot batch hooks)
  have "calls_inv v (worker_snapshot hooks d) = calls_inv v d"
    by (rule calls_frame) (simp_all add: worker_snapshot_def snapshot)
  then show ?thesis using assms(2) snapshot by simp
next
  case (post xs)
  have "calls_inv v (worker_post d) = calls_inv v d"
    by (cases xs; rule calls_frame) (simp_all add: worker_post_def post)
  then show ?thesis using assms(2) post by simp
next
  case run
  show ?thesis
  proof (cases rule: loop_run_cases [where d = d and v = v])
    case none
    then show ?thesis using assms(2) run by simp
  next
    case (skip h p rest)
    then have "request_of v (dp_ssrf_guard d) (h, p) = None" by (simp add: request_of_def)
    then show ?thesis using assms(2) unfolding run(1) skip(3) by (auto simp: calls_inv_def map_filter_snoc)
  next
    case (send h p rest q)
    then have "request_of v (dp_ssrf_guard d) (h, p) = Some (h, p, q)" by (simp add: request_of_def)
    then show ?thesis using assms(2) unfolding run(1) send(3) by (auto simp: calls_inv_def map_filter_snoc)
  qed
next
  case (callback status)
  then have "length (dp_log d) - (dp_in_flight d - 1) = Suc (length (dp_log d) - dp_in_flight d)"
    using assms(2) by (auto simp: calls_inv_def)
  with callback(1) assms(2) show ?thesis by (auto simp: calls_inv_def)
next
  case stop
  have "calls_inv v (stop_begin d) = calls_inv v d" by (rule calls_frame) (simp_all add: stop_begin_def)
  then show ?thesis using assms(2) stop by simp
next
  case (decide responsive)
  have "calls_inv v (stop_decide responsive d) = calls_inv v d" by (rule calls_frame) (simp_all add: stop_decide_def)
  then show ?thesis using assms(2) decide(1) by simp
qed

lemma dreach_inv: "dreach v mx g d \<Longrightarrow> threads_inv d \<and> flow_inv d \<and> calls_inv v d"
proof (induction rule: dreach.induct)
  case init
  show ?case by (simp add: dispatcher_init_def threads_inv_def phase_defs flow_inv_def calls_inv_def List.map_filter_def)
next
  case (step d d')
  then show ?case using threads_step flow_step calls_step by blast
qed

lemma guard_step: "dstep v d d' \<Longrightarrow> dp_ssrf_guard d' = dp_ssrf_guard d \<and> dp_queue_max d' = dp_queue_max d"
proof (induction rule: dstep.induct)
  case (run d)
  show ?case by (cases rule: loop_run_cases [where d = d and v = v]) simp_all
next
  case (post d xs)
  then show ?case by (cases xs) (simp_all add: worker_post_def)
qed (simp_all add: dispatcher_start_def dispatch_def dispatch_payload_def worker_take_def swap_queue_def
    worker_snapshot_def stop_begin_def stop_decide_def)

lemma guard_kept: "dreach v mx g d \<Longrightarrow> dp_ssrf_guard d = g \<and> dp_queue_max d = mx"
  by (induction rule: dreach.induct) (auto simp: dispatcher_init_def dest: guard_step)

section \<open>The properties\<close>

lemma gone_stays:
  assumes "dstep v d d'" "dreach v mx g d" "dp_loop d = LoopGone"
  shows "dp_loop d' = LoopGone \<and> dp_log d' = dp_log d \<and> dp_accepted d' = dp_accepted d"
proof -
  have f: "stopped_phase d" "\<not> loop_alive d"
    using dreach_inv [OF assms(2)] assms(3) by (auto simp: threads_inv_def phase_defs loop_alive_def)
  from assms(1) show ?thesis
    by cases (use f assms(3) in \<open>auto simp: stopped_phase_def dispatcher_start_def dispatch_def dispatch_payload_def
        stop_begin_def stop_decide_def\<close>)
qed

lemma gone_forever:
  assumes "(dstep v)\<^sup>*\<^sup>* d d'" "dreach v mx g d" "dp_loop d = LoopGone"
  shows "dp_loop d' = LoopGone \<and> dp_log d' = dp_log d \<and> dp_accepted d' = dp_accepted d"
  using assms
proof (induction rule: rtranclp_induct)
  case (step e e')
  have "dreach v mx g e" using step(1,4) by (induction rule: rtranclp_induct) (auto intro: dreach.step)
  with step show ?case using gone_stays by metis
qed simp

text \<open>C16: The loop thread is destroyed only when it is safe: at that moment and ever after no request is in flight,
  no functor waits in the loop, the worker has ended and the queue is empty; and nothing is accepted or sent
  any more, whatever is called in whatever order.\<close>

theorem loop_teardown_safe:
  assumes "dreach v mx g d" "dp_loop d = LoopGone" "(dstep v)\<^sup>*\<^sup>* d d'"
  shows "dp_in_flight d' = 0 \<and> dp_posted d' = [] \<and> dp_worker d' = WorkerDone \<and> dp_queue d' = []
    \<and> dp_loop d' = LoopGone \<and> dp_log d' = dp_log d \<and> dp_accepted d' = dp_accepted d"
proof -
  have "dreach v mx g d'" using assms(3,1) by (induction rule: rtranclp_induct) (auto intro: dreach.step)
  then have "threads_inv d'" using dreach_inv by blast
  then show ?thesis
    using gone_forever [OF assms(3,1,2)] by (auto simp: threads_inv_def phase_defs)
qed

text \<open>The flow of events and deliveries through the pipeline, for the properties below.\<close>

lemma dispatcher_flow:
  assumes "dreach v mx g d"
  shows "dp_accepted d = concat (map fst (dp_batches d)) @ held_batch (dp_worker d) @ dp_queue d"
    "concat (map (\<lambda>(batch, hooks). deliveries batch hooks) (dp_batches d)) =
        dp_ran d @ dp_posted d @ unposted (dp_worker d)"
    "dp_log d = List.map_filter (request_of v g) (dp_ran d)"
  using dreach_inv [OF assms] guard_kept [OF assms] by (auto simp: flow_inv_def calls_inv_def)

text \<open>C15: Whatever the interleaving of the callers, the worker, the loop and the callbacks: every event accepted is
  in exactly one batch, held by the worker or in the queue, in the order of acceptance; each batch is delivered
  to each receiver active when the worker took its snapshot, exactly once and in order; a request was made for
  just those deliveries whose URL can be read and, with the guard on, is not on a private host; each request is
  in flight or was counted once; and the queue stays within its limit.\<close>

theorem deliveries_accounted:
  assumes "dreach v mx g d"
  shows "dp_accepted d = concat (map fst (dp_batches d)) @ held_batch (dp_worker d) @ dp_queue d
    \<and> concat (map (\<lambda>(batch, hooks). deliveries batch hooks) (dp_batches d)) =
        dp_ran d @ dp_posted d @ unposted (dp_worker d)
    \<and> dp_log d = List.map_filter (request_of v g) (dp_ran d)
    \<and> dp_in_flight d \<le> length (dp_log d)
    \<and> dp_delivered d + dp_failed d = of_nat (length (dp_log d) - dp_in_flight d)
    \<and> length (dp_queue d) \<le> mx"
  using dreach_inv [OF assms] dispatcher_flow [OF assms] guard_kept [OF assms] by (auto simp: flow_inv_def calls_inv_def)

lemma logged_request:
  assumes "dreach v mx g d" "(h, p, q) \<in> set (dp_log d)"
  shows "deliverOnLoop v g h p = Some q"
  using assms(2) dispatcher_flow(3) [OF assms(1)] by (auto simp: List.map_filter_def request_of_def)

lemma batches_active:
  "dreach v mx g d \<Longrightarrow> list_all (\<lambda>(batch, hooks). list_all wh_active hooks) (dp_batches d)"
proof (induction rule: dreach.induct)
  case init
  show ?case by (simp add: dispatcher_init_def)
next
  case (step d d')
  from step(2,3) show ?case
  proof cases
    case run
    with step(3) show ?thesis by (cases rule: loop_run_cases [where d = d and v = v]) auto
  next
    case (post xs)
    with step(3) show ?thesis by (cases xs) (auto simp: worker_post_def)
  next
    case (snapshot batch hooks)
    with step(3) show ?thesis by (auto simp: worker_snapshot_def activeSnapshot_def list_all_iff)
  qed (use step(3) in \<open>auto simp: dispatcher_start_def dispatch_def dispatch_payload_def worker_take_def
      swap_queue_def stop_begin_def stop_decide_def\<close>)
qed

text \<open>A request that left was made for an event of a batch and a receiver of its snapshot.\<close>

lemma logged_delivery:
  assumes "dreach v mx g d" "(h, p, q) \<in> set (dp_log d)"
  shows "p \<in> set (dp_accepted d) \<and> wh_active h
    \<and> (\<exists>batch hooks. (batch, hooks) \<in> set (dp_batches d) \<and> p \<in> set batch \<and> h \<in> set hooks)"
proof -
  note acc = dispatcher_flow [OF assms(1)]
  have "(h, p) \<in> set (dp_ran d)"
    using assms(2) acc by (auto simp: List.map_filter_def request_of_def)
  then have "(h, p) \<in> set (concat (map (\<lambda>(batch, hooks). deliveries batch hooks) (dp_batches d)))"
    using acc by simp
  then obtain batch hooks where b: "(batch, hooks) \<in> set (dp_batches d)" "p \<in> set batch" "h \<in> set hooks"
    by (auto simp: deliveries_def)
  have "p \<in> set (concat (map fst (dp_batches d)))" using b(1,2) by force
  then have "p \<in> set (dp_accepted d)" using acc by simp
  moreover have "wh_active h" using batches_active [OF assms(1)] b by (auto simp: list_all_iff)
  ultimately show ?thesis using b by blast
qed

text \<open>Every request that leaves: it carries an accepted event to a receiver that was active, its body is the
  event's document and its headers the event's id and the signature of exactly that body under the receiver's
  own secret; its address is that of the receiver's URL, and with the guard on that host is not private.\<close>

theorem requests_signed_and_guarded:
  assumes "dreach v mx g d" "(h, p, q) \<in> set (dp_log d)"
  shows "p \<in> set (dp_accepted d) \<and> wh_active h \<and> hp_body q = pl_body p
    \<and> hp_headers q = [(''X-TGW-Signature'', signBody v (wh_secret h) (pl_body p)), (''X-TGW-Event-Id'', pl_event_id p)]
    \<and> (\<exists>url. parseUrl (wh_url h) = Some url \<and> hp_base q = pu_base url \<and> hp_path q = pu_path url
        \<and> (\<not> g \<or> \<not> isPrivateHost (de_inet_pton6 v) (pu_host url)))"
  using logged_delivery [OF assms] logged_request [OF assms] by (auto simp: deliverOnLoop_def split: option.splits if_splits)

section \<open>An instance\<close>

definition sample_dispatch_env :: dispatch_env where
  "sample_dispatch_env = \<lparr>de_writer = (\<lambda>j. ''doc''), de_hmacSha256 = (\<lambda>k b. ''AB''), de_inet_pton6 = (\<lambda>h. None)\<rparr>"

definition sample_event :: webhook_event where
  "sample_event = \<lparr>ev_id = ''e'', ev_session = ''s'', ev_owner = ''1'', ev_reason = ''mention'', ev_message = JNull,
     ev_chain = [], ev_truncated = False, ev_received_at = 0\<rparr>"

definition sample_receiver :: webhook where
  "sample_receiver = \<lparr>wh_id = ''i'', wh_url = ''https://h/x'', wh_secret = ''k'', wh_active = True\<rparr>"

definition sample_delivered :: dispatcher where
  "sample_delivered = loop_run sample_dispatch_env (worker_post (worker_snapshot [sample_receiver]
     (worker_take (dispatch sample_dispatch_env sample_event (dispatcher_start (dispatcher_init 1 True))))))"

definition sample_stopped :: dispatcher where
  "sample_stopped = stop_decide True (worker_take (worker_post (http_callback (Some 200) (stop_begin sample_delivered))))"

abbreviation sample_post :: http_post where
  "sample_post \<equiv> \<lparr>hp_base = ''https://h'', hp_path = ''/x'', hp_content_type = ''application/json'',
     hp_headers = [(''X-TGW-Signature'', ''sha256=4142''), (''X-TGW-Event-Id'', ''e'')], hp_body = ''doc''\<rparr>"

lemma sample_delivered_eval:
  "dp_log sample_delivered = [(sample_receiver, \<lparr>pl_event_id = ''e'', pl_body = ''doc''\<rparr>, sample_post)]
   \<and> dp_worker sample_delivered = Posting [] \<and> dp_loop sample_delivered = LoopUp \<and> dp_in_flight sample_delivered = 1
   \<and> dp_queue sample_delivered = [] \<and> dp_posted sample_delivered = [] \<and> \<not> dp_stop sample_delivered"
  by code_simp

lemma sample_reach: "dreach sample_dispatch_env 1 True sample_delivered"
proof -
  let ?v = sample_dispatch_env
  let ?d1 = "dispatcher_start (dispatcher_init 1 True)"
  let ?d2 = "dispatch ?v sample_event ?d1"
  let ?d3 = "worker_take ?d2"
  let ?d4 = "worker_snapshot [sample_receiver] ?d3"
  let ?d5 = "worker_post ?d4"
  have "dreach ?v 1 True ?d1" by (rule dreach.step [OF dreach.init]) (rule dstep.start, simp add: dispatcher_init_def)
  then have "dreach ?v 1 True ?d2" by (rule dreach.step) (rule dstep.dispatch)
  then have "dreach ?v 1 True ?d3" by (rule dreach.step) (rule dstep.take, code_simp, code_simp)
  then have "dreach ?v 1 True ?d4" by (rule dreach.step) (rule dstep.snapshot [where batch = "[\<lparr>pl_event_id = ''e'', pl_body = ''doc''\<rparr>]"], code_simp)
  then have "dreach ?v 1 True ?d5"
    by (rule dreach.step) (rule dstep.post [where xs = "[(sample_receiver, \<lparr>pl_event_id = ''e'', pl_body = ''doc''\<rparr>)]"], code_simp)
  then show ?thesis
    unfolding sample_delivered_def by (rule dreach.step) (rule dstep.run, code_simp, code_simp)
qed

lemma sample_stopped_reach: "dreach sample_dispatch_env 1 True sample_stopped"
proof -
  let ?v = sample_dispatch_env
  let ?d1 = "stop_begin sample_delivered"
  let ?d2 = "http_callback (Some 200) ?d1"
  let ?d3 = "worker_post ?d2"
  let ?d4 = "worker_take ?d3"
  have "dreach ?v 1 True ?d1" by (rule dreach.step [OF sample_reach]) (rule dstep.stop)
  then have "dreach ?v 1 True ?d2" by (rule dreach.step) (rule dstep.callback, code_simp, code_simp)
  then have "dreach ?v 1 True ?d3" by (rule dreach.step) (rule dstep.post [where xs = "[]"], code_simp)
  then have "dreach ?v 1 True ?d4" by (rule dreach.step) (rule dstep.take, code_simp, code_simp)
  then show ?thesis
    unfolding sample_stopped_def by (rule dreach.step) (rule dstep.decide, code_simp, code_simp, code_simp)
qed

theorem loop_teardown_safe_witness:
  "dp_in_flight (dispatch sample_dispatch_env sample_event sample_stopped) = 0
   \<and> dp_loop (dispatch sample_dispatch_env sample_event sample_stopped) = LoopGone
   \<and> dp_accepted (dispatch sample_dispatch_env sample_event sample_stopped) = dp_accepted sample_stopped"
proof -
  have "dp_loop sample_stopped = LoopGone" by code_simp
  moreover have "(dstep sample_dispatch_env)\<^sup>*\<^sup>* sample_stopped (dispatch sample_dispatch_env sample_event sample_stopped)"
    by (rule r_into_rtranclp) (rule dstep.dispatch)
  ultimately show ?thesis using loop_teardown_safe [OF sample_stopped_reach] by blast
qed

theorem deliveries_accounted_witness:
  "dp_accepted sample_stopped = concat (map fst (dp_batches sample_stopped)) @ held_batch (dp_worker sample_stopped)
     @ dp_queue sample_stopped
   \<and> length (dp_log sample_stopped) = 1"
proof -
  have "length (dp_log sample_stopped) = 1" by code_simp
  with deliveries_accounted [OF sample_stopped_reach] show ?thesis by blast
qed

theorem requests_signed_and_guarded_witness:
  "hp_headers sample_post = [(''X-TGW-Signature'', signBody sample_dispatch_env ''k'' ''doc''), (''X-TGW-Event-Id'', ''e'')]"
proof -
  have "(sample_receiver, \<lparr>pl_event_id = ''e'', pl_body = ''doc''\<rparr>, sample_post) \<in> set (dp_log sample_delivered)"
    using sample_delivered_eval by simp
  from requests_signed_and_guarded [OF sample_reach this] show ?thesis by (simp add: sample_receiver_def)
qed

end
