(* ===== verification/KafkaSink.thy ===== *)
theory KafkaSink
  imports BoundedQueue Config
begin

text \<open>
  \<^verbatim>\<open>src/src/events/kafka_sink.cpp\<close>: the queue between TDLib's receiver thread and the one worker that may call
  librdkafka. The library is a parameter: \<open>acc n\<close> says whether its \<open>n\<close>-th \<^verbatim>\<open>produce\<close> call takes the message;
  \<open>ks_log\<close> is the history of these calls. \<^verbatim>\<open>kMaxQueue\<close> is a constant of the class and a parameter here, so
  that small instances can be computed; \<open>kMaxQueue\<close> is its value.
\<close>

type_synonym kafka_message = "string \<times> string"

record kafka_sink =
  ks_max :: nat
  ks_queue :: "kafka_message list"
  ks_stop :: bool
  ks_dropped :: u64
  ks_produced :: u64
  ks_failed :: u64
  ks_log :: "(kafka_message \<times> bool) list"
  ks_exited :: bool

definition kMaxQueue :: nat where
  "kMaxQueue = 20000"

definition kafka_enabled :: "kafka_config \<Rightarrow> bool" where
  "kafka_enabled c \<longleftrightarrow> kf_brokers c \<noteq> []"

text \<open>\<^verbatim>\<open>create\<close>: nothing without brokers, or when the library refuses the settings or the producer.\<close>

definition kafka_init :: "nat \<Rightarrow> kafka_sink" where
  "kafka_init mx = \<lparr>ks_max = mx, ks_queue = [], ks_stop = False, ks_dropped = 0, ks_produced = 0, ks_failed = 0,
     ks_log = [], ks_exited = False\<rparr>"

definition kafka_create :: "kafka_config \<Rightarrow> (string \<Rightarrow> string \<Rightarrow> bool) \<Rightarrow> bool \<Rightarrow> kafka_sink option" where
  "kafka_create c conf_set producer_made =
     (if \<not> kafka_enabled c then None
      else if \<not> conf_set ''bootstrap.servers'' (kf_brokers c) \<or> \<not> conf_set ''client.id'' (kf_client_id c)
         \<or> \<not> conf_set ''dr_cb'' [] then None
      else if \<not> producer_made then None
      else Some (kafka_init kMaxQueue))"

definition kafka_produce :: "kafka_message \<Rightarrow> kafka_sink \<Rightarrow> kafka_sink" where
  "kafka_produce m s =
     (if ks_max s \<le> length (ks_queue s) then s\<lparr>ks_dropped := ks_dropped s + 1\<rparr>
      else s\<lparr>ks_queue := ks_queue s @ [m]\<rparr>)"

section \<open>The worker\<close>

definition kafka_take :: "kafka_sink \<Rightarrow> kafka_message list \<times> kafka_sink" where
  "kafka_take s = (ks_queue s, s\<lparr>ks_queue := []\<rparr>)"

definition kafka_hand :: "(nat \<Rightarrow> bool) \<Rightarrow> kafka_message \<Rightarrow> kafka_sink \<Rightarrow> kafka_sink" where
  "kafka_hand acc m s =
     (let ok = acc (length (ks_log s))
      in s\<lparr>ks_log := ks_log s @ [(m, ok)], ks_dropped := (if ok then ks_dropped s else ks_dropped s + 1)\<rparr>)"

text \<open>One turn of the loop, from the wait to the poll: the wait ends with something in the queue, with the stop
  flag, or, while reports are outstanding, after a tenth of a second with neither.\<close>

definition kafka_turn :: "(nat \<Rightarrow> bool) \<Rightarrow> kafka_sink \<Rightarrow> kafka_sink" where
  "kafka_turn acc s =
     (if ks_exited s then s
      else (let (batch, s1) = kafka_take s
            in if batch = [] \<and> ks_stop s1 then s1\<lparr>ks_exited := True\<rparr>
               else fold (kafka_hand acc) batch s1))"

text \<open>A delivery report, called from \<^verbatim>\<open>poll\<close> or \<^verbatim>\<open>flush\<close>.\<close>

definition kafka_report :: "bool \<Rightarrow> kafka_sink \<Rightarrow> kafka_sink" where
  "kafka_report ok s =
     (if ok then s\<lparr>ks_produced := ks_produced s + 1\<rparr> else s\<lparr>ks_failed := ks_failed s + 1\<rparr>)"

lemma kafka_hand_frame [simp]:
  "ks_queue (kafka_hand acc m s) = ks_queue s" "ks_stop (kafka_hand acc m s) = ks_stop s"
  "ks_exited (kafka_hand acc m s) = ks_exited s" "ks_max (kafka_hand acc m s) = ks_max s"
  by (simp_all add: kafka_hand_def Let_def)

lemma kafka_hands_frame [simp]:
  "ks_queue (fold (kafka_hand acc) b s) = ks_queue s" "ks_stop (fold (kafka_hand acc) b s) = ks_stop s"
  "ks_exited (fold (kafka_hand acc) b s) = ks_exited s" "ks_max (fold (kafka_hand acc) b s) = ks_max s"
  by (induction b arbitrary: s) simp_all

lemma kafka_turn_queue [simp]: "\<not> ks_exited s \<Longrightarrow> ks_queue (kafka_turn acc s) = []"
  by (simp add: kafka_turn_def kafka_take_def)

lemma kafka_turn_stop [simp]: "ks_stop (kafka_turn acc s) = ks_stop s"
  by (simp add: kafka_turn_def kafka_take_def)

text \<open>The worker once the stop flag is set: it runs until it exits. The destructor and \<^verbatim>\<open>flush\<close> join it.\<close>

function kafka_drain :: "(nat \<Rightarrow> bool) \<Rightarrow> kafka_sink \<Rightarrow> kafka_sink" where
  "kafka_drain acc s = (if ks_exited s \<or> \<not> ks_stop s then s else kafka_drain acc (kafka_turn acc s))"
  by pat_completeness auto
termination
  by (relation "measures [\<lambda>(acc, s). if ks_exited s then 0 else Suc (length (ks_queue s))]")
    (auto simp: kafka_turn_def kafka_take_def split: prod.splits)

declare kafka_drain.simps [simp del]

lemma kafka_drain_exited [simp]: "ks_exited s \<Longrightarrow> kafka_drain acc s = s"
  by (simp add: kafka_drain.simps [of acc s])

definition kafka_flush :: "(nat \<Rightarrow> bool) \<Rightarrow> kafka_sink \<Rightarrow> kafka_sink" where
  "kafka_flush acc s = kafka_drain acc (s\<lparr>ks_stop := True\<rparr>)"

section \<open>The queue it promises\<close>

interpretation kafka: bounded_queue kafka_produce kafka_take ks_queue ks_max "\<lambda>_. True" ks_dropped
  by unfold_locales (auto simp: kafka_produce_def kafka_take_def)

fun kafka_op :: "(nat \<Rightarrow> bool) \<Rightarrow> kafka_message queue_op \<Rightarrow> kafka_sink \<Rightarrow> kafka_sink" where
  "kafka_op acc (Offer m) s = kafka_produce m s"
| "kafka_op acc TakeAll s = kafka_turn acc s"

definition kafka_run :: "(nat \<Rightarrow> bool) \<Rightarrow> kafka_message queue_op list \<Rightarrow> kafka_sink \<Rightarrow> kafka_sink" where
  "kafka_run acc ops s = fold (kafka_op acc) ops s"

definition rejected :: "kafka_sink \<Rightarrow> nat" where
  "rejected s = length (filter (\<lambda>e. \<not> snd e) (ks_log s))"

lemma kafka_hands_log:
  "map fst (ks_log (fold (kafka_hand acc) b s)) = map fst (ks_log s) @ b
   \<and> ks_dropped (fold (kafka_hand acc) b s) + of_nat (rejected s) =
       ks_dropped s + of_nat (rejected (fold (kafka_hand acc) b s))"
proof (induction b arbitrary: s)
  case (Cons m b)
  have "ks_dropped (kafka_hand acc m s) + of_nat (rejected s) = ks_dropped s + of_nat (rejected (kafka_hand acc m s))"
    by (simp add: kafka_hand_def rejected_def Let_def)
  then have d: "ks_dropped (kafka_hand acc m s) = ks_dropped s + of_nat (rejected (kafka_hand acc m s)) - of_nat (rejected s)"
    by (simp add: eq_diff_eq)
  have l: "map fst (ks_log (kafka_hand acc m s)) = map fst (ks_log s) @ [m]"
    by (simp add: kafka_hand_def Let_def)
  from Cons.IH [of "kafka_hand acc m s"]
  have "map fst (ks_log (fold (kafka_hand acc) (m # b) s)) = map fst (ks_log s) @ m # b"
      "ks_dropped (fold (kafka_hand acc) (m # b) s) =
       ks_dropped (kafka_hand acc m s) + of_nat (rejected (fold (kafka_hand acc) (m # b) s)) - of_nat (rejected (kafka_hand acc m s))"
    by (simp_all add: l eq_diff_eq)
  then show ?case by (simp add: d)
qed simp

text \<open>While the worker runs, the sink is the queue of the contract with the batches handed to the library.\<close>

definition tracks :: "kafka_sink \<Rightarrow> kafka_sink \<times> kafka_message list \<Rightarrow> bool" where
  "tracks s p \<longleftrightarrow> ks_queue s = ks_queue (fst p) \<and> ks_max s = ks_max (fst p) \<and> map fst (ks_log s) = snd p
     \<and> ks_dropped s = ks_dropped (fst p) + of_nat (rejected s) \<and> \<not> ks_stop s \<and> \<not> ks_exited s"

lemma tracks_step: "tracks s p \<Longrightarrow> tracks (kafka_op acc op s) (kafka.step op p)"
proof -
  assume t: "tracks s p"
  obtain q out where p: "p = (q, out)" by fastforce
  show ?thesis
  proof (cases op)
    case (Offer m)
    with t p show ?thesis by (auto simp: tracks_def kafka_produce_def rejected_def)
  next
    case TakeAll
    let ?s1 = "s\<lparr>ks_queue := []\<rparr>"
    have "rejected ?s1 = rejected s" by (simp add: rejected_def)
    with t p TakeAll kafka_hands_log [of acc "ks_queue s" ?s1] show ?thesis
      by (auto simp: tracks_def kafka_turn_def kafka_take_def algebra_simps)
  qed
qed

lemma tracks_run: "tracks s p \<Longrightarrow> tracks (kafka_run acc ops s) (fold kafka.step ops p)"
proof (induction ops arbitrary: s p)
  case Nil
  then show ?case by (simp add: kafka_run_def)
next
  case (Cons op ops)
  from Cons.IH [OF tracks_step [OF Cons.prems, of acc op]] show ?case by (simp add: kafka_run_def)
qed

lemma kafka_flush_log:
  assumes "\<not> ks_exited s"
  shows "ks_queue (kafka_flush acc s) = [] \<and> ks_exited (kafka_flush acc s)
    \<and> map fst (ks_log (kafka_flush acc s)) = map fst (ks_log s) @ ks_queue s
    \<and> ks_dropped (kafka_flush acc s) + of_nat (rejected s) = ks_dropped s + of_nat (rejected (kafka_flush acc s))"
proof -
  let ?t = "s\<lparr>ks_stop := True, ks_queue := []\<rparr>" and ?s = "s\<lparr>ks_stop := True\<rparr>"
  let ?h = "fold (kafka_hand acc) (ks_queue s) ?t"
  have d0: "kafka_drain acc s' = s'\<lparr>ks_exited := True, ks_queue := []\<rparr>"
    if "ks_stop s'" "ks_queue s' = []" "\<not> ks_exited s'" for s'
    using that by (simp add: kafka_drain.simps [of acc s'] kafka_turn_def kafka_take_def)
  have "kafka_flush acc s = ?h\<lparr>ks_exited := True, ks_queue := []\<rparr>"
  proof (cases "ks_queue s = []")
    case True
    then show ?thesis using assms d0 [of ?s] by (simp add: kafka_flush_def)
  next
    case False
    then have "kafka_turn acc ?s = ?h" using assms by (simp add: kafka_turn_def kafka_take_def)
    then show ?thesis
      using assms d0 [of ?h] by (simp add: kafka_flush_def kafka_drain.simps [of acc ?s])
  qed
  moreover have "rejected ?t = rejected s" "rejected (?h\<lparr>ks_exited := True, ks_queue := []\<rparr>) = rejected ?h"
    by (simp_all add: rejected_def)
  ultimately show ?thesis using kafka_hands_log [of acc "ks_queue s" ?t] by simp
qed

text \<open>The whole life of a sink, for the property below and for the end of the process.\<close>

lemma kafka_flush_accounts:
  "ks_queue (kafka_flush acc (kafka_run acc ops (kafka_init mx))) = []
   \<and> ks_exited (kafka_flush acc (kafka_run acc ops (kafka_init mx)))
   \<and> map fst (ks_log (kafka_flush acc (kafka_run acc ops (kafka_init mx)))) = kept mx 0 ops
   \<and> ks_dropped (kafka_flush acc (kafka_run acc ops (kafka_init mx))) =
       of_nat (length (offered ops) - length (kept mx 0 ops)
         + rejected (kafka_flush acc (kafka_run acc ops (kafka_init mx))))
   \<and> length (ks_queue (kafka_run acc ops (kafka_init mx))) \<le> mx"
proof -
  let ?r = "kafka_run acc ops (kafka_init mx)"
  have "tracks (kafka_init mx) (kafka_init mx, [])" by (simp add: tracks_def kafka_init_def rejected_def)
  then have t: "tracks ?r (kafka.run ops (kafka_init mx))" unfolding kafka.run_def by (rule tracks_run)
  obtain q out where q: "kafka.run ops (kafka_init mx) = (q, out)" by fastforce
  have i: "ks_queue (kafka_init mx) = []" "ks_max (kafka_init mx) = mx" "ks_dropped (kafka_init mx) = 0"
    by (simp_all add: kafka_init_def)
  have k: "out @ ks_queue q = kept mx 0 ops" "length (ks_queue q) \<le> mx"
      "ks_dropped q = of_nat (length (offered ops) - length (kept mx 0 ops))"
    using kafka.run_keeps [OF _ _ q] by (simp_all add: i)
  have "\<not> ks_exited ?r" using t by (simp add: tracks_def)
  from kafka_flush_log [OF this, of acc] t k show ?thesis by (simp add: tracks_def q)
qed

text \<open>C18: Every event put into the Kafka channel is accounted for: after any sequence of calls and turns of the
  worker, a flush ends with the worker gone and an empty queue; librdkafka was then called exactly once for
  each event that found room, in the order of the calls, and the counter of dropped events is the number of
  those that found none plus those the library did not take. The queue never exceeds its limit.\<close>

theorem kafka_events_accounted:
  "ks_queue (kafka_flush acc (kafka_run acc ops (kafka_init mx))) = []
   \<and> ks_exited (kafka_flush acc (kafka_run acc ops (kafka_init mx)))
   \<and> map fst (ks_log (kafka_flush acc (kafka_run acc ops (kafka_init mx)))) = kept mx 0 ops
   \<and> ks_dropped (kafka_flush acc (kafka_run acc ops (kafka_init mx))) =
       of_nat (length (offered ops) - length (kept mx 0 ops)
         + rejected (kafka_flush acc (kafka_run acc ops (kafka_init mx))))
   \<and> length (ks_queue (kafka_run acc ops (kafka_init mx))) \<le> mx"
  by (rule kafka_flush_accounts)

end
