(* ===== verification/Shutdown.thy ===== *)
theory Shutdown
  imports MainWiring Bridge SendTracker WebhookDispatcher KafkaSink "HOL-Library.Sublist"
begin

text \<open>
  The end of the process, from the tail of \<^verbatim>\<open>main\<close> in \<^verbatim>\<open>src/src/main.cpp\<close>: how long it may take
  and what becomes of the session. What the order of the stops means for the parts is in \<open>Process\<close>.
\<close>

section \<open>Waiting\<close>

text \<open>A loop that sleeps \<open>pause\<close> milliseconds while \<open>busy\<close>, as long as less than \<open>budget\<close> have passed.\<close>

function poll_wait :: "nat \<Rightarrow> nat \<Rightarrow> (nat \<Rightarrow> bool) \<Rightarrow> nat \<Rightarrow> nat" where
  "poll_wait pause budget busy since =
     (if 0 < pause \<and> busy since \<and> since < budget then poll_wait pause budget busy (since + pause) else since)"
  by pat_completeness auto
termination by (relation "measure (\<lambda>(pause, budget, busy, since). budget - since)") auto

declare poll_wait.simps [simp del]

definition kBgSyncWait :: nat where
  "kBgSyncWait = 35000 + 10000"

definition kPoll :: nat where
  "kPoll = 50"

text \<open>The two attempts of the final PUT: the second one only after a fast transport error.\<close>

definition putWait :: "nat \<Rightarrow> bool \<Rightarrow> nat \<Rightarrow> nat" where
  "putWait t1 refused1 t2 =
     (if refused1 \<and> t1 < 5000 then t1 + min t2 35000 else min t1 35000)"

text \<open>How long each thing the tail waits for takes, in milliseconds; \<open>None\<close> never ends.\<close>

record tail_times =
  tt_closed :: "nat option"
  tt_receive :: nat
  tt_barrier :: "nat option"
  tt_posts :: "nat \<Rightarrow> bool"
  tt_flush :: "nat option"
  tt_sync :: "nat \<Rightarrow> bool"
  tt_put1 :: nat
  tt_put1_error :: bool
  tt_put2 :: nat

definition up_to :: "nat \<Rightarrow> nat option \<Rightarrow> nat" where
  "up_to cap t = (case t of None \<Rightarrow> cap | Some n \<Rightarrow> min n cap)"

definition dispatcherWait :: "config \<Rightarrow> tail_times \<Rightarrow> nat" where
  "dispatcherWait c t =
     (if cf_webhooks_enabled c
      then (case tt_barrier t of
              None \<Rightarrow> 5000
            | Some n \<Rightarrow> if 5000 \<le> n then 5000
                        else n + poll_wait 5 (nat (2 * cf_webhook_timeout_ms c + 500)) (tt_posts t) 0)
      else 0)"

text \<open>The waits in their order: TDLib's end, the receiver's last turn, the dispatcher, Kafka, S3.\<close>

definition tailWaits :: "config \<Rightarrow> bool \<Rightarrow> bool \<Rightarrow> tail_times \<Rightarrow> nat list" where
  "tailWaits c kafka_made sync_disabled t =
    [up_to 10000 (tt_closed t), min (tt_receive t) 1000, dispatcherWait c t,
     if kafka_made then up_to 10000 (tt_flush t) else 0]
    @ (if s3_enabled (cf_s3 c) \<and> \<not> sync_disabled
       then [poll_wait kPoll kBgSyncWait (tt_sync t) 0, putWait (tt_put1 t) (tt_put1_error t) (tt_put2 t)] else [])"

lemma poll_wait_bound: "0 < pause \<Longrightarrow> since \<le> budget \<Longrightarrow> poll_wait pause budget busy since \<le> budget + pause - 1"
proof (induction pause budget busy since rule: poll_wait.induct)
  case (1 pause budget busy since)
  show ?case
  proof (cases "busy since \<and> since < budget")
    case True
    show ?thesis
    proof (cases "since + pause \<le> budget")
      case True
      then show ?thesis
        using 1 by (subst poll_wait.simps) auto
    next
      case False
      then have "poll_wait pause budget busy (since + pause) = since + pause"
        by (subst poll_wait.simps) simp
      with \<open>busy since \<and> since < budget\<close> 1(2) show ?thesis by (subst poll_wait.simps) auto
    qed
  next
    case False
    then show ?thesis using 1(2,3) by (subst poll_wait.simps) auto
  qed
qed

lemma poll_wait_multiple:
  assumes "pause dvd budget" "pause dvd since" "since \<le> budget"
  shows "poll_wait pause budget busy since \<le> budget"
  using assms
proof (induction pause budget busy since rule: poll_wait.induct)
  case (1 pause budget busy since)
  show ?case
  proof (cases "0 < pause \<and> busy since \<and> since < budget")
    case True
    then have "pause dvd budget - since" "0 < budget - since" using 1(2,3) by auto
    then have "pause \<le> budget - since" using dvd_imp_le by blast
    then show ?thesis using 1 True by (subst poll_wait.simps) auto
  next
    case False
    then show ?thesis using 1(4) by (subst poll_wait.simps) auto
  qed
qed

lemma poll_wait_busy: "0 < pause \<Longrightarrow> budget \<le> poll_wait pause budget (\<lambda>_. True) since"
proof (induction pause budget "\<lambda>_ :: nat. True" since rule: poll_wait.induct)
  case (1 pause budget since)
  then show ?case by (subst poll_wait.simps) auto
qed

lemma putWait_bound: "putWait t1 e t2 \<le> 40000"
  by (auto simp: putWait_def)

text \<open>The longest time, with webhooks as they are configured by default.\<close>

definition slowest :: tail_times where
  "slowest = \<lparr>tt_closed = None, tt_receive = 1000, tt_barrier = Some 4999, tt_posts = (\<lambda>_. True), tt_flush = None,
     tt_sync = (\<lambda>_. True), tt_put1 = 4999, tt_put1_error = True, tt_put2 = 35000\<rparr>"

text \<open>C33: how long the end of the process takes: without webhooks at most 106 seconds, within the 120 seconds that the
  deployment grants before the process is killed; with webhooks their timeout counts twice and five and a half
  seconds come on top, and with the default timeout of ten seconds the 120 seconds can be exceeded before the
  final PUT of the session is done. The deployment's own sum leaves the dispatcher out.\<close>

theorem shutdown_time:
  "(\<not> cf_webhooks_enabled c \<longrightarrow> sum_list (tailWaits c k d t) \<le> 106000)
   \<and> sum_list (tailWaits c k d t) \<le> 106000 + 5000 + nat (2 * cf_webhook_timeout_ms c + 500) + 4
   \<and> (cf_webhooks_enabled c \<and> cf_webhook_timeout_ms c = 10000 \<and> s3_enabled (cf_s3 c) \<longrightarrow>
        120000 < sum_list (tailWaits c True False slowest))"
proof -
  have s: "poll_wait kPoll kBgSyncWait (tt_sync t) 0 \<le> 45000"
    using poll_wait_multiple [of kPoll kBgSyncWait 0 "tt_sync t"] by (simp add: kPoll_def kBgSyncWait_def)
  have u: "up_to 10000 x \<le> 10000" for x by (auto simp: up_to_def split: option.split)
  have w: "dispatcherWait c t \<le> 5000 + nat (2 * cf_webhook_timeout_ms c + 500) + 4"
    using poll_wait_bound [of 5 0 "nat (2 * cf_webhook_timeout_ms c + 500)" "tt_posts t"]
    by (auto simp: dispatcherWait_def split: option.split)
  have rest: "sum_list (tailWaits c k d t) \<le> 106000 + dispatcherWait c t"
    using s u [of "tt_closed t"] u [of "tt_flush t"] putWait_bound [of "tt_put1 t" "tt_put1_error t" "tt_put2 t"]
      min.cobounded2 [of "tt_receive t" 1000]
    by (auto simp: tailWaits_def)
  have "45000 \<le> poll_wait kPoll kBgSyncWait (\<lambda>_. True) 0"
    using poll_wait_busy [of kPoll kBgSyncWait 0] by (simp add: kPoll_def kBgSyncWait_def)
  moreover have "20500 \<le> poll_wait 5 20500 (\<lambda>_. True) 0" by (simp add: poll_wait_busy)
  ultimately have "cf_webhooks_enabled c \<and> cf_webhook_timeout_ms c = 10000 \<and> s3_enabled (cf_s3 c) \<longrightarrow>
        120000 < sum_list (tailWaits c True False slowest)"
    by (simp add: tailWaits_def slowest_def up_to_def dispatcherWait_def putWait_def)
  moreover have "\<not> cf_webhooks_enabled c \<longrightarrow> dispatcherWait c t = 0" by (simp add: dispatcherWait_def)
  ultimately show ?thesis using rest w by auto
qed

definition stored_config :: config where
  "stored_config = default_config\<lparr>cf_webhooks_enabled := True, cf_s3 := default_s3\<lparr>s3_bucket := ''b'',
     s3_key := ''k'', s3_access_key := ''a'', s3_secret_key := ''s'', s3_endpoint := ''e''\<rparr>\<rparr>"

theorem shutdown_time_witness:
  "120000 < sum_list (tailWaits stored_config True False slowest)"
  using shutdown_time [of stored_config] by (simp add: stored_config_def s3_enabled_def default_config_def)

section \<open>The last copy of the session\<close>

datatype last_push = NotStored | PushSkipped | PushTried bool

definition finalPush :: "os_calls \<Rightarrow> config \<Rightarrow> bool \<Rightarrow> binlog \<Rightarrow> (string \<Rightarrow> s3_result) \<Rightarrow> string option \<times> last_push" where
  "finalPush o1 c sync_disabled f answer =
     (if s3_enabled (cf_s3 c) \<and> sync_disabled then (None, PushSkipped)
      else if s3_enabled (cf_s3 c)
      then (case pushToS3 o1 (cf_s3 c) f answer of (sent, ok) \<Rightarrow> (sent, PushTried ok))
      else (None, NotStored))"

text \<open>C23: a pod that is replaced keeps its session: the file that TDLib left, once its final PUT has succeeded, is the
  one the next start on an empty disk goes on with, byte for byte and readable by the owner only, whatever the
  variable holds; and after a logout nothing is sent.\<close>

theorem cold_start_continues:
  assumes "finalPush o1 c False f answer = (sent, PushTried True)"
    and "os_exists o2" "os_exists o3" "sr_http_status got = 200" "Some (sr_body got) = sent"
    and "prepareSession o2 o3 c got None = Some (Inr f')"
  shows "(\<exists>bytes mode. f = Some (bytes, mode) \<and> bytes \<noteq> [] \<and> f' = Some (bytes, kSecretMode))
    \<and> fst (finalPush o1 c True f answer) = None"
proof -
  have s3: "s3_enabled (cf_s3 c)" using assms(1) by (auto simp: finalPush_def split: if_splits prod.splits)
  then have p: "pushToS3 o1 (cf_s3 c) f answer = (sent, True)"
    using assms(1) by (auto simp: finalPush_def split: prod.splits)
  then obtain bytes mode where f: "f = Some (bytes, mode)" "bytes \<noteq> []" "sent = Some bytes"
    using s3 by (auto simp: pushToS3_def readBinlog_def split: if_splits option.splits)
  have ok: "s3_ok got" using assms(4) by (simp add: s3_ok_def)
  have "file_exists o2 None = False" by (simp add: file_exists_def)
  from assms(6) obtain r f1 r2 where r: "restoreFromS3 o2 (cf_s3 c) got None = Some (r, f1)" "r \<noteq> RestoreError"
      "restoreSession o3 (cf_session_b64 c) f1 = Some (r2, f')" "r2 \<noteq> RestoreError"
    by (auto simp: prepareSession_def split: option.splits if_splits prod.splits)
  have "f1 = Some (bytes, kSecretMode)"
    using restoreFromS3_ok [OF r(1,2)] s3 ok f(3) assms(5) by (simp add: file_exists_def)
  then have "f' = Some (bytes, kSecretMode)"
    using restoreSession_ok [OF r(3,4)] assms(3) by (auto simp: file_exists_def split: if_splits)
  with f s3 show ?thesis by (simp add: finalPush_def)
qed

theorem cold_start_continues_witness:
  "prepareSession (sample_calls [Wrote 2, Interrupted, Wrote 1]) (sample_calls []) stored_config
     \<lparr>sr_http_status = 200, sr_body = ''abc''\<rparr> None = Some (Inr (Some (''abc'', kSecretMode)))"
proof -
  let ?put = "\<lambda>bytes. \<lparr>sr_http_status = 200, sr_body = []\<rparr>"
  let ?got = "\<lparr>sr_http_status = 200, sr_body = ''abc''\<rparr>"
  have p: "finalPush (sample_calls []) stored_config False (Some (''abc'', 420)) ?put = (Some ''abc'', PushTried True)"
    by code_simp
  have s: "prepareSession (sample_calls [Wrote 2, Interrupted, Wrote 1]) (sample_calls []) stored_config ?got None
      = Some (Inr (Some (''abc'', 384)))" by code_simp
  have "os_exists (sample_calls [Wrote 2, Interrupted, Wrote 1])" "os_exists (sample_calls [])"
    by (simp_all add: sample_calls_def)
  from cold_start_continues [OF p this _ _ s] s show ?thesis by auto
qed

end
