(* ===== verification/Process.thy ===== *)
theory Process
  imports Shutdown
begin

text \<open>
  The parts together at the end of the process (\<^verbatim>\<open>src/src/main.cpp\<close>, from \<^verbatim>\<open>run()\<close> to its last line): the main
  thread stops one part after the other while the threads of the others still run. Both event channels are
  taken to be on; without one its steps do not happen. A signal that arrives while the process already ends by
  itself is not modelled, so that no thread but those below resolves requests once \<^verbatim>\<open>bridge.stop()\<close> is over.
\<close>

datatype main_stage =
  Serving | Closing | Stopping | Joined | Resuming | StoppingHooks | HooksStopped | Flushed

record process =
  pr_stage :: main_stage
  pr_bridge :: bridge
  pr_tracker :: tracker
  pr_hooks :: dispatcher
  pr_sink :: kafka_sink
  pr_events :: "payload list"
  pr_published :: "kafka_message list"
  pr_requests :: nat
  pr_waits :: nat

text \<open>The receiver thread runs until \<^verbatim>\<open>bridge.stop()\<close> has joined it. Coroutines run on the event loops, on the
  receiver thread, and, when a request is resolved after the loops have gone, on the thread that resolves it.\<close>

definition receiver_runs :: "main_stage \<Rightarrow> bool" where
  "receiver_runs st \<longleftrightarrow> st = Serving \<or> st = Closing \<or> st = Stopping"

definition coroutines_run :: "main_stage \<Rightarrow> bool" where
  "coroutines_run st \<longleftrightarrow> receiver_runs st \<or> st = Joined \<or> st = Resuming"

definition eventPayload :: "dispatch_env \<Rightarrow> webhook_event \<Rightarrow> payload" where
  "eventPayload v ev = \<lparr>pl_event_id = ev_id ev, pl_body = serializeEvent v ev\<rparr>"

definition process_init :: "nat \<Rightarrow> bool \<Rightarrow> nat \<Rightarrow> process" where
  "process_init mx g km = \<lparr>pr_stage = Serving, pr_bridge = bridge_init 2000 30000 1000, pr_tracker = tracker_init,
     pr_hooks = dispatcher_start (dispatcher_init mx g), pr_sink = kafka_init km, pr_events = [], pr_published = [],
     pr_requests = 0, pr_waits = 0\<rparr>"

text \<open>The dispatcher's own two threads.\<close>

inductive hook_thread :: "dispatch_env \<Rightarrow> dispatcher \<Rightarrow> dispatcher \<Rightarrow> bool" for v where
  take: "dp_worker d = Waiting \<Longrightarrow> dp_stop d \<or> dp_queue d \<noteq> [] \<Longrightarrow> hook_thread v d (worker_take d)"
| snapshot: "dp_worker d = Holding batch \<Longrightarrow> hook_thread v d (worker_snapshot hooks d)"
| post: "dp_worker d = Posting xs \<Longrightarrow> hook_thread v d (worker_post d)"
| run: "loop_alive d \<Longrightarrow> dp_posted d \<noteq> [] \<Longrightarrow> hook_thread v d (loop_run v d)"
| callback: "loop_alive d \<Longrightarrow> 0 < dp_in_flight d \<Longrightarrow> hook_thread v d (http_callback status d)"

definition main_drain :: "bridge \<Rightarrow> bridge" where
  "main_drain b = claimExpired time_max (Rejected, Some (makeError 503 ''UPSTREAM_SHUTDOWN'')) b"

inductive pstep :: "dispatch_env \<Rightarrow> (nat \<Rightarrow> bool) \<Rightarrow> process \<Rightarrow> process \<Rightarrow> bool" for v acc where
  requests: "coroutines_run (pr_stage s) \<Longrightarrow> bstep (pr_bridge s) b \<Longrightarrow> pstep v acc s (s\<lparr>pr_bridge := b\<rparr>)"
| confirmations: "coroutines_run (pr_stage s) \<Longrightarrow> tstep (pr_tracker s) t \<Longrightarrow> pstep v acc s (s\<lparr>pr_tracker := t\<rparr>)"
| event: "coroutines_run (pr_stage s) \<Longrightarrow> pstep v acc s
    (s\<lparr>pr_hooks := WebhookDispatcher.dispatch v ev (pr_hooks s), pr_events := pr_events s @ [eventPayload v ev]\<rparr>)"
| deliver: "hook_thread v (pr_hooks s) d \<Longrightarrow> pstep v acc s (s\<lparr>pr_hooks := d\<rparr>)"
| publish: "receiver_runs (pr_stage s) \<Longrightarrow> pstep v acc s
    (s\<lparr>pr_sink := kafka_produce m (pr_sink s), pr_published := pr_published s @ [m]\<rparr>)"
| produce: "\<not> ks_exited (pr_sink s) \<Longrightarrow> pstep v acc s (s\<lparr>pr_sink := kafka_turn acc (pr_sink s)\<rparr>)"
| quit: "pr_stage s = Serving \<Longrightarrow> pstep v acc s (s\<lparr>pr_stage := Closing\<rparr>)"
| stop_bridge: "pr_stage s = Closing \<Longrightarrow> pstep v acc s
    (s\<lparr>pr_stage := Stopping, pr_bridge := main_drain (pr_bridge s), pr_requests := length (slots (b_once (pr_bridge s)))\<rparr>)"
| join_receiver: "pr_stage s = Stopping \<Longrightarrow> claimed (b_once (pr_bridge s)) = [] \<Longrightarrow> pstep v acc s (s\<lparr>pr_stage := Joined\<rparr>)"
| drain_tracker: "pr_stage s = Joined \<Longrightarrow> pstep v acc s
    (s\<lparr>pr_stage := Resuming, pr_tracker := drain_claim (pr_tracker s), pr_waits := length (slots (t_once (pr_tracker s)))\<rparr>)"
| stop_hooks: "pr_stage s = Resuming \<Longrightarrow> claimed (b_once (pr_bridge s)) = [] \<Longrightarrow> claimed (t_once (pr_tracker s)) = [] \<Longrightarrow>
    pstep v acc s (s\<lparr>pr_stage := StoppingHooks, pr_hooks := stop_begin (pr_hooks s)\<rparr>)"
| hooks_stopped: "pr_stage s = StoppingHooks \<Longrightarrow> dp_worker (pr_hooks s) = WorkerDone \<Longrightarrow>
    \<not> responsive \<or> dp_posted (pr_hooks s) = [] \<Longrightarrow>
    pstep v acc s (s\<lparr>pr_stage := HooksStopped, pr_hooks := stop_decide responsive (pr_hooks s)\<rparr>)"
| flush: "pr_stage s = HooksStopped \<Longrightarrow> pstep v acc s
    (s\<lparr>pr_stage := Flushed, pr_sink := kafka_flush acc (pr_sink s)\<rparr>)"

inductive preach :: "dispatch_env \<Rightarrow> (nat \<Rightarrow> bool) \<Rightarrow> nat \<Rightarrow> bool \<Rightarrow> nat \<Rightarrow> process \<Rightarrow> bool" for v acc mx g km where
  boot: "preach v acc mx g km (process_init mx g km)"
| step: "preach v acc mx g km s \<Longrightarrow> pstep v acc s s' \<Longrightarrow> preach v acc mx g km s'"

section \<open>What the parts contribute\<close>

lemma hook_thread_step: "hook_thread v d d' \<Longrightarrow> dstep v d d'"
  by (induction rule: hook_thread.induct) (auto intro: dstep.intros)

lemma loop_run_frame:
  "dp_started (loop_run v d) = dp_started d" "dp_stop (loop_run v d) = dp_stop d"
  "dp_accepted (loop_run v d) = dp_accepted d" "dp_dropped (loop_run v d) = dp_dropped d"
  "dp_stopping (loop_run v d) = dp_stopping d" "dp_worker (loop_run v d) = dp_worker d"
  by (simp_all add: loop_run_def Let_def split: list.split option.split)

lemma hook_thread_frame:
  "hook_thread v d d' \<Longrightarrow> dp_started d' = dp_started d \<and> dp_stop d' = dp_stop d \<and> dp_accepted d' = dp_accepted d
     \<and> dp_dropped d' = dp_dropped d \<and> dp_stopping d' = dp_stopping d
     \<and> (dp_worker d = WorkerDone \<longrightarrow> dp_worker d' = WorkerDone)"
proof (induction rule: hook_thread.induct)
  case (post d xs)
  then show ?case by (cases xs) (simp_all add: worker_post_def)
qed (auto simp: worker_take_def swap_queue_def worker_snapshot_def loop_run_frame http_callback_def Let_def
    split: option.split)

lemma claim_grows: "set (table (once_claim k r c)) \<subseteq> set (table c) \<and> slots (once_claim k r c) = slots c"
  by (auto simp: once_claim_def split: option.split)

lemma resolve_grows: "table (once_resolve lr e c) = table c \<and> length (slots (once_resolve lr e c)) = length (slots c)"
  by (simp add: once_resolve_def Let_def)

lemma resume_grows: "table (once_resume i c) = table c \<and> slots (once_resume i c) = slots c"
  by (simp add: once_resume_def split: option.split)

text \<open>A step leaves in the table what was there, and a new waiter at most.\<close>

lemma bstep_table:
  "bstep b b' \<Longrightarrow> length (slots (b_once b)) \<le> length (slots (b_once b'))
     \<and> (\<forall>e \<in> set (table (b_once b')). e \<in> set (table (b_once b)) \<or> snd e = length (slots (b_once b)))"
proof (induction rule: bstep.induct)
  case (step_suspend b now fn)
  show ?case
    by (auto simp: await_suspend_def Let_def corr_tryInsert_def once_reject_def split: if_splits)
next
  case (step_receive b rid ob)
  show ?case using claim_grows [of rid "(Fulfilled, Some ob)" "b_once b"] by (auto simp: dispatch_claim_def)
next
  case (step_resolve e b lr)
  show ?case by (simp add: resolve_def resolve_grows)
next
  case (step_resume i b)
  show ?case by (simp add: resume_grows)
qed (auto simp: send_registered_def sendOneWay_def Let_def claimExpired_def once_claim_all_def)

lemma tstep_table:
  "tstep t t' \<Longrightarrow> length (slots (t_once t)) \<le> length (slots (t_once t'))
     \<and> (\<forall>e \<in> set (table (t_once t')). e \<in> set (table (t_once t)) \<or> snd e = length (slots (t_once t)))"
proof (induction rule: tstep.induct)
  case (t_suspend t mid)
  show ?case by (auto simp: track_suspend_def Let_def track_tryInsert_def once_reject_def split: if_splits)
next
  case (t_timer mid t)
  show ?case using claim_grows [of mid None "t_once t"] by (auto simp: timer_claim_def)
next
  case (t_outcome t mid out)
  show ?case using claim_grows [of mid "Some out" "t_once t"] by (auto simp: outcome_claim_def)
next
  case (t_resolve e t lr)
  show ?case by (simp add: track_resolve_def resolve_grows)
next
  case (t_resume i t)
  show ?case by (simp add: resume_grows)
qed (auto simp: drain_claim_def once_claim_all_def)

lemma kept_subseq: "subseq (kept cap n ops) (offered ops)"
  by (induction ops arbitrary: n rule: offered.induct) (auto intro: subseq_Cons')

section \<open>The invariants\<close>

definition hooks_open :: "main_stage \<Rightarrow> bool" where
  "hooks_open st \<longleftrightarrow> st \<noteq> StoppingHooks \<and> st \<noteq> HooksStopped \<and> st \<noteq> Flushed"

definition bridge_stopped :: "main_stage \<Rightarrow> bool" where
  "bridge_stopped st \<longleftrightarrow> st \<noteq> Serving \<and> st \<noteq> Closing"

definition tracker_stopped :: "main_stage \<Rightarrow> bool" where
  "tracker_stopped st \<longleftrightarrow> bridge_stopped st \<and> st \<noteq> Stopping \<and> st \<noteq> Joined"

lemmas stage_defs = hooks_open_def bridge_stopped_def tracker_stopped_def coroutines_run_def receiver_runs_def

definition parts_inv :: "dispatch_env \<Rightarrow> nat \<Rightarrow> bool \<Rightarrow> process \<Rightarrow> bool" where
  "parts_inv v mx g s \<longleftrightarrow> bridge_reachable (pr_bridge s) \<and> tracker_reachable (pr_tracker s) \<and> dreach v mx g (pr_hooks s)
     \<and> dp_started (pr_hooks s) \<and> (hooks_open (pr_stage s) \<longrightarrow> \<not> dp_stop (pr_hooks s))
     \<and> (pr_stage s = StoppingHooks \<longrightarrow> dp_stopping (pr_hooks s))
     \<and> (pr_stage s = HooksStopped \<or> pr_stage s = Flushed \<longrightarrow> dp_worker (pr_hooks s) = WorkerDone)"

lemma drain_step: "bstep b (main_drain b)"
  unfolding main_drain_def by (rule step_drain)

lemma coroutines_open: "coroutines_run st \<Longrightarrow> hooks_open st"
  by (auto simp: stage_defs)

lemma dispatch_kept:
  "dp_started (WebhookDispatcher.dispatch v ev d) = dp_started d" "dp_stop (WebhookDispatcher.dispatch v ev d) = dp_stop d"
  "dp_stopping (WebhookDispatcher.dispatch v ev d) = dp_stopping d" "dp_worker (WebhookDispatcher.dispatch v ev d) = dp_worker d"
  by (simp_all add: WebhookDispatcher.dispatch_def dispatch_payload_def)

lemma parts_step: "pstep v acc s s' \<Longrightarrow> parts_inv v mx g s \<Longrightarrow> parts_inv v mx g s'"
proof (induction rule: pstep.induct)
  case (requests s b)
  then show ?case by (auto simp: parts_inv_def intro: reach_step)
next
  case (confirmations s t)
  then show ?case by (auto simp: parts_inv_def intro: t_step)
next
  case (event s ev)
  then show ?case using coroutines_open [OF event(1)]
    by (auto simp: parts_inv_def dispatch_kept intro: dreach.step dstep.dispatch)
next
  case (deliver s d)
  then have "dreach v mx g d" by (auto simp: parts_inv_def intro: dreach.step hook_thread_step)
  with deliver hook_thread_frame [OF deliver(1)] show ?case by (simp add: parts_inv_def)
next
  case (stop_bridge s)
  then have "bridge_reachable (main_drain (pr_bridge s))" by (auto simp: parts_inv_def intro: reach_step drain_step)
  with stop_bridge show ?case by (simp add: parts_inv_def stage_defs)
next
  case (drain_tracker s)
  then have "tracker_reachable (drain_claim (pr_tracker s))" by (auto simp: parts_inv_def intro: t_step t_drain)
  with drain_tracker show ?case by (simp add: parts_inv_def stage_defs)
next
  case (stop_hooks s)
  then have "dreach v mx g (stop_begin (pr_hooks s))" by (auto simp: parts_inv_def intro: dreach.step dstep.stop)
  with stop_hooks show ?case by (simp add: parts_inv_def stage_defs stop_begin_def)
next
  case (hooks_stopped s responsive)
  then have "dreach v mx g (stop_decide responsive (pr_hooks s))"
    by (auto simp: parts_inv_def intro: dreach.step dstep.decide)
  with hooks_stopped show ?case by (simp add: parts_inv_def stage_defs stop_decide_def)
qed (simp_all add: parts_inv_def stage_defs)

lemma parts_reach: "preach v acc mx g km s \<Longrightarrow> parts_inv v mx g s"
proof (induction rule: preach.induct)
  case boot
  have "dreach v mx g (dispatcher_start (dispatcher_init mx g))"
    by (rule dreach.step [OF dreach.init dstep.start]) (simp add: dispatcher_init_def)
  then show ?case
    by (simp add: parts_inv_def process_init_def reach_init t_init dispatcher_start_def dispatcher_init_def)
qed (rule parts_step)

text \<open>Every call of \<^verbatim>\<open>dispatch\<close> finds the dispatcher running.\<close>

definition events_inv :: "process \<Rightarrow> bool" where
  "events_inv s \<longleftrightarrow> subseq (dp_accepted (pr_hooks s)) (pr_events s)
     \<and> of_nat (length (pr_events s)) = of_nat (length (dp_accepted (pr_hooks s))) + dp_dropped (pr_hooks s)"

lemma stop_frame:
  "dp_accepted (stop_begin d) = dp_accepted d" "dp_dropped (stop_begin d) = dp_dropped d"
  "dp_accepted (stop_decide r d) = dp_accepted d" "dp_dropped (stop_decide r d) = dp_dropped d"
  by (simp_all add: stop_begin_def stop_decide_def)

lemma events_step: "pstep v acc s s' \<Longrightarrow> parts_inv v mx g s \<Longrightarrow> events_inv s \<Longrightarrow> events_inv s'"
proof (induction rule: pstep.induct)
  case (event s ev)
  then have "dp_started (pr_hooks s) \<and> \<not> dp_stop (pr_hooks s)" using coroutines_open by (simp add: parts_inv_def)
  moreover have "subseq (dp_accepted (pr_hooks s) @ [p]) (pr_events s @ [p])" "subseq (dp_accepted (pr_hooks s)) (pr_events s @ [p])"
    for p
    using event(3) by (auto simp: events_inv_def intro: list_emb_append_mono subseq_rev_drop_many)
  ultimately show ?case
    using event(3) by (simp add: events_inv_def WebhookDispatcher.dispatch_def dispatch_payload_def eventPayload_def)
next
  case (deliver s d)
  then show ?case using hook_thread_frame [OF deliver(1)] by (simp add: events_inv_def)
qed (simp_all add: events_inv_def stop_frame)

lemma events_reach: "preach v acc mx g km s \<Longrightarrow> events_inv s"
proof (induction rule: preach.induct)
  case boot
  show ?case by (simp add: events_inv_def process_init_def dispatcher_start_def dispatcher_init_def)
next
  case (step s s')
  then show ?case using events_step parts_reach by blast
qed

definition sink_inv :: "(nat \<Rightarrow> bool) \<Rightarrow> nat \<Rightarrow> process \<Rightarrow> bool" where
  "sink_inv acc km s \<longleftrightarrow> (\<exists>ops. offered ops = pr_published s
     \<and> pr_sink s = (if pr_stage s = Flushed then kafka_flush acc (kafka_run acc ops (kafka_init km))
                    else kafka_run acc ops (kafka_init km)))"

lemma offered_append: "offered (xs @ ys) = offered xs @ offered ys"
  by (induction xs rule: offered.induct) simp_all

lemma kafka_run_snoc: "kafka_run acc (ops @ [op]) s = kafka_op acc op (kafka_run acc ops s)"
  by (simp add: kafka_run_def)

lemma sink_grows:
  assumes "sink_inv acc km s" "pr_stage s \<noteq> Flushed" "pr_stage s' = pr_stage s"
    and "pr_sink s' = kafka_op acc op (pr_sink s)" "pr_published s' = pr_published s @ offered [op]"
  shows "sink_inv acc km s'"
proof -
  obtain ops where "offered ops = pr_published s" "pr_sink s = kafka_run acc ops (kafka_init km)"
    using assms(1,2) by (auto simp: sink_inv_def)
  with assms(2-5) show ?thesis
    unfolding sink_inv_def by (intro exI [of _ "ops @ [op]"]) (simp add: offered_append kafka_run_snoc)
qed

lemma sink_step: "pstep v acc s s' \<Longrightarrow> sink_inv acc km s \<Longrightarrow> sink_inv acc km s'"
proof (induction rule: pstep.induct)
  case (publish s m)
  have "pr_stage s \<noteq> Flushed" using publish(1) by (auto simp: receiver_runs_def)
  from sink_grows [OF publish(2) this, of _ "Offer m"] show ?case by simp
next
  case (produce s)
  have "pr_stage s \<noteq> Flushed"
  proof
    assume "pr_stage s = Flushed"
    with produce(2) obtain ops where o: "pr_sink s = kafka_flush acc (kafka_run acc ops (kafka_init km))"
      unfolding sink_inv_def by auto
    have "ks_exited (kafka_flush acc (kafka_run acc ops (kafka_init km)))" using kafka_flush_accounts by blast
    with produce(1) o show False by simp
  qed
  from sink_grows [OF produce(2) this, of _ TakeAll] show ?case by simp
next
  case (flush s)
  then show ?case by (auto simp: sink_inv_def)
qed (auto simp: sink_inv_def)

lemma sink_reach: "preach v acc mx g km s \<Longrightarrow> sink_inv acc km s"
proof (induction rule: preach.induct)
  case boot
  show ?case by (auto simp: sink_inv_def process_init_def kafka_run_def intro!: exI [of _ "[]"])
qed (rule sink_step)

text \<open>What was asked before a drain is not in the table after it, nor ever again.\<close>

definition drained_below :: "nat \<Rightarrow> ('k, 'r) once \<Rightarrow> bool" where
  "drained_below n c \<longleftrightarrow> n \<le> length (slots c) \<and> (\<forall>e \<in> set (table c). n \<le> snd e)"

definition tables_inv :: "process \<Rightarrow> bool" where
  "tables_inv s \<longleftrightarrow>
     (bridge_stopped (pr_stage s) \<longrightarrow> drained_below (pr_requests s) (b_once (pr_bridge s)))
     \<and> (tracker_stopped (pr_stage s) \<longrightarrow> drained_below (pr_waits s) (t_once (pr_tracker s)))
     \<and> (\<not> hooks_open (pr_stage s) \<longrightarrow> claimed (b_once (pr_bridge s)) = [] \<and> claimed (t_once (pr_tracker s)) = [])"

lemma drained_bstep: "bstep b b' \<Longrightarrow> drained_below n (b_once b) \<Longrightarrow> drained_below n (b_once b')"
  using bstep_table [of b b'] by (fastforce simp: drained_below_def)

lemma drained_tstep: "tstep t t' \<Longrightarrow> drained_below n (t_once t) \<Longrightarrow> drained_below n (t_once t')"
  using tstep_table [of t t'] by (fastforce simp: drained_below_def)

lemma main_drain_table:
  assumes "bridge_reachable b"
  shows "drained_below (length (slots (b_once b))) (b_once (main_drain b))"
proof -
  have "bridge_inv b" using assms by (rule reachable_inv)
  then have "\<forall>e \<in> set (table (b_once b)). b_deadlines b ! snd e \<le> time_max"
    by (auto simp: bridge_inv_def ids_inv_def)
  then show ?thesis
    by (auto simp: drained_below_def main_drain_def claimExpired_def once_claim_all_def)
qed

lemma tables_step: "pstep v acc s s' \<Longrightarrow> parts_inv v mx g s \<Longrightarrow> tables_inv s \<Longrightarrow> tables_inv s'"
proof (induction rule: pstep.induct)
  case (requests s b)
  then show ?case using drained_bstep [OF requests(2)] coroutines_open by (auto simp: tables_inv_def)
next
  case (confirmations s t)
  then show ?case using drained_tstep [OF confirmations(2)] coroutines_open by (auto simp: tables_inv_def)
next
  case (stop_bridge s)
  then have "drained_below (length (slots (b_once (pr_bridge s)))) (b_once (main_drain (pr_bridge s)))"
    by (auto simp: parts_inv_def intro: main_drain_table)
  then show ?case by (simp add: tables_inv_def stage_defs)
next
  case (join_receiver s)
  then show ?case by (simp add: tables_inv_def stage_defs)
next
  case (drain_tracker s)
  then show ?case by (simp add: tables_inv_def stage_defs drained_below_def drain_claim_def once_claim_all_def)
next
  case (stop_hooks s)
  then show ?case by (simp add: tables_inv_def stage_defs)
next
  case (hooks_stopped s responsive)
  then show ?case by (simp add: tables_inv_def stage_defs)
qed (simp_all add: tables_inv_def stage_defs)

lemma tables_reach: "preach v acc mx g km s \<Longrightarrow> tables_inv s"
proof (induction rule: preach.induct)
  case boot
  show ?case by (simp add: tables_inv_def process_init_def stage_defs)
next
  case (step s s')
  then show ?case using tables_step parts_reach by blast
qed

lemma drained_answered:
  assumes "once_inv c" "drained_below n c" "claimed c = []" "i < n"
  shows "i \<in> set (queued c) \<or> i \<in> fst ` set (resumed c)"
proof -
  have "i \<in># places c" using assms(1,2,4) by (simp add: once_inv_def drained_below_def)
  moreover have "i \<notin> snd ` set (table c)" using assms(2,4) by (auto simp: drained_below_def)
  ultimately show ?thesis using assms(3) by (auto simp: places_def)
qed

section \<open>What the order of the shutdown achieves\<close>

text \<open>C8: the order in which the process stops its parts loses no event, whatever the threads do meanwhile: no call of
  \<^verbatim>\<open>dispatch\<close> ever finds the dispatcher stopped, so every webhook event was accepted, in order, or counted as
  dropped; at the end the dispatcher's worker has gone with an empty queue, the Kafka worker with an empty
  queue, librdkafka was called for every update that found room, in order, and the rest is counted; and every
  request to TDLib and every wait for a confirmation that was there when its part was drained has been
  resolved: its coroutine went on, or was handed to an event loop.\<close>

theorem shutdown_loses_nothing:
  assumes "preach v acc mx g km s"
  shows "subseq (dp_accepted (pr_hooks s)) (pr_events s)
    \<and> of_nat (length (pr_events s)) = of_nat (length (dp_accepted (pr_hooks s))) + dp_dropped (pr_hooks s)
    \<and> (pr_stage s = Flushed \<longrightarrow>
        dp_worker (pr_hooks s) = WorkerDone \<and> dp_queue (pr_hooks s) = []
        \<and> ks_exited (pr_sink s) \<and> ks_queue (pr_sink s) = [] \<and> subseq (map fst (ks_log (pr_sink s))) (pr_published s)
        \<and> ks_dropped (pr_sink s) = of_nat (length (pr_published s) - length (ks_log (pr_sink s)) + rejected (pr_sink s))
        \<and> (\<forall>i < pr_requests s. i \<in> set (queued (b_once (pr_bridge s))) \<or> i \<in> fst ` set (resumed (b_once (pr_bridge s))))
        \<and> (\<forall>i < pr_waits s. i \<in> set (queued (t_once (pr_tracker s))) \<or> i \<in> fst ` set (resumed (t_once (pr_tracker s)))))"
proof (intro conjI impI)
  have ev: "events_inv s" and p: "parts_inv v mx g s" and t: "tables_inv s" and k: "sink_inv acc km s"
    using assms by (simp_all add: events_reach parts_reach [OF assms] tables_reach sink_reach [OF assms])
  show "subseq (dp_accepted (pr_hooks s)) (pr_events s)"
    "of_nat (length (pr_events s)) = of_nat (length (dp_accepted (pr_hooks s))) + dp_dropped (pr_hooks s)"
    using ev by (simp_all add: events_inv_def)
  assume fl: "pr_stage s = Flushed"
  then show w: "dp_worker (pr_hooks s) = WorkerDone" using p by (simp add: parts_inv_def)
  have "threads_inv (pr_hooks s)" using p dreach_inv by (auto simp: parts_inv_def)
  with w show "dp_queue (pr_hooks s) = []" by (auto simp: threads_inv_def phase_defs)
  obtain ops where o: "offered ops = pr_published s" "pr_sink s = kafka_flush acc (kafka_run acc ops (kafka_init km))"
    using k fl by (auto simp: sink_inv_def)
  note fa = kafka_flush_accounts [of acc ops km, folded o(2)]
  show "ks_exited (pr_sink s)" "ks_queue (pr_sink s) = []" using fa by blast+
  show "subseq (map fst (ks_log (pr_sink s))) (pr_published s)"
    using fa kept_subseq [of km 0 ops] o(1) by simp
  have "length (ks_log (pr_sink s)) = length (kept km 0 ops)" using fa by (metis length_map)
  then show "ks_dropped (pr_sink s) = of_nat (length (pr_published s) - length (ks_log (pr_sink s)) + rejected (pr_sink s))"
    using fa o(1) by simp
  have bi: "once_inv (b_once (pr_bridge s))" and ti: "once_inv (t_once (pr_tracker s))"
    using p reachable_inv tracker_invD(1) [OF tracker_reachable_inv] by (auto simp: parts_inv_def bridge_inv_def)
  have dr: "drained_below (pr_requests s) (b_once (pr_bridge s))" "drained_below (pr_waits s) (t_once (pr_tracker s))"
      "claimed (b_once (pr_bridge s)) = []" "claimed (t_once (pr_tracker s)) = []"
    using t fl by (simp_all add: tables_inv_def stage_defs)
  show "\<forall>i < pr_requests s. i \<in> set (queued (b_once (pr_bridge s))) \<or> i \<in> fst ` set (resumed (b_once (pr_bridge s)))"
    using drained_answered [OF bi dr(1,3)] by blast
  show "\<forall>i < pr_waits s. i \<in> set (queued (t_once (pr_tracker s))) \<or> i \<in> fst ` set (resumed (t_once (pr_tracker s)))"
    using drained_answered [OF ti dr(2,4)] by blast
qed

section \<open>What it does not achieve\<close>

text \<open>The state right after the drain of a process that nobody used.\<close>

definition drained_process :: "nat \<Rightarrow> bool \<Rightarrow> nat \<Rightarrow> process" where
  "drained_process mx g km =
     (process_init mx g km)\<lparr>pr_stage := Stopping, pr_bridge := main_drain (bridge_init 2000 30000 1000), pr_requests := 0\<rparr>"

lemma drained_reach: "preach v acc mx g km (drained_process mx g km)"
proof -
  let ?i = "process_init mx g km"
  have "preach v acc mx g km (?i\<lparr>pr_stage := Closing\<rparr>)"
    by (rule preach.step [OF preach.boot pstep.quit]) (simp add: process_init_def)
  from preach.step [OF this pstep.stop_bridge] show ?thesis
    by (simp add: drained_process_def process_init_def bridge_init_def once_empty_def)
qed

text \<open>The rest of the shutdown, for a bridge on which nothing is left to resolve.\<close>

lemma finish_reach:
  assumes "preach v acc mx g km s" "s = (drained_process mx g km)\<lparr>pr_bridge := b\<rparr>" "claimed (b_once b) = []"
  shows "\<exists>s'. preach v acc mx g km s' \<and> pr_stage s' = Flushed \<and> pr_bridge s' = b"
proof -
  let ?t = "drain_claim tracker_init"
  let ?d = "stop_begin (dispatcher_start (dispatcher_init mx g))"
  have c: "claimed (t_once ?t) = []" by (simp add: drain_claim_def tracker_init_def once_claim_all_def once_empty_def)
  have "preach v acc mx g km (s\<lparr>pr_stage := Joined\<rparr>)"
    by (rule preach.step [OF assms(1) pstep.join_receiver]) (simp_all add: assms(2,3) drained_process_def)
  from preach.step [OF this pstep.drain_tracker]
  have "preach v acc mx g km (s\<lparr>pr_stage := Resuming, pr_tracker := ?t, pr_waits := 0\<rparr>)"
    by (simp add: assms(2) drained_process_def process_init_def tracker_init_def once_empty_def)
  from preach.step [OF this pstep.stop_hooks]
  have s1: "preach v acc mx g km (s\<lparr>pr_stage := StoppingHooks, pr_tracker := ?t, pr_waits := 0, pr_hooks := ?d\<rparr>)"
    (is "preach v acc mx g km ?s1") using assms(3) c by (simp add: assms(2) drained_process_def process_init_def)
  have "hook_thread v ?d (worker_take ?d)"
    by (rule hook_thread.take) (simp_all add: stop_begin_def dispatcher_start_def dispatcher_init_def)
  from preach.step [OF s1 pstep.deliver] this
  have s2: "preach v acc mx g km (?s1\<lparr>pr_hooks := worker_take ?d\<rparr>)" (is "preach v acc mx g km ?s2") by simp
  have "pstep v acc ?s2 (?s2\<lparr>pr_stage := HooksStopped, pr_hooks := stop_decide True (pr_hooks ?s2)\<rparr>)"
    by (rule pstep.hooks_stopped)
      (simp_all add: worker_take_def swap_queue_def stop_begin_def dispatcher_start_def dispatcher_init_def)
  from preach.step [OF s2 this] obtain s3 where s3: "preach v acc mx g km s3" "pr_stage s3 = HooksStopped" "pr_bridge s3 = b"
    by (auto simp: assms(2))
  from preach.step [OF s3(1) pstep.flush [OF s3(2)]] s3(3) show ?thesis
    by (intro exI [of _ "s3\<lparr>pr_stage := Flushed, pr_sink := kafka_flush acc (pr_sink s3)\<rparr>"]) simp
qed

text \<open>a request that comes after the drain is never answered: the receiver thread, while it is being joined, or a
  coroutine that the drain itself resumed, can still ask TDLib, and such a request is in the table when the
  process ends, so its coroutine never goes on.\<close>

theorem late_request_unanswered:
  "\<exists>s. preach v acc mx g km s \<and> pr_stage s = Flushed
     \<and> (\<exists>rid i. (rid, i) \<in> set (table (b_once (pr_bridge s))) \<and> i \<notin> set (queued (b_once (pr_bridge s)))
        \<and> i \<notin> fst ` set (resumed (b_once (pr_bridge s))))"
proof -
  let ?drained = "main_drain (bridge_init 2000 30000 1000)"
  let ?b = "await_suspend 0 GetMe ?drained"
  have e: "b_once ?b = once_insert 1 once_empty"
    by (simp add: await_suspend_def main_drain_def bridge_init_def claimExpired_def once_claim_all_def once_empty_def
        corr_tryInsert_def next_id_def once_insert_def Let_def)
  have "bstep ?drained ?b"
    by (rule step_suspend) (simp_all add: main_drain_def claimExpired_def bridge_init_def time_max_def)
  then have "pstep v acc (drained_process mx g km) ((drained_process mx g km)\<lparr>pr_bridge := ?b\<rparr>)"
    by (intro pstep.requests) (simp_all add: drained_process_def stage_defs)
  from finish_reach [OF preach.step [OF drained_reach this] refl]
  obtain s where "preach v acc mx g km s" "pr_stage s = Flushed" "pr_bridge s = ?b"
    using e by (auto simp: once_insert_def once_empty_def)
  then show ?thesis using e by (intro exI [of _ s]) (auto simp: once_insert_def once_empty_def)
qed

theorem shutdown_loses_nothing_witness:
  "\<exists>s :: process. pr_stage s = Flushed \<and> ks_queue (pr_sink s) = [] \<and> dp_worker (pr_hooks s) = WorkerDone"
proof -
  have "claimed (b_once (main_drain (bridge_init 2000 30000 1000))) = []"
    by (simp add: main_drain_def claimExpired_def bridge_init_def once_claim_all_def once_empty_def)
  from finish_reach [where v = sample_dispatch_env and acc = "\<lambda>_. True" and mx = 1 and g = True and km = 1,
      OF drained_reach _ this]
  obtain s where s: "preach sample_dispatch_env (\<lambda>_. True) 1 True 1 s" "pr_stage s = Flushed"
    by (auto simp: drained_process_def)
  from shutdown_loses_nothing [OF s(1)] s(2) show ?thesis by (intro exI [of _ s]) simp
qed

end
