(* ===== verification/WebhookStore.thy ===== *)
theory WebhookStore
  imports WebhookRegistry SessionStore
begin

text \<open>
  \<^verbatim>\<open>S3WebhookStore\<close> of \<^verbatim>\<open>src/src/webhook/webhook_registry.cpp\<close>, the store the process gives its registry of
  receivers, and the registry over several lives of the process: each begins with one GET of the object, and
  each change that is saved replaces the object. What S3 answers is a parameter of every life.
\<close>

section \<open>The store\<close>

definition s3_load :: "s3_result \<Rightarrow> string option" where
  "s3_load got =
     (if s3_not_found got then None
      else if \<not> s3_ok got then None
      else Some (sr_body got))"

definition s3_save :: "s3_result \<Rightarrow> bool" where
  "s3_save r = s3_ok r"

definition s3_isAsync :: bool where
  "s3_isAsync = True"

definition makeS3WebhookStore :: "(string \<Rightarrow> string) \<Rightarrow> (json \<Rightarrow> string) \<Rightarrow> registry_env" where
  "makeS3WebhookStore sha256Hex writer = \<lparr>re_sha256Hex = sha256Hex, re_writer = writer, re_isAsync = s3_isAsync\<rparr>"

section \<open>The lives of the process\<close>

text \<open>A start: an empty registry, filled by \<^verbatim>\<open>loadFromStore\<close>. A save of an earlier life that had not ended is lost.\<close>

definition registry_start :: "(string \<Rightarrow> json option) \<Rightarrow> s3_result \<Rightarrow> string option \<Rightarrow> registry" where
  "registry_start reader got object =
     \<lparr>wr_hooks = loadFromStore reader (s3_load got), wr_store = object, wr_pending = []\<rparr>"

fun lives ::
  "registry_env \<Rightarrow> (string \<Rightarrow> json option) \<Rightarrow> (s3_result \<times> registry_op list) list \<Rightarrow> registry \<Rightarrow> registry" where
  "lives v reader [] r = r"
| "lives v reader ((got, ops) # rest) r =
     lives v reader rest (registry_run v ops (registry_start reader got (wr_store r)))"

text \<open>What S3 documents of a GET that reaches it: the object if there is one, 404 if there is none.\<close>

definition served_by_s3 :: "s3_result \<Rightarrow> string option \<Rightarrow> bool" where
  "served_by_s3 got object = (case object of
     None \<Rightarrow> s3_not_found got
   | Some body \<Rightarrow> s3_ok got \<and> sr_body got = body)"

text \<open>A life without trouble: its GET is served, its saves succeed in their order and have ended when it ends.\<close>

fun calm ::
  "registry_env \<Rightarrow> (string \<Rightarrow> json option) \<Rightarrow> (s3_result \<times> registry_op list) list \<Rightarrow> registry \<Rightarrow> bool" where
  "calm v reader [] r = True"
| "calm v reader ((got, ops) # rest) r =
     (let r' = registry_run v ops (registry_start reader got (wr_store r))
      in served_by_s3 got (wr_store r) \<and> list_all orderly ops \<and> wr_pending r' = [] \<and> calm v reader rest r')"

lemma load_served: "served_by_s3 got object \<Longrightarrow> s3_load got = object"
  by (auto simp: served_by_s3_def s3_load_def s3_ok_def s3_not_found_def split: option.splits)

lemma start_continues:
  assumes "served_by_s3 got (wr_store r)" "wr_pending r = []" "stored_inv reader writer r"
  shows "registry_start reader got (wr_store r) = (r :: registry)"
  using assms load_served [OF assms(1)] by (simp add: registry_start_def stored_inv_def)

lemma registry_run_append: "registry_run v (xs @ ys) r = registry_run v ys (registry_run v xs r)"
  by (simp add: registry_run_def)

lemma sync_ok_done: "wr_pending r = [] \<Longrightarrow> sync_ok v r"
  by (simp add: sync_ok_def)

lemma lives_continue:
  assumes "reads_back reader (re_writer v)" "hex_digests (re_sha256Hex v)"
  shows "calm v reader ls r \<Longrightarrow> list_all text_op (concat (map snd ls)) \<Longrightarrow> wr_pending r = [] \<Longrightarrow> stored_inv reader (re_writer v) r \<Longrightarrow>
    lives v reader ls r = registry_run v (concat (map snd ls)) r"
proof (induction ls arbitrary: r)
  case Nil
  then show ?case by (simp add: registry_run_def)
next
  case (Cons l ls)
  obtain got ops where l: "l = (got, ops)" by (cases l)
  from Cons.prems have served: "served_by_s3 got (wr_store r)" by (simp add: l Let_def)
  have start: "registry_start reader got (wr_store r) = r"
    by (rule start_continues [OF served Cons.prems(3,4)])
  have tops: "list_all text_op ops" "list_all text_op (concat (map snd ls))" using Cons.prems(2) by (simp_all add: l)
  from Cons.prems(1) have life: "list_all orderly ops" "wr_pending (registry_run v ops r) = []" "calm v reader ls (registry_run v ops r)"
    by (simp_all add: l Let_def start)
  have "stored_inv reader (re_writer v) (registry_run v ops r)"
    using stored_run [OF assms Cons.prems(4) sync_ok_done [OF Cons.prems(3)] life(1) tops(1)] .
  from Cons.IH [OF life(3) tops(2) life(2) this] show ?case by (simp add: l start registry_run_append)
qed


text \<open>A start during an outage of S3 takes \<^verbatim>\<open>no answer\<close> for \<^verbatim>\<open>no object\<close>: the registry is empty, nothing is delivered to
  the receivers the object still lists, and the first registration that is saved replaces the object, so that they
  are gone for every later start too.\<close>

theorem outage_forgets:
  assumes "reads_back reader writer" "hex_digests sha256Hex" "utf8_text url" "utf8_text secret"
    and "\<not> s3_ok got" "s3_save put_result"
    and "v = makeS3WebhookStore sha256Hex writer" "r0 = registry_start reader got object"
    and "r1 = registry_run v [OpAdd url secret active True, OpSaveEnds 0 (s3_save put_result)] r0"
    and "served_by_s3 later (wr_store r1)"
  shows "wr_hooks r0 = [] \<and> wr_store r0 = object
    \<and> wr_hooks (registry_start reader later (wr_store r1)) =
        [\<lparr>wh_id = hookId sha256Hex url, wh_url = url, wh_secret = secret, wh_active = active\<rparr>]"
proof -
  let ?h = "\<lparr>wh_id = hookId sha256Hex url, wh_url = url, wh_secret = secret, wh_active = active\<rparr>"
  have empty: "wr_hooks r0 = []" "wr_store r0 = object" "wr_pending r0 = []"
    using assms(5) by (simp_all add: assms(8) registry_start_def s3_load_def loadFromStore_def)
  then have r1: "wr_store r1 = Some (serializeHooks writer [?h])"
    using assms(6) by (simp add: assms(7,9) registry_run_def registry_add_def Let_def persist_def save_ends_def
        makeS3WebhookStore_def s3_isAsync_def)
  have "text_hook ?h" using hookId_text [OF assms(2)] assms(3,4) by (simp add: text_hook_def)
  then have "loadFromStore reader (wr_store r1) = [?h]"
    unfolding r1 by (intro load_serialized [OF assms(1)]) simp
  with empty load_served [OF assms(10)] show ?thesis by (simp add: registry_start_def)
qed

section \<open>Instances\<close>

definition answer :: "nat \<Rightarrow> string \<Rightarrow> s3_result" where
  "answer n body = \<lparr>sr_http_status = n, sr_body = body\<rparr>"

lemma answer_served: "served_by_s3 (answer 200 body) (Some body)" "served_by_s3 (answer 404 []) None"
  by (simp_all add: served_by_s3_def answer_def s3_ok_def s3_not_found_def)

definition sample_life :: "registry_op list" where
  "sample_life = [OpAdd ''u'' ''s'' True True, OpSaveEnds 0 True]"

definition sample_body :: string where
  "sample_body = serializeHooks (re_writer sample_registry_env)
     [\<lparr>wh_id = ''0123456789abcdef'', wh_url = ''u'', wh_secret = ''s'', wh_active = True\<rparr>]"

lemma sample_life_run:
  "registry_run sample_registry_env sample_life (registry_start sample_reader (answer 404 []) None) =
     \<lparr>wr_hooks = [\<lparr>wh_id = ''0123456789abcdef'', wh_url = ''u'', wh_secret = ''s'', wh_active = True\<rparr>],
      wr_store = Some sample_body, wr_pending = []\<rparr>"
  by (simp add: registry_run_def sample_life_def registry_add_def Let_def persist_def save_ends_def registry_start_def
      s3_load_def answer_def s3_not_found_def loadFromStore_def sample_body_def sample_registry_env_def hookId_def)

lemma nothing_run: "registry_run v [] r = r"
  by (simp add: registry_run_def)

lemma start_pending: "wr_pending (registry_start reader got object) = []"
  by (simp add: registry_start_def)

lemma init_store: "wr_store registry_init = None"
  by (simp add: registry_init_def)


theorem outage_forgets_witness:
  "\<exists>r1 :: registry. wr_hooks (registry_start sample_reader (answer 503 []) (Some sample_body)) = []
     \<and> wr_hooks (registry_start sample_reader (answer 200 (the (wr_store r1))) (wr_store r1)) =
        [\<lparr>wh_id = ''0123456789abcdef'', wh_url = ''v'', wh_secret = [], wh_active = True\<rparr>]"
proof -
  let ?sha = "re_sha256Hex sample_registry_env" and ?writer = "re_writer sample_registry_env"
  define r0 where "r0 = registry_start sample_reader (answer 503 []) (Some sample_body)"
  define r1 where "r1 = registry_run (makeS3WebhookStore ?sha ?writer)
    [OpAdd ''v'' [] True True, OpSaveEnds 0 (s3_save (answer 200 []))] r0"
  have t: "utf8_text ''v''" "utf8_text []" and i: "hookId ?sha ''v'' = ''0123456789abcdef''"
    by (simp_all add: sample_registry_env_def hookId_def)
  have s: "\<not> s3_ok (answer 503 [])" "s3_save (answer 200 [])" by (simp_all add: s3_save_def s3_ok_def answer_def)
  have "wr_store r1 = Some (the (wr_store r1))"
    using s(2) by (simp add: r1_def r0_def registry_run_def registry_add_def Let_def persist_def save_ends_def
        registry_start_def makeS3WebhookStore_def s3_isAsync_def)
  then have "served_by_s3 (answer 200 (the (wr_store r1))) (wr_store r1)" using answer_served(1) by metis
  from outage_forgets [OF sample_env_reads_back sample_env_hex t s refl r0_def r1_def this, unfolded i] show ?thesis
    unfolding r0_def [symmetric] by (elim conjE, intro exI [of _ r1] conjI)
qed

end
