(* ===== verification/LoginPage.thy ===== *)
theory LoginPage
  imports SendText
begin

text \<open>
  The script of the login page (\<^verbatim>\<open>src/src/http/login_ui.cpp\<close>), which runs in a browser and talks to
  \<^verbatim>\<open>/v1/auth\<close>. The page is the record of the script's variables and of what it changes in the document; each
  click, each tick of the poll timer and each settled \<^verbatim>\<open>fetch\<close> runs to its end before the next, so a run is a
  list of events. Calls in flight are answered in any order. A value the script reads is a JSON value or
  \<^verbatim>\<open>undefined\<close>; the texts it assembles are kept as their parts, its fixed phrases as constructors. Objects have
  no repeated names, and the lengths of strings and arrays, which the script never means, are not members. The
  QR encoder is the parameter \<open>draws\<close>: whether it accepts a text or throws.
\<close>

section \<open>Values of the script\<close>

type_synonym js = "json option"

definition truthy :: "js \<Rightarrow> bool" where
  "truthy v = (case v of
     None \<Rightarrow> False
   | Some JNull \<Rightarrow> False
   | Some (JBool b) \<Rightarrow> b
   | Some (JInt i) \<Rightarrow> i \<noteq> 0
   | Some (JReal r) \<Rightarrow> r \<noteq> 0
   | Some (JStr s) \<Rightarrow> s \<noteq> []
   | Some (JArr _) \<Rightarrow> True
   | Some (JObj _) \<Rightarrow> True)"

text \<open>Reading a member of these throws.\<close>

definition nullish :: "js \<Rightarrow> bool" where
  "nullish v \<longleftrightarrow> v = None \<or> v = Some JNull"

definition js_read :: "js \<Rightarrow> string \<Rightarrow> js" where
  "js_read v k = (case v of Some (JObj ms) \<Rightarrow> map_of ms k | _ \<Rightarrow> None)"

definition js_blank :: "char \<Rightarrow> bool" where
  "js_blank c \<longleftrightarrow> c \<in> set [CHR 0x20, CHR 0x09, CHR 0x0A, CHR 0x0B, CHR 0x0C, CHR 0x0D]"

text \<open>\<^verbatim>\<open>trim()\<close>, of texts without blanks beyond ASCII.\<close>

definition js_trim :: "string \<Rightarrow> string" where
  "js_trim s = rev (dropWhile js_blank (rev (dropWhile js_blank s)))"

section \<open>The page\<close>

datatype panel = PanelMethod | PanelCode | PanelQr | PanelPassword | PanelReady

text \<open>What stands in the error line.\<close>

datatype notice =
    NoNotice | WrongToken | EnterToken | EnterPhone | EnterCode | EnterPassword
  | GenericError | HttpStatus nat | Message js | Thrown

text \<open>What becomes of an answer: the callbacks given to \<^verbatim>\<open>then\<close> and \<^verbatim>\<open>catch\<close>.\<close>

datatype page_then = AfterState | AfterQr | AfterMutation | AfterMe

record page_call =
  pc_path :: string
  pc_method :: http_method
  pc_body :: js
  pc_token :: string
  pc_then :: page_then

record page =
  pg_token :: string
  pg_stored :: "string option"
  pg_last_qr :: js
  pg_polling :: bool
  pg_token_box_hidden :: bool
  pg_app_hidden :: bool
  pg_hidden :: "panel \<Rightarrow> bool"
  pg_qr_tab_inactive :: bool
  pg_phone_tab_inactive :: bool
  pg_method_qr_hidden :: bool
  pg_method_phone_hidden :: bool
  pg_qr :: "js option"
  pg_qr2 :: "js option"
  pg_state :: "js \<times> bool"
  pg_err :: notice
  pg_code_info :: "(js \<times> js option) option"
  pg_me :: "(js list \<times> js) option"
  pg_flight :: "page_call list"
  pg_log :: "page_call list"

text \<open>The document as it is served, before the script runs.\<close>

definition page_served :: "string option \<Rightarrow> page" where
  "page_served stored = \<lparr>pg_token = (case stored of None \<Rightarrow> [] | Some t \<Rightarrow> t), pg_stored = stored,
     pg_last_qr = Some (JStr []), pg_polling = False, pg_token_box_hidden = False, pg_app_hidden = True,
     pg_hidden = (\<lambda>_. True), pg_qr_tab_inactive = False, pg_phone_tab_inactive = True,
     pg_method_qr_hidden = False, pg_method_phone_hidden = True, pg_qr = None, pg_qr2 = None,
     pg_state = (Some (JStr ''...''), False), pg_err = NoNotice, pg_code_info = None, pg_me = None,
     pg_flight = [], pg_log = []\<rparr>"

section \<open>The functions of the script\<close>

definition setErr :: "notice \<Rightarrow> page \<Rightarrow> page" where
  "setErr m p = p\<lparr>pg_err := m\<rparr>"

definition api :: "string \<Rightarrow> http_method \<Rightarrow> js \<Rightarrow> page_then \<Rightarrow> page \<Rightarrow> page" where
  "api path verb body k p =
     (let c = \<lparr>pc_path = path, pc_method = verb, pc_body = (if truthy body then body else None),
               pc_token = pg_token p, pc_then = k\<rparr>
      in p\<lparr>pg_flight := pg_flight p @ [c], pg_log := pg_log p @ [c]\<rparr>)"

definition showToken :: "bool \<Rightarrow> page \<Rightarrow> page" where
  "showToken sh p = p\<lparr>pg_token_box_hidden := \<not> sh, pg_app_hidden := sh\<rparr>"

definition only :: "panel \<Rightarrow> page \<Rightarrow> page" where
  "only x p = p\<lparr>pg_hidden := (\<lambda>y. y \<noteq> x)\<rparr>"

definition startQr :: "page \<Rightarrow> page" where
  "startQr = api ''/v1/auth/qr'' Post None AfterQr"

definition selectMethod :: "bool \<Rightarrow> page \<Rightarrow> page" where
  "selectMethod qrTab p =
     (let p1 = p\<lparr>pg_qr_tab_inactive := \<not> qrTab, pg_phone_tab_inactive := qrTab,
                 pg_method_qr_hidden := \<not> qrTab, pg_method_phone_hidden := qrTab\<rparr>
      in if qrTab then startQr p1 else p1)"

definition errMsg :: "nat \<Rightarrow> json \<Rightarrow> notice" where
  "errMsg status doc =
     (let e = (if truthy (Some doc) then js_read (Some doc) ''error'' else Some doc)
      in if \<not> truthy e then HttpStatus status
         else if truthy (js_read e ''message'') then Message (js_read e ''message'')
         else if truthy (js_read e ''code'') then Message (js_read e ''code'')
         else GenericError)"

text \<open>\<^verbatim>\<open>renderQr\<close> on either holder: it is emptied first; \<open>True\<close> where the encoder throws.\<close>

definition renderQr :: "(js \<Rightarrow> bool) \<Rightarrow> bool \<Rightarrow> js \<Rightarrow> page \<Rightarrow> page \<times> bool" where
  "renderQr draws second link p =
     (let drawn = (if draws link then Some link else None)
      in (if second then p\<lparr>pg_qr2 := drawn\<rparr> else p\<lparr>pg_qr := drawn\<rparr>, \<not> draws link))"

text \<open>\<^verbatim>\<open>renderState\<close>: the page where it ends, and whether it ends by an exception.\<close>

definition renderLink :: "(js \<Rightarrow> bool) \<Rightarrow> js \<Rightarrow> page \<Rightarrow> page \<times> bool" where
  "renderLink draws data p =
     (let link = (if truthy (js_read data ''qr_link'') then js_read data ''qr_link'' else Some (JStr []));
          second = pg_hidden p PanelMethod;
          p1 = (if second then only PanelQr p else p);
          (p2, threw) = (if truthy link \<and> link \<noteq> pg_last_qr p1 then renderQr draws second link p1 else (p1, False))
      in if threw then (p2, True) else (p2\<lparr>pg_last_qr := link\<rparr>, False))"

definition renderCode :: "js \<Rightarrow> page \<Rightarrow> page" where
  "renderCode data p =
     (let ci = js_read data ''code_info''
      in (only PanelCode p)\<lparr>pg_code_info :=
           (if truthy ci
            then Some (js_read ci ''type'',
                       if truthy (js_read ci ''length'') then Some (js_read ci ''length'') else None)
            else None)\<rparr>)"

definition renderState :: "(js \<Rightarrow> bool) \<Rightarrow> js \<Rightarrow> page \<Rightarrow> page \<times> bool" where
  "renderState draws data p =
     (let p0 = setErr NoNotice p
      in if nullish data then (p0, True)
         else let s = js_read data ''authorization_state''; p1 = p0\<lparr>pg_state := (s, False)\<rparr>
         in if s = Some (JStr ''wait_phone_number'') then
              (let p2 = only PanelMethod p1
               in (if pg_method_qr_hidden p2 \<and> pg_method_phone_hidden p2 then selectMethod True p2 else p2, False))
            else if s = Some (JStr ''wait_other_device_confirmation'') then renderLink draws data p1
            else if s = Some (JStr ''wait_code'') then (renderCode data p1, False)
            else if s = Some (JStr ''wait_password'') then (only PanelPassword p1, False)
            else if s = Some (JStr ''ready'') then (api ''/v1/me'' Get None AfterMe (only PanelReady p1), False)
            else ((only PanelMethod p1)\<lparr>pg_state := (s, True)\<rparr>, False))"

definition stopPoll :: "page \<Rightarrow> page" where
  "stopPoll p = p\<lparr>pg_polling := False\<rparr>"

definition refresh :: "page \<Rightarrow> page" where
  "refresh p = (if pg_token p = [] then showToken True p else api ''/v1/auth/state'' Get None AfterState p)"

definition startPoll :: "page \<Rightarrow> page" where
  "startPoll p = refresh ((stopPoll p)\<lparr>pg_polling := True\<rparr>)"

section \<open>Answers\<close>

text \<open>\<open>Failed\<close>: the network, or a body that is not JSON.\<close>

datatype answer = Failed | Answered nat json

definition afterState :: "(js \<Rightarrow> bool) \<Rightarrow> answer \<Rightarrow> page \<Rightarrow> page" where
  "afterState draws a p = (case a of
     Failed \<Rightarrow> setErr Thrown p
   | Answered status doc \<Rightarrow>
       if status = 401 then stopPoll (showToken True (setErr WrongToken p))
       else let p1 = showToken False p
       in if nullish (Some doc) then setErr Thrown p1
          else if truthy (js_read (Some doc) ''ok'') then
            (let (p2, threw) = renderState draws (js_read (Some doc) ''data'') p1
             in if threw then setErr Thrown p2 else p2)
          else setErr (errMsg status doc) p1)"

definition afterQr :: "answer \<Rightarrow> page \<Rightarrow> page" where
  "afterQr a p = (case a of
     Failed \<Rightarrow> setErr Thrown p
   | Answered status doc \<Rightarrow>
       if nullish (Some doc) then setErr Thrown p
       else if truthy (js_read (Some doc) ''ok'') then refresh p
       else setErr (errMsg status doc) p)"

text \<open>No \<^verbatim>\<open>catch\<close>: what is thrown is lost.\<close>

definition afterMutation :: "answer \<Rightarrow> page \<Rightarrow> page" where
  "afterMutation a p = (case a of
     Failed \<Rightarrow> p
   | Answered status doc \<Rightarrow>
       if nullish (Some doc) then p
       else if truthy (js_read (Some doc) ''ok'') then refresh p
       else setErr (errMsg status doc) p)"

definition afterMe :: "answer \<Rightarrow> page \<Rightarrow> page" where
  "afterMe a p = (case a of
     Failed \<Rightarrow> p
   | Answered status doc \<Rightarrow>
       (let d = js_read (Some doc) ''data''
        in if nullish (Some doc) \<or> \<not> truthy (js_read (Some doc) ''ok'') \<or> nullish d then p
           else p\<lparr>pg_me := Some (filter truthy [js_read d ''first_name'', js_read d ''last_name''], js_read d ''id'')\<rparr>))"

definition settle :: "(js \<Rightarrow> bool) \<Rightarrow> page_then \<Rightarrow> answer \<Rightarrow> page \<Rightarrow> page" where
  "settle draws k a p = (case k of
     AfterState \<Rightarrow> afterState draws a p
   | AfterQr \<Rightarrow> afterQr a p
   | AfterMutation \<Rightarrow> afterMutation a p
   | AfterMe \<Rightarrow> afterMe a p)"

section \<open>Events\<close>

text \<open>Clicks come with the value of the field they read; the Enter key in a field is the click on its button.\<close>

datatype page_event =
    SaveToken string | TabQr | TabPhone | SendPhone string | SendCode string | SendPassword string
  | Reload | Tick | Answer nat answer

definition saveToken :: "string \<Rightarrow> page \<Rightarrow> page" where
  "saveToken v p =
     (let p1 = p\<lparr>pg_token := js_trim v\<rparr>
      in if js_trim v = [] then setErr EnterToken p1
         else startPoll (p1\<lparr>pg_stored := Some (js_trim v)\<rparr>))"

definition sendSecret :: "notice \<Rightarrow> string \<Rightarrow> string \<Rightarrow> string \<Rightarrow> page \<Rightarrow> page" where
  "sendSecret missing path field v p =
     (if v = [] then setErr missing p else api path Post (Some (JObj [(field, JStr v)])) AfterMutation p)"

fun page_step :: "(js \<Rightarrow> bool) \<Rightarrow> page_event \<Rightarrow> page \<Rightarrow> page" where
  "page_step draws (SaveToken v) p = saveToken v p"
| "page_step draws TabQr p = selectMethod True p"
| "page_step draws TabPhone p = selectMethod False p"
| "page_step draws (SendPhone v) p = sendSecret EnterPhone ''/v1/auth/phone'' ''phone_number'' (js_trim v) p"
| "page_step draws (SendCode v) p = sendSecret EnterCode ''/v1/auth/code'' ''code'' (js_trim v) p"
| "page_step draws (SendPassword v) p = sendSecret EnterPassword ''/v1/auth/password'' ''password'' v p"
| "page_step draws Reload p = refresh p"
| "page_step draws Tick p = (if pg_polling p then refresh p else p)"
| "page_step draws (Answer n a) p =
     (if n < length (pg_flight p)
      then settle draws (pc_then (pg_flight p ! n)) a
             (p\<lparr>pg_flight := take n (pg_flight p) @ drop (Suc n) (pg_flight p)\<rparr>)
      else p)"

definition page_load :: "string option \<Rightarrow> page" where
  "page_load stored =
     (let p = page_served stored in if pg_token p \<noteq> [] then startPoll p else showToken True p)"

definition page_run :: "(js \<Rightarrow> bool) \<Rightarrow> page_event list \<Rightarrow> page \<Rightarrow> page" where
  "page_run draws evs p = fold (page_step draws) evs p"

section \<open>What every run keeps\<close>

text \<open>Exactly one of the two boxes is shown, exactly one of the two methods, and at most one panel.\<close>

definition page_inv :: "page \<Rightarrow> bool" where
  "page_inv p \<longleftrightarrow> pg_app_hidden p \<noteq> pg_token_box_hidden p \<and> pg_method_qr_hidden p \<noteq> pg_method_phone_hidden p
     \<and> (pg_hidden p = (\<lambda>_. True) \<or> (\<exists>x. pg_hidden p = (\<lambda>y. y \<noteq> x)))"

definition qr_requests :: "page \<Rightarrow> nat" where
  "qr_requests p = length (filter (\<lambda>c. pc_path c = ''/v1/auth/qr'') (pg_log p))"

definition mutation_fields :: "(string \<times> string) list" where
  "mutation_fields = [(''/v1/auth/phone'', ''phone_number''), (''/v1/auth/code'', ''code''), (''/v1/auth/password'', ''password'')]"

definition call_ok :: "page_call \<Rightarrow> bool" where
  "call_ok c \<longleftrightarrow>
     pc_body c = None \<and> (pc_path c, pc_method c) \<in> {(''/v1/auth/state'', Get), (''/v1/auth/qr'', Post), (''/v1/me'', Get)}
     \<or> pc_method c = Post \<and> (\<exists>field v. (pc_path c, field) \<in> set mutation_fields \<and> v \<noteq> []
          \<and> pc_body c = Some (JObj [(field, JStr v)]))"

text \<open>A step of the script that keeps the invariant and adds \<open>n\<close> requests for a QR code, all calls in order.\<close>

definition keeps :: "nat \<Rightarrow> page \<Rightarrow> page \<Rightarrow> bool" where
  "keeps n p q \<longleftrightarrow> (page_inv p \<longrightarrow> page_inv q) \<and> qr_requests q = qr_requests p + n
     \<and> ((\<forall>c \<in> set (pg_log p). call_ok c) \<longrightarrow> (\<forall>c \<in> set (pg_log q). call_ok c))"

lemma keeps_refl: "keeps 0 p p"
  by (simp add: keeps_def)

lemma keeps_trans: "keeps m p q \<Longrightarrow> keeps n q r \<Longrightarrow> keeps (m + n) p r"
  unfolding keeps_def by (intro conjI; elim conjE) (blast, arith, blast)

lemma keeps_then: "keeps n p q \<Longrightarrow> keeps 0 q r \<Longrightarrow> keeps n p r"
  using keeps_trans [of n p q 0 r] by simp

text \<open>What the script changes without a request and without showing or hiding anything.\<close>

lemma keeps_quiet:
  "pg_app_hidden q = pg_app_hidden p \<Longrightarrow> pg_token_box_hidden q = pg_token_box_hidden p \<Longrightarrow>
   pg_method_qr_hidden q = pg_method_qr_hidden p \<Longrightarrow> pg_method_phone_hidden q = pg_method_phone_hidden p \<Longrightarrow>
   pg_hidden q = pg_hidden p \<Longrightarrow> pg_log q = pg_log p \<Longrightarrow> keeps 0 p q"
  by (simp add: keeps_def page_inv_def qr_requests_def)

lemma keeps_setErr: "keeps 0 p (setErr m p)"
  by (rule keeps_quiet) (simp_all add: setErr_def)

lemma keeps_showToken: "keeps 0 p (showToken sh p)"
  by (auto simp: keeps_def page_inv_def qr_requests_def showToken_def)

lemma keeps_only: "keeps 0 p (only x p)"
  by (auto simp: keeps_def page_inv_def qr_requests_def only_def)

lemma keeps_api:
  assumes "call_ok \<lparr>pc_path = path, pc_method = verb, pc_body = (if truthy body then body else None),
      pc_token = pg_token p, pc_then = k\<rparr>"
    and "n = (if path = ''/v1/auth/qr'' then 1 else 0)"
  shows "keeps n p (api path verb body k p)"
  using assms by (auto simp: keeps_def page_inv_def qr_requests_def api_def Let_def)

lemma keeps_get:
  "keeps 0 p (api ''/v1/auth/state'' Get None AfterState p)" "keeps 0 p (api ''/v1/me'' Get None AfterMe p)"
  by (rule keeps_api; simp add: call_ok_def truthy_def)+

lemma keeps_sendSecret:
  assumes "(path, field) \<in> set mutation_fields"
  shows "keeps 0 p (sendSecret m path field v p)"
proof (cases "v = []")
  case False
  have "keeps 0 p (api path Post (Some (JObj [(field, JStr v)])) AfterMutation p)"
    by (rule keeps_api) (use False assms in \<open>auto simp: call_ok_def truthy_def mutation_fields_def\<close>)
  with False show ?thesis by (simp add: sendSecret_def)
qed (simp add: sendSecret_def keeps_setErr)

lemma keeps_selectMethod: "keeps (if qrTab then 1 else 0) p (selectMethod qrTab p)"
proof -
  let ?p1 = "p\<lparr>pg_qr_tab_inactive := \<not> qrTab, pg_phone_tab_inactive := qrTab,
      pg_method_qr_hidden := \<not> qrTab, pg_method_phone_hidden := qrTab\<rparr>"
  have "keeps 0 p ?p1" by (auto simp: keeps_def page_inv_def qr_requests_def)
  moreover have "keeps 1 ?p1 (startQr ?p1)"
    unfolding startQr_def by (rule keeps_api) (simp_all add: call_ok_def truthy_def)
  ultimately have "keeps 1 p (startQr ?p1)" using keeps_trans [of 0 p ?p1 1] by simp
  with \<open>keeps 0 p ?p1\<close> show ?thesis by (cases qrTab) (simp_all add: selectMethod_def)
qed

lemma keeps_refresh: "keeps 0 p (refresh p)"
  by (simp add: refresh_def keeps_showToken keeps_get)

lemma keeps_startPoll: "keeps 0 p (startPoll p)"
  unfolding startPoll_def by (rule keeps_then [OF keeps_quiet keeps_refresh]) (simp_all add: stopPoll_def)

lemma keeps_renderQr: "keeps 0 p (fst (renderQr draws second link p))"
  by (rule keeps_quiet) (simp_all add: renderQr_def Let_def)

lemma keeps_link:
  assumes "(if c then renderQr draws second link p else (p, False)) = (p2, threw)"
  shows "keeps 0 p p2"
  using assms keeps_renderQr [of p draws second link] by (cases c) (auto simp: keeps_refl)

lemma keeps_renderLink: "keeps 0 p (fst (renderLink draws data p))"
proof -
  let ?link = "if truthy (js_read data ''qr_link'') then js_read data ''qr_link'' else Some (JStr [])"
  let ?p1 = "if pg_hidden p PanelMethod then only PanelQr p else p"
  obtain p2 threw where r: "(if truthy ?link \<and> ?link \<noteq> pg_last_qr ?p1
      then renderQr draws (pg_hidden p PanelMethod) ?link ?p1 else (?p1, False)) = (p2, threw)"
    by (rule prod.exhaust)
  have "keeps 0 p ?p1" by (simp add: keeps_only keeps_refl)
  then have p2: "keeps 0 p p2" using keeps_link [OF r] by (rule keeps_then)
  have "keeps 0 p2 (p2\<lparr>pg_last_qr := ?link\<rparr>)" by (rule keeps_quiet) simp_all
  with p2 have "keeps 0 p (p2\<lparr>pg_last_qr := ?link\<rparr>)" by (rule keeps_then)
  with p2 show ?thesis unfolding renderLink_def Let_def r prod.case by (cases threw) (simp_all only: if_True if_False fst_conv)
qed

text \<open>\<^verbatim>\<open>renderState\<close>, with the branch that asks for a QR code left out: both methods are never hidden.\<close>

lemma renderState_cases:
  assumes "page_inv p"
    and "P (setErr NoNotice p)"
    and "\<And>s. P (only PanelMethod ((setErr NoNotice p)\<lparr>pg_state := (s, False)\<rparr>))"
    and "\<And>s. P (fst (renderLink draws data ((setErr NoNotice p)\<lparr>pg_state := (s, False)\<rparr>)))"
    and "\<And>s. P (renderCode data ((setErr NoNotice p)\<lparr>pg_state := (s, False)\<rparr>))"
    and "\<And>s. P (only PanelPassword ((setErr NoNotice p)\<lparr>pg_state := (s, False)\<rparr>))"
    and "\<And>s. P (api ''/v1/me'' Get None AfterMe (only PanelReady ((setErr NoNotice p)\<lparr>pg_state := (s, False)\<rparr>)))"
    and "\<And>s. P ((only PanelMethod ((setErr NoNotice p)\<lparr>pg_state := (s, False)\<rparr>))\<lparr>pg_state := (s, True)\<rparr>)"
  shows "P (fst (renderState draws data p))"
proof -
  have "\<not> (pg_method_qr_hidden q \<and> pg_method_phone_hidden q)"
    if "q = only PanelMethod ((setErr NoNotice p)\<lparr>pg_state := st\<rparr>)" for q st
    using assms(1) by (auto simp: that page_inv_def only_def setErr_def)
  then show ?thesis using assms(2-) unfolding renderState_def Let_def by (simp only: if_False fst_conv split: if_split) blast
qed

lemma keeps_renderState:
  assumes "page_inv p"
  shows "keeps 0 p (fst (renderState draws data p))"
proof (rule renderState_cases [OF assms])
  show "keeps 0 p (setErr NoNotice p)" by (rule keeps_setErr)
next
  fix s
  let ?p1 = "(setErr NoNotice p)\<lparr>pg_state := (s, False)\<rparr>"
  have "keeps 0 p ?p1" by (rule keeps_quiet) (simp_all add: setErr_def)
  note step = keeps_then [OF this]
  show "keeps 0 p (only PanelMethod ?p1)" "keeps 0 p (only PanelPassword ?p1)" by (rule step [OF keeps_only])+
  show "keeps 0 p (fst (renderLink draws data ?p1))" by (rule step [OF keeps_renderLink])
  show "keeps 0 p (renderCode data ?p1)" unfolding renderCode_def Let_def
    by (rule step, rule keeps_then [OF keeps_only keeps_quiet]) simp_all
  show "keeps 0 p (api ''/v1/me'' Get None AfterMe (only PanelReady ?p1))"
    by (rule step, rule keeps_then [OF keeps_only keeps_get(2)])
  show "keeps 0 p ((only PanelMethod ?p1)\<lparr>pg_state := (s, True)\<rparr>)"
    by (rule step, rule keeps_then [OF keeps_only keeps_quiet]) simp_all
qed

lemma keeps_afterState:
  assumes "page_inv p"
  shows "keeps 0 p (afterState draws a p)"
proof (cases a)
  case Failed
  then show ?thesis by (simp add: afterState_def keeps_setErr)
next
  case (Answered status doc)
  let ?p1 = "showToken False p"
  have out: "keeps 0 p (stopPoll (showToken True (setErr WrongToken p)))"
    by (rule keeps_then [OF keeps_setErr keeps_then [OF keeps_showToken keeps_quiet]]) (simp_all add: stopPoll_def)
  have shown: "keeps 0 p (setErr m ?p1)" for m by (rule keeps_then [OF keeps_showToken keeps_setErr])
  obtain p2 threw where r: "renderState draws (js_read (Some doc) ''data'') ?p1 = (p2, threw)" by (rule prod.exhaust)
  have "page_inv ?p1" using assms keeps_showToken by (auto simp: keeps_def)
  from keeps_renderState [OF this, of draws "js_read (Some doc) ''data''"] have "keeps 0 ?p1 p2" by (simp add: r)
  with keeps_showToken have p2: "keeps 0 p p2" by (rule keeps_then)
  then have "keeps 0 p (setErr Thrown p2)" by (rule keeps_then [OF _ keeps_setErr])
  with p2 out shown show ?thesis unfolding Answered afterState_def answer.case Let_def r prod.case
    by (simp only: split: if_split) blast
qed

lemma keeps_settle:
  assumes "page_inv p"
  shows "keeps 0 p (settle draws k a p)"
proof -
  have "keeps 0 p (afterMe a p)"
    by (cases a) (auto simp: afterMe_def Let_def keeps_refl intro: keeps_quiet)
  moreover have "keeps 0 p (afterQr a p)" "keeps 0 p (afterMutation a p)"
    by (cases a; simp add: afterQr_def afterMutation_def keeps_refl keeps_setErr keeps_refresh)+
  ultimately show ?thesis using keeps_afterState [OF assms] by (cases k) (simp_all add: settle_def)
qed

lemma keeps_step:
  assumes "page_inv p"
  shows "keeps (if ev = TabQr then 1 else 0) p (page_step draws ev p)"
proof (cases ev)
  case (SaveToken v)
  have "keeps 0 p (setErr EnterToken (p\<lparr>pg_token := js_trim v\<rparr>))"
    by (rule keeps_then [OF keeps_quiet keeps_setErr]) simp_all
  moreover have "keeps 0 p (startPoll (p\<lparr>pg_token := js_trim v, pg_stored := Some (js_trim v)\<rparr>))"
    by (rule keeps_then [OF keeps_quiet keeps_startPoll]) simp_all
  ultimately show ?thesis using SaveToken by (simp only: saveToken_def Let_def page_step.simps split: if_split) simp
next
  case (Answer n a)
  let ?p = "p\<lparr>pg_flight := take n (pg_flight p) @ drop (Suc n) (pg_flight p)\<rparr>"
  have q: "keeps 0 p ?p" by (rule keeps_quiet) simp_all
  then have "page_inv ?p" using assms by (simp add: keeps_def)
  from keeps_then [OF q keeps_settle [OF this]] show ?thesis using Answer by (simp add: keeps_refl)
next
  case TabQr
  then show ?thesis using keeps_selectMethod [of True p] by simp
next
  case TabPhone
  then show ?thesis using keeps_selectMethod [of False p] by simp
qed (simp_all add: keeps_sendSecret mutation_fields_def keeps_refresh keeps_refl)

lemma page_load_inv: "page_inv (page_load stored) \<and> qr_requests (page_load stored) = 0 \<and> (\<forall>c \<in> set (pg_log (page_load stored)). call_ok c)"
proof -
  have "page_inv (showToken True (page_served stored))" "page_inv (page_served stored)"
    by (auto simp: page_inv_def page_served_def showToken_def)
  moreover have "qr_requests (page_served stored) = 0" "pg_log (page_served stored) = []"
      "pg_log (showToken True (page_served stored)) = []" "qr_requests (showToken True (page_served stored)) = 0"
    by (simp_all add: qr_requests_def page_served_def showToken_def)
  ultimately show ?thesis using keeps_startPoll [of "page_served stored"] by (simp add: page_load_def Let_def keeps_def)
qed

lemma page_run_keeps:
  "page_inv p \<Longrightarrow> keeps (length (filter (\<lambda>e. e = TabQr) evs)) p (page_run draws evs p)"
proof (induction evs arbitrary: p)
  case Nil
  show ?case by (simp add: page_run_def keeps_refl)
next
  case (Cons ev evs)
  have st: "keeps (if ev = TabQr then 1 else 0) p (page_step draws ev p)" using Cons.prems by (rule keeps_step)
  then have "page_inv (page_step draws ev p)" using Cons.prems by (simp add: keeps_def)
  from keeps_trans [OF st Cons.IH [OF this]] show ?case by (simp add: page_run_def split: if_splits)
qed

lemma page_run_inv: "page_inv (page_run draws evs (page_load stored))"
  using page_run_keeps page_load_inv by (auto simp: keeps_def)

section \<open>What the page asks for by itself\<close>

text \<open>C30: The page never asks for a QR code of its own accord: in every run there are as many requests for one as clicks on
  its tab. The branch of \<^verbatim>\<open>renderState\<close> that is to start it finds the QR method shown from the first, so a
  user who waits for a code to appear waits for ever.\<close>

theorem qr_only_by_click:
  "qr_requests (page_run draws evs (page_load stored)) = length (filter (\<lambda>e. e = TabQr) evs)"
  using page_run_keeps [of "page_load stored" evs draws] page_load_inv [of stored] by (simp add: keeps_def)

section \<open>The gateway behind the page\<close>

text \<open>The request a call arrives as.\<close>

definition call_request :: "page_call \<Rightarrow> request" where
  "call_request c = \<lparr>rq_method = pc_method c, rq_path = pc_path c,
     rq_header = (\<lambda>n. if n = ''Authorization'' then ''Bearer '' @ pc_token c
                      else if n = ''Content-Type'' then ''application/json'' else []),
     rq_param = (\<lambda>_. []), rq_json = pc_body c\<rparr>"

lemma bearer_of_call: "parseBearerToken (''Bearer '' @ tok) = (if tok = [] then None else Some tok)"
  by (simp add: parseBearerToken_def kBearerPrefix_def)

lemma bearer_allows:
  "evaluateBearerAuth (''Bearer '' @ tok) required ver = Allowed \<longleftrightarrow>
     tok \<noteq> [] \<and> (\<exists>scopes. ver tok = Some scopes \<and> scopeAllows scopes required)"
  unfolding evaluateBearerAuth_def bearer_of_call by (cases "tok = []") (simp_all split: option.split)

lemma filter_passes:
  "doFilter sha256 known req = None \<longleftrightarrow>
     evaluateBearerAuth (rq_header req ''Authorization'') (requiredScope req) (verify sha256 known) = Allowed"
  by (simp add: doFilter_def split: bearer_result.split)

lemma call_scope:
  assumes "call_ok c"
  shows "requiredScope (call_request c) = (if pc_path c = ''/v1/me'' then ScopeRead else ScopeAdmin)"
proof -
  have "requiredScopeFor ''/v1/me'' True = ScopeRead" "requiredScopeFor ''/v1/auth/state'' b = ScopeAdmin"
    "requiredScopeFor ''/v1/auth/qr'' b = ScopeAdmin" "requiredScopeFor ''/v1/auth/phone'' b = ScopeAdmin"
    "requiredScopeFor ''/v1/auth/code'' b = ScopeAdmin" "requiredScopeFor ''/v1/auth/password'' b = ScopeAdmin" for b
    by (simp_all add: requiredScopeFor_def isAuthPath_def isWebhooksPath_def kAuthPathPrefix_def kWebhooksPathPrefix_def
        pathStartsWithNoCase_def ascii_lower_def)
  then show ?thesis using assms
    by (auto simp: requiredScope_def call_request_def call_ok_def mutation_fields_def)
qed

lemma call_paths:
  assumes "call_ok c"
  shows "(pc_path c, pc_method c) \<in> set [(''/v1/auth/state'', Get), (''/v1/auth/qr'', Post), (''/v1/me'', Get),
     (''/v1/auth/phone'', Post), (''/v1/auth/code'', Post), (''/v1/auth/password'', Post)]"
  using assms by (auto simp: call_ok_def mutation_fields_def)

lemma page_paths_routed:
  "list_all (\<lambda>(path, verb). list_ex (\<lambda>r. rt_path r = path \<and> rt_method r = verb \<and> rt_requires_auth r) kRoutesTable)
     [(''/v1/auth/state'', Get), (''/v1/auth/qr'', Post), (''/v1/me'', Get),
      (''/v1/auth/phone'', Post), (''/v1/auth/code'', Post), (''/v1/auth/password'', Post)]"
  by code_simp

lemma jsonString_call:
  assumes "pc_body c = Some (JObj [(field, JStr v)])" "v \<noteq> []"
  shows "jsonString (call_request c) field = Inr v"
  using assms by (simp add: jsonString_def bodyObject_def call_request_def)

text \<open>A step that sends nothing of what the user has typed: every call it adds to the log has no body.\<close>

definition silent :: "page \<Rightarrow> page \<Rightarrow> bool" where
  "silent p q \<longleftrightarrow> (\<forall>c \<in> set (pg_log q). c \<in> set (pg_log p) \<or> pc_body c = None)"

lemma log_simps [simp]:
  "pg_log (setErr m p) = pg_log p" "pg_log (only x p) = pg_log p" "pg_log (showToken sh p) = pg_log p"
  "pg_log (stopPoll p) = pg_log p" "pg_log (renderCode data p) = pg_log p"
  "pg_log (fst (renderQr draws second link p)) = pg_log p" "pg_log (fst (renderLink draws data p)) = pg_log p"
  "pg_log (api path verb body k p) = pg_log p @ [\<lparr>pc_path = path, pc_method = verb,
     pc_body = (if truthy body then body else None), pc_token = pg_token p, pc_then = k\<rparr>]"
  by (simp_all add: setErr_def only_def showToken_def stopPoll_def renderCode_def renderQr_def renderLink_def api_def Let_def)

lemma silent_parts:
  "silent p (selectMethod qrTab p)" "silent p (refresh p)" "silent p (startPoll p)"
  by (auto simp: silent_def selectMethod_def startQr_def refresh_def startPoll_def truthy_def Let_def)

lemma silent_renderState: "silent p (fst (renderState draws data p))"
  using silent_parts(1) [of "only PanelMethod ((setErr NoNotice p)\<lparr>pg_state := (s, False)\<rparr>)" True for s]
  by (auto simp: silent_def renderState_def Let_def truthy_def)

lemma silent_settle: "silent p (settle draws k a p)"
proof (cases a)
  case Failed
  then show ?thesis
    by (cases k) (simp_all add: settle_def afterState_def afterQr_def afterMutation_def afterMe_def silent_def)
next
  case (Answered status doc)
  have "silent p (afterState draws a p)"
    using silent_renderState [of "showToken False p" draws "js_read (Some doc) ''data''"]
    by (auto simp: silent_def afterState_def Answered Let_def split: prod.split)
  then show ?thesis
    using silent_parts(2) [of p]
    by (cases k) (auto simp: settle_def Answered afterQr_def afterMutation_def afterMe_def silent_def Let_def)
qed

text \<open>What an event of the three forms sends: path, member and text.\<close>

definition typed :: "page_event \<Rightarrow> (string \<times> string \<times> string) option" where
  "typed ev = (case ev of
     SendPhone t \<Rightarrow> Some (''/v1/auth/phone'', ''phone_number'', js_trim t)
   | SendCode t \<Rightarrow> Some (''/v1/auth/code'', ''code'', js_trim t)
   | SendPassword t \<Rightarrow> Some (''/v1/auth/password'', ''password'', t)
   | _ \<Rightarrow> None)"

definition made_by :: "page_event \<Rightarrow> page \<Rightarrow> page_call \<Rightarrow> bool" where
  "made_by ev p c \<longleftrightarrow> (\<exists>path field v. typed ev = Some (path, field, v) \<and> v \<noteq> []
     \<and> c = \<lparr>pc_path = path, pc_method = Post, pc_body = Some (JObj [(field, JStr v)]), pc_token = pg_token p,
            pc_then = AfterMutation\<rparr>)"

lemma step_calls:
  assumes "c \<in> set (pg_log (page_step draws ev p))"
  shows "c \<in> set (pg_log p) \<or> pc_body c = None \<or> made_by ev p c"
proof (cases ev)
  case (Answer n a)
  then show ?thesis
    using assms silent_settle [of "p\<lparr>pg_flight := take n (pg_flight p) @ drop (Suc n) (pg_flight p)\<rparr>" draws]
    by (auto simp: silent_def split: if_splits)
next
  case (SaveToken v)
  then show ?thesis using assms silent_parts(3) [of "p\<lparr>pg_token := js_trim v, pg_stored := Some (js_trim v)\<rparr>"]
    by (auto simp: silent_def saveToken_def Let_def split: if_splits)
qed (use assms silent_parts [of p] in \<open>auto simp: silent_def sendSecret_def typed_def made_by_def truthy_def split: if_splits\<close>)

lemma run_calls:
  "c \<in> set (pg_log (page_run draws evs p)) \<Longrightarrow> c \<in> set (pg_log p) \<or> pc_body c = None
     \<or> (\<exists>pre ev post. evs = pre @ ev # post \<and> made_by ev (page_run draws pre p) c)"
proof (induction evs arbitrary: p)
  case Nil
  then show ?case by (simp add: page_run_def)
next
  case (Cons ev evs)
  then have "c \<in> set (pg_log (page_run draws evs (page_step draws ev p)))" by (simp add: page_run_def)
  from Cons.IH [OF this] consider "c \<in> set (pg_log (page_step draws ev p))" | "pc_body c = None"
    | pre e post where "evs = pre @ e # post" "made_by e (page_run draws pre (page_step draws ev p)) c" by metis
  then show ?case
  proof cases
    case 1
    from step_calls [OF this] show ?thesis
    proof (elim disjE)
      assume "made_by ev p c"
      then have "made_by ev (page_run draws [] p) c" by (simp add: page_run_def)
      then show ?thesis by (intro disjI2 exI [of _ "[]"] exI [of _ ev] exI [of _ evs]) simp
    qed simp_all
  next
    case 3
    then have "made_by e (page_run draws (ev # pre) p) c" by (simp add: page_run_def)
    with 3(1) show ?thesis by (intro disjI2 exI [of _ "ev # pre"] exI [of _ e] exI [of _ post]) simp
  qed simp
qed

lemma made_by_events:
  assumes "made_by ev p c"
  shows "(\<exists>t. ev = SendPhone t \<and> h_phone (call_request c) = launchAuthMutation (SetAuthenticationPhoneNumber (js_trim t)))
    \<or> (\<exists>t. ev = SendCode t \<and> h_code (call_request c) = RateAllowed (\<lambda>ok.
         if \<not> ok then Respond tooManyAttempts else launchAuthMutation (CheckAuthenticationCode (js_trim t))))
    \<or> (\<exists>t. ev = SendPassword t \<and> h_password (call_request c) = RateAllowed (\<lambda>ok.
         if \<not> ok then Respond tooManyAttempts else launchAuthMutation (CheckAuthenticationPassword t)))"
proof -
  from assms obtain path field v where v: "typed ev = Some (path, field, v)" "v \<noteq> []" "pc_body c = Some (JObj [(field, JStr v)])"
    by (auto simp: made_by_def)
  note j = jsonString_call [OF v(3,2)]
  show ?thesis
  proof (cases ev)
    case (SendPhone t)
    with v(1) j show ?thesis by (simp add: typed_def h_phone_def)
  next
    case (SendCode t)
    with v(1) j show ?thesis by (simp add: typed_def h_code_def cong: if_cong)
  next
    case (SendPassword t)
    with v(1) j show ?thesis by (simp add: typed_def h_password_def cong: if_cong)
  qed (use v(1) in \<open>simp_all add: typed_def\<close>)
qed

text \<open>C29: Every call of the page is one the gateway has a route for, guarded by the filter, which lets it pass exactly if
  the token given to the page is known and has the admin scope, for \<^verbatim>\<open>/v1/me\<close> the read scope. A call either has no
  body, or one of the user's sends made it, with the token the page had then, and the handler of the call's path
  hands TDLib what stood in the field: a phone number and a login code without the blanks around them, a password
  exactly as it was typed; codes and passwords only after the rate limiter has allowed it.\<close>

theorem page_calls_accepted:
  assumes "c \<in> set (pg_log (page_run draws evs (page_load stored)))"
  shows "(\<exists>r \<in> set kRoutesTable. rt_path r = pc_path c \<and> rt_method r = pc_method c \<and> rt_requires_auth r)
    \<and> (doFilter sha256 known (call_request c) = None \<longleftrightarrow>
         pc_token c \<noteq> [] \<and> (\<exists>scopes. verify sha256 known (pc_token c) = Some scopes
           \<and> scopeAllows scopes (if pc_path c = ''/v1/me'' then ScopeRead else ScopeAdmin)))
    \<and> (pc_body c = None \<or> (\<exists>pre ev post. evs = pre @ ev # post
         \<and> pc_token c = pg_token (page_run draws pre (page_load stored))
         \<and> ((\<exists>t. ev = SendPhone t \<and> pc_path c = ''/v1/auth/phone''
               \<and> h_phone (call_request c) = launchAuthMutation (SetAuthenticationPhoneNumber (js_trim t)))
            \<or> (\<exists>t. ev = SendCode t \<and> pc_path c = ''/v1/auth/code'' \<and> h_code (call_request c) = RateAllowed (\<lambda>ok.
                 if \<not> ok then Respond tooManyAttempts else launchAuthMutation (CheckAuthenticationCode (js_trim t))))
            \<or> (\<exists>t. ev = SendPassword t \<and> pc_path c = ''/v1/auth/password'' \<and> h_password (call_request c) = RateAllowed (\<lambda>ok.
                 if \<not> ok then Respond tooManyAttempts else launchAuthMutation (CheckAuthenticationPassword t))))))"
proof (intro conjI)
  have ok: "call_ok c"
    using assms page_run_keeps [of "page_load stored" evs draws] page_load_inv [of stored] by (simp add: keeps_def)
  then show "\<exists>r \<in> set kRoutesTable. rt_path r = pc_path c \<and> rt_method r = pc_method c \<and> rt_requires_auth r"
    using page_paths_routed call_paths [OF ok] unfolding list_all_iff list_ex_iff by fast
  show "doFilter sha256 known (call_request c) = None \<longleftrightarrow>
         pc_token c \<noteq> [] \<and> (\<exists>scopes. verify sha256 known (pc_token c) = Some scopes
           \<and> scopeAllows scopes (if pc_path c = ''/v1/me'' then ScopeRead else ScopeAdmin))"
    using bearer_allows [of "pc_token c"] unfolding filter_passes call_scope [OF ok] by (simp add: call_request_def)
  show "pc_body c = None \<or> (\<exists>pre ev post. evs = pre @ ev # post
         \<and> pc_token c = pg_token (page_run draws pre (page_load stored))
         \<and> ((\<exists>t. ev = SendPhone t \<and> pc_path c = ''/v1/auth/phone''
               \<and> h_phone (call_request c) = launchAuthMutation (SetAuthenticationPhoneNumber (js_trim t)))
            \<or> (\<exists>t. ev = SendCode t \<and> pc_path c = ''/v1/auth/code'' \<and> h_code (call_request c) = RateAllowed (\<lambda>ok.
                 if \<not> ok then Respond tooManyAttempts else launchAuthMutation (CheckAuthenticationCode (js_trim t))))
            \<or> (\<exists>t. ev = SendPassword t \<and> pc_path c = ''/v1/auth/password'' \<and> h_password (call_request c) = RateAllowed (\<lambda>ok.
                 if \<not> ok then Respond tooManyAttempts else launchAuthMutation (CheckAuthenticationPassword t)))))"
  proof (cases "pc_body c = None")
    case False
    moreover have "\<forall>c \<in> set (pg_log (page_load stored)). pc_body c = None"
      using silent_parts(3) [of "page_served stored"] by (simp add: page_load_def Let_def silent_def) (simp add: page_served_def)
    ultimately obtain pre ev post where e: "evs = pre @ ev # post" "made_by ev (page_run draws pre (page_load stored)) c"
      using run_calls [OF assms] by metis
    then have "pc_token c = pg_token (page_run draws pre (page_load stored))"
      "\<exists>field v. typed ev = Some (pc_path c, field, v)" by (auto simp: made_by_def)
    with e made_by_events [OF e(2)] show ?thesis
      by (intro disjI2 exI [of _ pre] exI [of _ ev] exI [of _ post]) (auto simp: typed_def)
  qed simp
qed

theorem page_calls_accepted_witness:
  "\<exists>c. pc_path c = ''/v1/auth/phone'' \<and> h_phone (call_request c) = launchAuthMutation (SetAuthenticationPhoneNumber ''+7'')"
proof -
  let ?c = "\<lparr>pc_path = ''/v1/auth/phone'', pc_method = Post, pc_body = Some (JObj [(''phone_number'', JStr ''+7'')]),
    pc_token = ''t'', pc_then = AfterMutation\<rparr>"
  have "?c \<in> set (pg_log (page_run (\<lambda>_. True) [SendPhone '' +7''] (page_load (Some ''t''))))"
    by (simp add: page_run_def page_load_def page_served_def startPoll_def stopPoll_def refresh_def api_def sendSecret_def
        js_trim_def js_blank_def truthy_def Let_def)
  from page_calls_accepted [OF this, THEN conjunct2, THEN conjunct2]
  have "\<exists>t. SendPhone '' +7'' = SendPhone t \<and> h_phone (call_request ?c) = launchAuthMutation (SetAuthenticationPhoneNumber (js_trim t))"
    by (auto simp: Cons_eq_append_conv)
  then show ?thesis by (intro exI [of _ ?c]) (simp add: js_trim_def js_blank_def)
qed

section \<open>What the page shows\<close>

text \<open>The panel that belongs to a state; \<open>chosen\<close>: the choice of the method is on the page already.\<close>

definition panelFor :: "auth_state \<Rightarrow> bool \<Rightarrow> panel" where
  "panelFor st chosen = (case st of
     WaitCode \<Rightarrow> PanelCode
   | WaitPassword \<Rightarrow> PanelPassword
   | Ready \<Rightarrow> PanelReady
   | WaitOtherDeviceConfirmation \<Rightarrow> if chosen then PanelMethod else PanelQr
   | _ \<Rightarrow> PanelMethod)"

text \<open>The document of \<^verbatim>\<open>/v1/auth/state\<close>, where the state is read from \<open>a\<close> and its details from \<open>b\<close>.\<close>

definition stateDoc :: "auth \<Rightarrow> auth \<Rightarrow> json" where
  "stateDoc a b = JObj ([(''authorization_state'', JStr (authStateName (au_state a))), (''ready'', JBool (au_state a = Ready))]
     @ (if au_state a = WaitOtherDeviceConfirmation then [(''qr_link'', JStr (au_qr_link b))]
        else if au_state a = WaitCode then [(''code_info'',
           JObj [(''type'', JStr (cd_type (au_code_info b))), (''next_type'', JStr (cd_next_type (au_code_info b))),
                 (''length'', JInt (cd_length (au_code_info b))), (''resend_timeout'', JInt (cd_timeout (au_code_info b)))])]
        else []))"

lemma serve_auth_state:
  "\<exists>es. serve e h_auth_state h = (es, Some (jsonResponse (okBody [(''data'',
     stateDoc (e_auth e h) (e_auth e (h @ [EvReadAuth (e_auth e h)])))]) 200))"
  by (simp add: h_auth_state_def answerAuthState_def authStateJson_def stateDoc_def Let_def after_event_def)

lemma doc_reads:
  "js_read (Some (stateDoc a b)) ''authorization_state'' = Some (JStr (authStateName (au_state a)))"
  "au_state a = WaitOtherDeviceConfirmation \<Longrightarrow> js_read (Some (stateDoc a b)) ''qr_link'' = Some (JStr (au_qr_link b))"
  "au_state a = WaitCode \<Longrightarrow> js_read (Some (stateDoc a b)) ''code_info'' = Some (JObj
     [(''type'', JStr (cd_type (au_code_info b))), (''next_type'', JStr (cd_next_type (au_code_info b))),
      (''length'', JInt (cd_length (au_code_info b))), (''resend_timeout'', JInt (cd_timeout (au_code_info b)))])"
  by (simp_all add: stateDoc_def js_read_def)

lemma state_answered:
  "afterState draws (Answered 200 (okBody [(''data'', stateDoc a b)])) p =
     (let (q, threw) = renderState draws (Some (stateDoc a b)) (showToken False p) in if threw then setErr Thrown q else q)"
  by (simp add: afterState_def okBody_def js_read_def truthy_def nullish_def)

lemma doc_not_nullish: "\<not> nullish (Some (stateDoc a b))"
  by (simp add: nullish_def stateDoc_def)

text \<open>The state of the page between \<^verbatim>\<open>showToken(false)\<close> and the branch.\<close>

definition readied :: "js \<Rightarrow> page \<Rightarrow> page" where
  "readied s p = (setErr NoNotice (showToken False p))\<lparr>pg_state := (s, False)\<rparr>"

lemma render_branches:
  assumes "pg_method_qr_hidden p \<noteq> pg_method_phone_hidden p"
  shows "renderState draws (Some (stateDoc a b)) (showToken False p) =
    (let s = Some (JStr (authStateName (au_state a))); p1 = readied s p
     in case au_state a of
          WaitPhoneNumber \<Rightarrow> (only PanelMethod p1, False)
        | WaitOtherDeviceConfirmation \<Rightarrow> renderLink draws (Some (stateDoc a b)) p1
        | WaitCode \<Rightarrow> (renderCode (Some (stateDoc a b)) p1, False)
        | WaitPassword \<Rightarrow> (only PanelPassword p1, False)
        | Ready \<Rightarrow> (api ''/v1/me'' Get None AfterMe (only PanelReady p1), False)
        | _ \<Rightarrow> ((only PanelMethod p1)\<lparr>pg_state := (s, True)\<rparr>, False))"
  unfolding renderState_def Let_def doc_reads(1) readied_def [symmetric]
  by (cases "au_state a"; simp add: authStateName_def doc_not_nullish)
    (use assms in \<open>auto simp: only_def readied_def setErr_def showToken_def\<close>)

lemma readied_fields [simp]:
  "pg_app_hidden (readied s p) = False" "pg_token_box_hidden (readied s p) = True" "pg_hidden (readied s p) = pg_hidden p"
  "pg_err (readied s p) = NoNotice" "pg_state (readied s p) = (s, False)" "pg_last_qr (readied s p) = pg_last_qr p"
  "pg_token (readied s p) = pg_token p" "pg_log (readied s p) = pg_log p"
  "pg_qr (readied s p) = pg_qr p" "pg_qr2 (readied s p) = pg_qr2 p"
  by (simp_all add: readied_def setErr_def showToken_def)

text \<open>Where the link goes: into the holder of the panel that is shown, unless it is the one drawn last.\<close>

lemma renderLink_result:
  assumes "au_state a = WaitOtherDeviceConfirmation" "link = Some (JStr (au_qr_link b))"
  shows "renderLink draws (Some (stateDoc a b)) p =
    (let p1 = (if pg_hidden p PanelMethod then only PanelQr p else p);
         new = (au_qr_link b \<noteq> [] \<and> link \<noteq> pg_last_qr p)
     in if new \<and> \<not> draws link then (fst (renderQr draws (pg_hidden p PanelMethod) link p1), True)
        else ((if new then fst (renderQr draws (pg_hidden p PanelMethod) link p1) else p1)\<lparr>pg_last_qr := link\<rparr>, False))"
  using doc_reads(2) [OF assms(1), of b]
  by (simp add: renderLink_def Let_def truthy_def assms(2) renderQr_def only_def)

definition linkOf :: "auth \<Rightarrow> js" where
  "linkOf b = Some (JStr (au_qr_link b))"

lemmas shown_defs = only_def api_def renderCode_def setErr_def renderQr_def panelFor_def Let_def

text \<open>Is the link to be drawn?\<close>

definition fresh_link :: "auth \<Rightarrow> auth \<Rightarrow> page \<Rightarrow> bool" where
  "fresh_link a b p \<longleftrightarrow> au_state a = WaitOtherDeviceConfirmation \<and> au_qr_link b \<noteq> [] \<and> linkOf b \<noteq> pg_last_qr p"

lemma shown_link:
  assumes "page_inv p" "au_state a = WaitOtherDeviceConfirmation"
    and "q = afterState draws (Answered 200 (okBody [(''data'', stateDoc a b)])) p"
  shows "\<not> pg_app_hidden q \<and> pg_token_box_hidden q
    \<and> (\<forall>x. \<not> pg_hidden q x \<longleftrightarrow> x = (if pg_hidden p PanelMethod then PanelQr else PanelMethod))
    \<and> fst (pg_state q) = Some (JStr ''wait_other_device_confirmation'')
    \<and> pg_err q = (if fresh_link a b p \<and> \<not> draws (linkOf b) then Thrown else NoNotice)
    \<and> pg_last_qr q = (if fresh_link a b p \<and> \<not> draws (linkOf b) then pg_last_qr p else linkOf b)
    \<and> pg_qr q = (if fresh_link a b p \<and> \<not> pg_hidden p PanelMethod
         then (if draws (linkOf b) then Some (linkOf b) else None) else pg_qr p)
    \<and> pg_qr2 q = (if fresh_link a b p \<and> pg_hidden p PanelMethod
         then (if draws (linkOf b) then Some (linkOf b) else None) else pg_qr2 p)"
proof -
  have one: "\<not> pg_hidden p PanelMethod \<Longrightarrow> pg_hidden p = (\<lambda>y. y \<noteq> PanelMethod)" and m: "pg_method_qr_hidden p \<noteq> pg_method_phone_hidden p"
    using assms(1) by (auto simp: page_inv_def)
  have q: "q = (let (r, threw) = renderLink draws (Some (stateDoc a b))
      (readied (Some (JStr ''wait_other_device_confirmation'')) p) in if threw then setErr Thrown r else r)"
    unfolding assms(3) state_answered render_branches [OF m] by (simp add: assms(2) authStateName_def)
  show ?thesis
    unfolding q renderLink_result [OF assms(2) refl] linkOf_def [symmetric] fresh_link_def
    by (cases "pg_hidden p PanelMethod"; cases "au_qr_link b \<noteq> [] \<and> linkOf b \<noteq> pg_last_qr p"; cases "draws (linkOf b)")
      (auto simp: shown_defs one assms(2))
qed

lemma shown_state:
  assumes "page_inv p" "au_state a \<noteq> WaitOtherDeviceConfirmation"
    and "q = afterState draws (Answered 200 (okBody [(''data'', stateDoc a b)])) p"
  shows "\<not> pg_app_hidden q \<and> pg_token_box_hidden q \<and> pg_err q = NoNotice
    \<and> (\<forall>x. \<not> pg_hidden q x \<longleftrightarrow> x = panelFor (au_state a) chosen)
    \<and> fst (pg_state q) = Some (JStr (authStateName (au_state a)))
    \<and> pg_qr q = pg_qr p \<and> pg_qr2 q = pg_qr2 p \<and> pg_last_qr q = pg_last_qr p
    \<and> (au_state a = WaitCode \<longrightarrow> pg_code_info q = Some (Some (JStr (cd_type (au_code_info b))),
         if cd_length (au_code_info b) = 0 then None else Some (Some (JInt (cd_length (au_code_info b))))))
    \<and> (au_state a = Ready \<longrightarrow> pg_log q = pg_log p @ [\<lparr>pc_path = ''/v1/me'', pc_method = Get, pc_body = None,
         pc_token = pg_token p, pc_then = AfterMe\<rparr>])"
proof -
  have m: "pg_method_qr_hidden p \<noteq> pg_method_phone_hidden p" using assms(1) by (simp add: page_inv_def)
  show ?thesis
    unfolding assms(3) state_answered render_branches [OF m] using assms(2) doc_reads(3) [of a b]
    by (cases "au_state a") (simp_all add: shown_defs js_read_def truthy_def)
qed

text \<open>C28: When the gateway's answer to a poll arrives, the page shows the panel of the authorization state the handler read
  and no other: the box for the token gives way, exactly one panel is shown, the state's name stands above it
  and the error line is empty. In the state of a login by QR code the panel is that of the methods if it was shown
  before, the one for the code alone otherwise; a link that is not the one drawn last is drawn into the holder of
  that panel, or, where the encoder refuses it, the error line says so and the holder is empty. A link that was
  drawn last is not drawn again, whichever holder it went to, so the panel then shows what its holder had before,
  which may be nothing or an older code (\<open>qr_code_missing\<close> below). No other state touches the two codes. A login code's type and
  length are those of the state; and once the state is \<open>Ready\<close> the page asks who has logged in.\<close>

theorem page_shows_gateway_state:
  assumes "p = page_run draws evs (page_load stored)" "n < length (pg_flight p)" "pc_then (pg_flight p ! n) = AfterState"
    and "serve e h_auth_state h = (es, Some r)" "rs_body r = JsonBody doc"
    and "a = e_auth e h" "b = e_auth e (h @ [EvReadAuth a])"
    and "q = page_step draws (Answer n (Answered (rs_status r) doc)) p"
  shows "\<not> pg_app_hidden q \<and> pg_token_box_hidden q
    \<and> (\<forall>x. \<not> pg_hidden q x \<longleftrightarrow> x = panelFor (au_state a) (\<not> pg_hidden p PanelMethod))
    \<and> fst (pg_state q) = Some (JStr (authStateName (au_state a)))
    \<and> pg_err q = (if fresh_link a b p \<and> \<not> draws (linkOf b) then Thrown else NoNotice)
    \<and> pg_last_qr q = (if au_state a = WaitOtherDeviceConfirmation \<and> \<not> (fresh_link a b p \<and> \<not> draws (linkOf b))
         then linkOf b else pg_last_qr p)
    \<and> pg_qr q = (if fresh_link a b p \<and> \<not> pg_hidden p PanelMethod
         then (if draws (linkOf b) then Some (linkOf b) else None) else pg_qr p)
    \<and> pg_qr2 q = (if fresh_link a b p \<and> pg_hidden p PanelMethod
         then (if draws (linkOf b) then Some (linkOf b) else None) else pg_qr2 p)
    \<and> (au_state a = WaitCode \<longrightarrow> pg_code_info q = Some (Some (JStr (cd_type (au_code_info b))),
         if cd_length (au_code_info b) = 0 then None else Some (Some (JInt (cd_length (au_code_info b))))))
    \<and> (au_state a = Ready \<longrightarrow> pg_log q = pg_log p @ [\<lparr>pc_path = ''/v1/me'', pc_method = Get, pc_body = None,
         pc_token = pg_token p, pc_then = AfterMe\<rparr>])"
proof -
  define p' where "p' = p\<lparr>pg_flight := take n (pg_flight p) @ drop (Suc n) (pg_flight p)\<rparr>"
  have same: "pg_hidden p' = pg_hidden p" "pg_last_qr p' = pg_last_qr p" "pg_log p' = pg_log p" "pg_token p' = pg_token p"
      "pg_qr p' = pg_qr p" "pg_qr2 p' = pg_qr2 p" "fresh_link a b p' = fresh_link a b p"
    by (simp_all add: p'_def fresh_link_def)
  have inv: "page_inv p'" using page_run_inv [of draws evs stored] by (simp add: p'_def page_inv_def assms(1))
  have "rs_status r = 200" "doc = okBody [(''data'', stateDoc a b)]"
    using serve_auth_state [of e h] assms(4-7) by (auto simp: jsonResponse_def)
  then have q: "q = afterState draws (Answered 200 (okBody [(''data'', stateDoc a b)])) p'"
    using assms(2,3,8) by (simp add: p'_def settle_def)
  show ?thesis
  proof (cases "au_state a = WaitOtherDeviceConfirmation")
    case True
    with shown_link [OF inv True q] show ?thesis by (simp add: same panelFor_def authStateName_def)
  next
    case False
    then have "\<not> fresh_link a b p" by (simp add: fresh_link_def)
    with False shown_state [OF inv False q, of "\<not> pg_hidden p PanelMethod"] show ?thesis by (simp add: same)
  qed
qed

definition wait_phone :: auth where
  "wait_phone = auth_onUpdate (Some (UpdateAuthorizationState (Some AsWaitPhoneNumber))) auth_init"

theorem page_shows_gateway_state_witness:
  "\<exists>q :: page. (\<forall>x. \<not> pg_hidden q x \<longleftrightarrow> x = PanelMethod) \<and> pg_err q = NoNotice \<and> qr_requests q = 0"
proof -
  let ?draws = "\<lambda>_. True" let ?p = "page_run ?draws [] (page_load (Some ''t''))"
  let ?e = "(sample_env None ClaimFree)\<lparr>e_auth := (\<lambda>_. wait_phone)\<rparr>"
  let ?doc = "okBody [(''data'', stateDoc wait_phone wait_phone)]"
  let ?q = "page_step ?draws (Answer 0 (Answered (rs_status (jsonResponse ?doc 200)) ?doc)) ?p"
  have p: "0 < length (pg_flight ?p)" "pc_then (pg_flight ?p ! 0) = AfterState"
    by (simp_all add: page_run_def page_load_def page_served_def startPoll_def stopPoll_def refresh_def api_def Let_def)
  have a: "au_state wait_phone = WaitPhoneNumber"
    by (simp add: wait_phone_def auth_onUpdate_def setState_def authStateFromTd_def Let_def)
  obtain es where "serve ?e h_auth_state [] = (es, Some (jsonResponse ?doc 200))"
    using serve_auth_state [of ?e "[]"] by auto
  from page_shows_gateway_state [OF refl p this _ refl refl refl]
  have "(\<forall>x. \<not> pg_hidden ?q x \<longleftrightarrow> x = PanelMethod) \<and> pg_err ?q = NoNotice"
    by (simp add: jsonResponse_def a panelFor_def)
  moreover have "keeps 0 ?p ?q"
    using keeps_step [of ?p "Answer 0 (Answered (rs_status (jsonResponse ?doc 200)) ?doc)" ?draws] page_run_inv by simp
  moreover have "qr_requests ?p = 0" using page_load_inv [of "Some ''t''"] by (simp add: page_run_def)
  ultimately show ?thesis by (intro exI [of _ ?q]) (simp add: keeps_def)
qed

section \<open>What the page does not say\<close>

text \<open>Three polls in flight whose answers come out of order: the link goes to the panel for the code alone, the stale
  answer of a login that has not begun brings up the panel of the methods, and there the link, being the last one
  drawn, is never drawn. The page waits for a scan and shows no code.\<close>

definition qr_doc :: "string \<Rightarrow> json" where
  "qr_doc link = okBody [(''data'', JObj [(''authorization_state'', JStr ''wait_other_device_confirmation''),
     (''ready'', JBool False), (''qr_link'', JStr link)])]"

definition phone_doc :: json where
  "phone_doc = okBody [(''data'', JObj [(''authorization_state'', JStr ''wait_phone_number''), (''ready'', JBool False)])]"

theorem qr_code_missing:
  assumes "link \<noteq> []" "tok \<noteq> []"
    and "q = page_run (\<lambda>_. True) [Tick, Tick, Answer 0 (Answered 200 (qr_doc link)), Answer 0 (Answered 200 phone_doc),
      Answer 0 (Answered 200 (qr_doc link))] (page_load (Some tok))"
  shows "\<not> pg_hidden q PanelMethod \<and> pg_qr q = None \<and> pg_last_qr q = Some (JStr link) \<and> pg_err q = NoNotice"
  using assms(1,2) unfolding assms(3)
  by (simp add: page_run_def page_load_def page_served_def startPoll_def stopPoll_def refresh_def settle_def afterState_def
      qr_doc_def phone_doc_def okBody_def js_read_def truthy_def nullish_def renderState_def renderLink_def renderQr_def
      showToken_def setErr_def only_def api_def Let_def)

theorem qr_code_missing_witness:
  "\<exists>q :: page. \<not> pg_hidden q PanelMethod \<and> pg_qr q = None \<and> pg_last_qr q = Some (JStr ''tg://'')"
  using qr_code_missing [of "''tg://''" "''t''", OF _ _ refl] by (intro exI) auto

text \<open>The error line stands inside the part of the document that \<^verbatim>\<open>showToken(true)\<close> hides.\<close>

definition shown_notice :: "page \<Rightarrow> notice" where
  "shown_notice p = (if pg_app_hidden p then NoNotice else pg_err p)"

text \<open>A token that the gateway refuses takes the user back to the form for it, and the poll ends; but why is not to be
  seen: the message is written where the same call has just hidden it. The same goes for the message that
  asks for a token when the form is sent empty.\<close>

theorem token_errors_unseen:
  assumes "n < length (pg_flight p)" "pc_then (pg_flight p ! n) = AfterState"
    and "q = page_step draws (Answer n (Answered 401 doc)) p" and "js_trim v = []"
  shows "pg_err q = WrongToken \<and> shown_notice q = NoNotice \<and> \<not> pg_token_box_hidden q \<and> \<not> pg_polling q
    \<and> pg_log (page_step draws Tick q) = pg_log p
    \<and> pg_err (page_step draws (SaveToken v) q) = EnterToken \<and> shown_notice (page_step draws (SaveToken v) q) = NoNotice"
  using assms(1,2,4) unfolding assms(3)
  by (simp add: settle_def afterState_def stopPoll_def showToken_def setErr_def shown_notice_def saveToken_def Let_def)

theorem token_errors_unseen_witness:
  "\<exists>q :: page. pg_err q = WrongToken \<and> shown_notice q = NoNotice"
proof -
  let ?p = "page_load (Some ''t'')"
  have "0 < length (pg_flight ?p)" "pc_then (pg_flight ?p ! 0) = AfterState"
    by (simp_all add: page_load_def page_served_def startPoll_def stopPoll_def refresh_def api_def Let_def)
  from token_errors_unseen [OF this refl, of "''  ''" "\<lambda>_. True" JNull] show ?thesis
    by (auto simp: js_trim_def js_blank_def)
qed

end
