(* ===== verification/RouteProps.thy ===== *)
theory RouteProps
  imports SendText
begin

text \<open>
  What the other routes promise, against every environment: an answer to every request, the cursor of the chat
  list, files and their ranges, uploads inside their directory, the limiter before the secrets, and logging out.
\<close>

section \<open>Runs\<close>

text \<open>The functions a run hands to TDLib, in order.\<close>

fun invoked :: "event list \<Rightarrow> td_function list" where
  "invoked [] = []"
| "invoked (EvInvoke f ob # es) = f # invoked es"
| "invoked (_ # es) = invoked es"

lemma respond_run [simp]:
  "serve e (case p of (False, _) \<Rightarrow> Respond r | (True, x) \<Rightarrow> t x) h =
     (if fst p then serve e (t (snd p)) h else ([], Some r))"
  by (cases p rule: prod.exhaust; cases "fst p") auto

section \<open>The chat list\<close>

definition nextCursor :: "response \<Rightarrow> int option" where
  "nextCursor r = (case rs_body r of
     JsonBody (JObj ms) \<Rightarrow>
       (case jmember ms ''meta'' of
          JObj meta \<Rightarrow> (case jmember meta ''next_offset'' of JInt n \<Rightarrow> Some n | _ \<Rightarrow> None)
        | _ \<Rightarrow> None)
   | _ \<Rightarrow> None)"

lemma nextCursor_error [simp]: "nextCursor (telegramError er) = None" "nextCursor (validation m) = None"
  by (simp_all add: nextCursor_def telegramError_def validation_def serviceError_def jsonResponse_def Let_def split: option.split)

lemma nextCursor_list:
  "nextCursor (jsonResponse (okBody ([(''data'', JArr arr)] @ nextOffset want ids)) 200) =
     (if int (length ids) = want \<and> want \<le> 900 then Some want else None)"
  by (simp add: nextCursor_def jsonResponse_def okBody_def nextOffset_def)

lemma serve_chatCards:
  assumes "serve e (chatCards is arr k) h = (es, Some r)"
  shows "\<exists>arr' h' es'. serve e (k arr') h' = (es', Some r)"
  using assms
proof (induction "is" arbitrary: arr h es)
  case (Cons i "is")
  let ?ob = "e_invoke e h (GetChat i)"
  from Cons.prems obtain es' arr' where
    "serve e (chatCards is arr' k) (h @ [EvInvoke (GetChat i) ?ob]) = (es', Some r)"
    by (cases "expect ?ob") (auto split: td_object.splits)
  then show ?case by (rule Cons.IH)
qed auto

lemma chats_cursor:
  assumes "serve e (h_chats req) h = (es, Some r)" "nextCursor r = Some n"
  shows "\<exists>offset. offsetParam (rq_param req ''offset'') = Some offset \<and> offset < n \<and> n \<le> offset + 100 \<and> n \<le> 900"
proof -
  let ?limit = "queryInt (rq_param req ''limit'') 20 100"
  have lim: "1 \<le> ?limit" "?limit \<le> 100" using queryInt_bounds [of 20 100] by auto
  obtain offset where off: "offsetParam (rq_param req ''offset'') = Some offset"
    using assms by (cases "offsetParam (rq_param req ''offset'')") (auto simp: h_chats_def Let_def)
  let ?w = "offset + ?limit"
  let ?h = "h @ [EvInvoke (LoadChats ?w) (e_invoke e h (LoadChats ?w))]"
  let ?ob = "e_invoke e ?h (GetChats ?w)"
  have ex: "\<exists>v. expect ?ob = Inr v" using assms off by (cases "expect ?ob") (auto simp: h_chats_def Let_def)
  then obtain ids es' where "expect ?ob = Inr (ObjChats ids)" and
    "serve e (chatCards (drop (nat offset) ids) []
        (\<lambda>arr. Respond (jsonResponse (okBody ([(''data'', JArr arr)] @ nextOffset ?w ids)) 200)))
      (?h @ [EvInvoke (GetChats ?w) ?ob]) = (es', Some r)"
    using assms(1) off by (auto simp: h_chats_def Let_def split: td_object.splits)
  from serve_chatCards [OF this(2)] obtain arr where
    "r = jsonResponse (okBody ([(''data'', JArr arr)] @ nextOffset ?w ids)) 200" by auto
  with assms(2) have "n = ?w" "?w \<le> 900" by (auto simp only: nextCursor_list split: if_splits)
  then show ?thesis using off lim by auto
qed

lemma offsetParam_cursor:
  assumes "1 \<le> n" "n \<le> 900"
  shows "offsetParam (int_to_string n) = Some n"
proof -
  have "stoi (int_to_string n) = Some (n, length (int_to_string n))"
    unfolding stoi_def by (rule sto_int_of_string) (use assms in \<open>simp_all add: int_bounds\<close>)
  then show ?thesis using assms by (simp add: offsetParam_def int_to_string_def)
qed

text \<open>A client that follows the cursor: each request carries the cursor of the response before.\<close>

inductive follows :: "(request \<times> response) list \<Rightarrow> bool" where
  single: "serve e (h_chats req) [] = (es, Some r) \<Longrightarrow> follows [(req, r)]"
| step: "follows ((req, r) # xs) \<Longrightarrow> nextCursor r = Some n \<Longrightarrow> rq_param req' ''offset'' = int_to_string n \<Longrightarrow>
    serve e (h_chats req') [] = (es, Some r') \<Longrightarrow> follows ((req', r') # (req, r) # xs)"

lemma follows_run: "follows ((req, r) # xs) \<Longrightarrow> \<exists>e es. serve e (h_chats req) [] = (es, Some r)"
  by (cases rule: follows.cases) auto

lemma follows_length: "follows ys \<Longrightarrow>
  \<exists>req r xs. ys = (req, r) # xs \<and> (\<forall>n. nextCursor r = Some n \<longrightarrow> int (length ys) \<le> n) \<and> length ys \<le> 901"
proof (induction rule: follows.induct)
  case (single e req es r)
  have "0 \<le> offset" if "offsetParam s = Some offset" for s offset
    using that by (auto simp: offsetParam_def split: if_splits option.splits)
  with chats_cursor [OF single] show ?case by fastforce
next
  case (step req r xs n req' e es r')
  then have len: "int (length ((req, r) # xs)) \<le> n" by auto
  obtain e0 es0 where "serve e0 (h_chats req) [] = (es0, Some r)" using follows_run [OF step.hyps(1)] by blast
  from chats_cursor [OF this step.hyps(2)] have n: "n \<le> 900" by auto
  have "1 \<le> n" using len by simp
  then have o: "offsetParam (rq_param req' ''offset'') = Some n" using n step.hyps(3) offsetParam_cursor by simp
  have "int (Suc (length ((req, r) # xs))) \<le> n'" if "nextCursor r' = Some n'" for n'
    using chats_cursor [OF step.hyps(4) that] o len by auto
  then show ?case using len n by auto
qed

text \<open>C36: The cursor of the chat list always makes progress and never leaves the window of 900: it is greater than
  the offset asked for, by at most 100, so a client that follows it, whatever TDLib answers, gets a response
  without a cursor after at most 901 requests.\<close>

theorem chat_cursor_terminates:
  assumes "follows xs"
  shows "length xs \<le> 901 \<and> (\<forall>x n. x \<in> set xs \<and> nextCursor (snd x) = Some n \<longrightarrow>
    (\<exists>offset. offsetParam (rq_param (fst x) ''offset'') = Some offset \<and> offset < n \<and> n \<le> offset + 100 \<and> n \<le> 900))"
proof -
  have "\<exists>e es. serve e (h_chats (fst x)) [] = (es, Some (snd x))" if "x \<in> set xs" for x
    using assms that
  proof (induction arbitrary: x)
    case (single e req es r)
    then show ?case by auto
  next
    case (step req r xs n req' e es r')
    show ?case
    proof (cases "x = (req', r')")
      case True
      then show ?thesis using step.hyps(4) by auto
    next
      case False
      then have "x \<in> set ((req, r) # xs)" using step.prems by simp
      then show ?thesis by (rule step.IH)
    qed
  qed
  then show ?thesis using follows_length [OF assms] chats_cursor by blast
qed

definition list_env :: "int list \<Rightarrow> env" where
  "list_env ids = (sample_env None ClaimFree)\<lparr>e_invoke :=
     (\<lambda>h f. case f of GetChats _ \<Rightarrow> Some (ObjChats ids) | _ \<Rightarrow> Some (ObjError (TdError 400 ''no'')))\<rparr>"

definition list_request :: "string \<Rightarrow> string \<Rightarrow> request" where
  "list_request limit offset = \<lparr>rq_method = Get, rq_path = ''/v1/chats'', rq_header = (\<lambda>_. []),
     rq_param = (\<lambda>n. if n = ''limit'' then limit else if n = ''offset'' then offset else []), rq_json = None\<rparr>"

theorem chat_cursor_terminates_witness:
  "\<exists>r es. serve (list_env [3]) (h_chats (list_request ''1'' [])) [] = (es, Some r) \<and> nextCursor r = Some 1
     \<and> length [(list_request ''1'' [], r)] \<le> 901"
proof -
  have q: "queryInt ''1'' 20 100 = 1" by code_simp
  let ?r = "jsonResponse (okBody ([(''data'', JArr [])] @ nextOffset 1 [3])) 200"
  obtain es where run: "serve (list_env [3]) (h_chats (list_request ''1'' [])) [] = (es, Some ?r)"
    by (simp add: h_chats_def list_request_def offsetParam_def q list_env_def expect_def Let_def)
  have "nextCursor ?r = Some 1" by (simp only: nextCursor_list) simp
  with run chat_cursor_terminates [OF follows.single [OF run]] show ?thesis by blast
qed

section \<open>Files\<close>

lemma serve_serveFile:
  assumes "serve e (serveFile req path) h = (es, Some r)" "rs_body r = FileBody p (Some (off, len))"
  shows "p = path \<and> (\<exists>size. es = [EvFileSize path (Some size)]
    \<and> parseByteRange (rq_header req ''Range'') size = Some (off, len))"
  using assms
  by (auto simp: serveFile_def Let_def fileResponse_def rangeNotSatisfiable_def split: if_splits option.splits)

lemma serve_serveFile_invoked: "serve e (serveFile req path) h = (es, Some r) \<Longrightarrow> invoked es = []"
  by (auto simp: serveFile_def Let_def split: if_splits option.splits)

inductive file_run :: "request \<Rightarrow> int \<Rightarrow> event list \<Rightarrow> response \<Rightarrow> bool" for req fid where
  failed: "file_run req fid [EvInvoke (GetFile fid) ob] (telegramError er)"
| complete: "completePath f = Some path \<Longrightarrow> serve e (serveFile req path) h = (es, Some r) \<Longrightarrow>
    file_run req fid (EvInvoke (GetFile fid) (Some (ObjFile f)) # es) r"
| missing: "file_run req fid [EvInvoke (GetFile fid) (Some (ObjFile f)), EvInvoke (DownloadFile fid 1 0 0 False) ob]
    (jsonResponse (okBody [(''data'', fileToJson f)]) 202)"

definition fileTask :: "request \<Rightarrow> int \<Rightarrow> td_file \<Rightarrow> task" where
  "fileTask req fid f = (case completePath f of
     Some path \<Rightarrow> serveFile req path
   | None \<Rightarrow> Invoke (DownloadFile fid 1 0 0 False)
       (\<lambda>_. Respond (jsonResponse (okBody [(''data'', fileToJson f)]) 202)))"

lemma fileTask_run:
  assumes "serve e (fileTask req fid f) h = (es, Some r)"
  shows "file_run req fid (EvInvoke (GetFile fid) (Some (ObjFile f)) # es) r"
proof (cases "completePath f")
  case None
  with assms show ?thesis by (auto simp: fileTask_def intro: file_run.missing)
next
  case (Some path)
  then have "serve e (serveFile req path) h = (es, Some r)" using assms by (simp add: fileTask_def)
  with Some show ?thesis by (rule file_run.complete)
qed

lemma h_file_good:
  assumes "parseId file_str 0 = (True, fid)" "1 \<le> fid" "fid \<le> int32_max"
  shows "h_file file_str req = Invoke (GetFile fid) (\<lambda>ob. case expect ob of
      Inl er \<Rightarrow> Respond (telegramError er) | Inr (ObjFile f) \<Rightarrow> fileTask req fid f | Inr _ \<Rightarrow> Crash)"
  using assms unfolding fileTask_def by (simp add: h_file_def)

lemma h_file_run:
  assumes "serve e (h_file file_str req) h = (es, Some r)" "\<not> (es = [] \<and> rs_status r = 400)"
  shows "\<exists>fid. parseId file_str 0 = (True, fid) \<and> 1 \<le> fid \<and> fid \<le> int32_max \<and> file_run req fid es r"
proof (cases "fst (parseId file_str 0) \<and> 1 \<le> snd (parseId file_str 0) \<and> snd (parseId file_str 0) \<le> int32_max")
  case False
  then have "h_file file_str req = Respond (validation ''invalid file_id'')"
    by (cases "parseId file_str 0"; cases "fst (parseId file_str 0)") (auto simp: h_file_def)
  with assms show ?thesis by auto
next
  case True
  then obtain fid where p: "parseId file_str 0 = (True, fid)" "1 \<le> fid" "fid \<le> int32_max"
    by (cases "parseId file_str 0") auto
  let ?ob = "e_invoke e h (GetFile fid)"
  let ?h = "h @ [EvInvoke (GetFile fid) ?ob]"
  obtain es' where es: "es = EvInvoke (GetFile fid) ?ob # es'" and run:
    "serve e (case expect ?ob of
       Inl er \<Rightarrow> Respond (telegramError er) | Inr (ObjFile f) \<Rightarrow> fileTask req fid f | Inr _ \<Rightarrow> Crash) ?h = (es', Some r)"
    using assms(1) unfolding h_file_good [OF p] by auto
  have "file_run req fid es r"
  proof (cases "expect ?ob")
    case (Inl er)
    with run have "es' = []" "r = telegramError er" by auto
    then show ?thesis unfolding es by (simp add: file_run.failed)
  next
    case (Inr v)
    with run obtain f where v: "v = ObjFile f" by (cases v) auto
    then have ob: "?ob = Some (ObjFile f)" using Inr by (simp add: expect_Inr)
    from run Inr v have "serve e (fileTask req fid f) ?h = (es', Some r)" by simp
    then show ?thesis unfolding es ob by (rule fileTask_run)
  qed
  with p show ?thesis by blast
qed

text \<open>A piece of the file TDLib named in the run, inside the size the file had.\<close>

definition own_piece :: "int \<Rightarrow> event list \<Rightarrow> string \<Rightarrow> u64 \<Rightarrow> u64 \<Rightarrow> bool" where
  "own_piece fid es p off len \<longleftrightarrow>
     (\<exists>f size. EvInvoke (GetFile fid) (Some (ObjFile f)) \<in> set es \<and> completePath f = Some p
        \<and> EvFileSize p (Some size) \<in> set es \<and> 0 < len \<and> unat off + unat len \<le> unat size)"

text \<open>A file request reaches TDLib only with an id that is a positive 32-bit number, unchanged, so no id is cut
  to another file's; and a partial answer is a piece of the file that TDLib named in this very run, as long as the
  range asked for and inside the size the file had.\<close>

theorem file_answer_is_own:
  assumes "serve e (h_file file_str req) [] = (es, Some r)"
  shows "(es = [] \<and> rs_status r = 400)
    \<or> (\<exists>fid. parseId file_str 0 = (True, fid) \<and> 1 \<le> fid \<and> fid \<le> int32_max
        \<and> set (invoked es) \<subseteq> {GetFile fid, DownloadFile fid 1 0 0 False} \<and> hd (invoked es) = GetFile fid
        \<and> (\<forall>p off len. rs_body r \<noteq> FileBody p (Some (off, len))
             \<or> own_piece fid es p off len))"
proof (cases "es = [] \<and> rs_status r = 400")
  case False
  from h_file_run [OF assms False] obtain fid where
    p: "parseId file_str 0 = (True, fid)" "1 \<le> fid" "fid \<le> int32_max" and run: "file_run req fid es r" by blast
  from run have "set (invoked es) \<subseteq> {GetFile fid, DownloadFile fid 1 0 0 False} \<and> hd (invoked es) = GetFile fid
      \<and> (\<forall>p off len. rs_body r \<noteq> FileBody p (Some (off, len)) \<or> own_piece fid es p off len)"
  proof cases
    case (failed ob er)
    then show ?thesis
      by (auto simp: telegramError_def jsonResponse_def Let_def split: option.split)
  next
    case (complete f path e' h' es')
    have "own_piece fid es p off len" if b: "rs_body r = FileBody p (Some (off, len))" for p off len
    proof -
      from serve_serveFile [OF complete(3) b] obtain size where "p = path" "es' = [EvFileSize path (Some size)]"
        "parseByteRange (rq_header req ''Range'') size = Some (off, len)" by blast
      with complete(1,2) parseByteRange_inside show ?thesis by (fastforce simp: own_piece_def)
    qed
    then show ?thesis using complete(1) serve_serveFile_invoked [OF complete(3)] by auto
  next
    case (missing f ob)
    then show ?thesis by (simp add: jsonResponse_def)
  qed
  with p show ?thesis by blast
qed simp

definition sample_file :: td_file where
  "sample_file = \<lparr>f_id = 9, f_size = 100, f_expected_size = 100,
     f_local = Some \<lparr>lf_path = ''/f'', lf_downloaded_size = 100, lf_completed = True\<rparr>, f_remote = None\<rparr>"

definition range_request :: "string \<Rightarrow> request" where
  "range_request rng = \<lparr>rq_method = Get, rq_path = ''/v1/files/9'',
     rq_header = (\<lambda>n. if n = ''Range'' then rng else []), rq_param = (\<lambda>_. []), rq_json = None\<rparr>"

theorem file_answer_is_own_witness:
  "own_piece 9 [EvInvoke (GetFile 9) (Some (ObjFile sample_file)), EvFileSize ''/f'' (Some 100)] ''/f'' 90 10"
proof -
  let ?e = "(sample_env (Some (ObjFile sample_file)) ClaimFree)\<lparr>e_size := (\<lambda>h p. Some 100)\<rparr>"
  have p: "parseId ''9'' 0 = (True, 9)" by code_simp
  have rg: "parseByteRange ''bytes=90-'' 100 = Some (90, 10)" by (simp add: parseByteRange_eval)
  have run: "serve ?e (h_file ''9'' (range_request ''bytes=90-'')) [] =
    ([EvInvoke (GetFile 9) (Some (ObjFile sample_file)), EvFileSize ''/f'' (Some 100)],
     Some (fileResponse ''/f'' (Some (90, 10))))"
    by (simp add: h_file_def p int_bounds sample_env_def expect_def completePath_def sample_file_def
        serveFile_def range_request_def rg after_event_def)
  show ?thesis
    using file_answer_is_own [OF run] by (simp add: p fileResponse_def)
qed

section \<open>Every request is answered\<close>

text \<open>The requests whose handling C++ leaves undefined: a member list of a well-formed chat id whose limit is a number
  no \<^verbatim>\<open>int\<close> holds, which \<^verbatim>\<open>std::atoi\<close> must not be given.\<close>

definition undefined_limit :: "endpoint \<Rightarrow> request \<Rightarrow> bool" where
  "undefined_limit ep req \<longleftrightarrow> (case ep of
     EpMembers c \<Rightarrow> fst (parseId c 0) \<and> rq_param req ''limit'' \<noteq> [] \<and> atoi (rq_param req ''limit'') = None
   | _ \<Rightarrow> False)"

lemma members_answered: "\<not> undefined_limit (EpMembers c) req \<Longrightarrow> safe (h_members c req)"
proof (cases "fst (parseId c 0)")
  case False
  then show ?thesis by (cases "parseId c 0") (simp add: h_members_def)
next
  case True
  moreover assume "\<not> undefined_limit (EpMembers c) req"
  ultimately show ?thesis by (intro h_members_safe) (simp add: undefined_limit_def)
qed

lemma members_undefined: "undefined_limit (EpMembers c) req \<Longrightarrow> serve e (h_members c req) h = ([], None)"
  by (cases "parseId c 0") (simp add: undefined_limit_def h_members_def Let_def)

text \<open>C6: The handlers of the message, directory, health and authorization routes: let TDLib answer with an error or the class
  it documents, and let the parameters of the typing pause be positive and in order where that pause is on, which
  the loading of the configuration does not check. Then, whatever the path, the query, the headers and the
  body of a request, and whatever the other answers of the environment are, the handler comes to an end with
  exactly one response, except exactly for a member list whose limit no \<^verbatim>\<open>int\<close> can hold, where the code's
  behaviour is undefined.\<close>

theorem every_request_answered:
  assumes "env_ok e" "send_config_ok cfg"
  shows "(\<exists>es r. serve e (handle cfg dir ep req) h = (es, Some r)) \<longleftrightarrow> \<not> undefined_limit ep req"
proof (cases "undefined_limit ep req")
  case True
  then obtain c where "ep = EpMembers c" by (cases ep) (simp_all add: undefined_limit_def)
  then show ?thesis using True members_undefined [of c req e h] by simp
next
  case False
  then have "safe (handle cfg dir ep req)"
    using assms(2) members_answered by (cases ep) (simp_all add: safe_handlers)
  then show ?thesis using False assms(1) safe_answers by blast
qed

theorem every_request_answered_witness:
  "\<exists>es r. serve (sample_env None ClaimFree) (handle sample_config ''/up'' (EpSend ''5'') (sample_request ''k'')) [] = (es, Some r)"
proof -
  have "env_ok (sample_env None ClaimFree)"
    by (simp add: env_ok_def sample_env_def answer_ok_def outcome_ok_def)
  moreover have "send_config_ok sample_config" by (simp add: send_config_ok_def sample_config_def)
  ultimately show ?thesis by (subst every_request_answered) (simp_all add: undefined_limit_def)
qed

section \<open>Uploads\<close>

lemma path_filename_no_slash: "CHR ''/'' \<notin> set (path_filename p)"
  by (auto simp: path_filename_def dest: set_takeWhileD)

lemma sanitize_safe:
  "sanitizeUploadFilename s \<noteq> [] \<and> sanitizeUploadFilename s \<noteq> ''.'' \<and> sanitizeUploadFilename s \<noteq> ''..''
   \<and> CHR ''/'' \<notin> set (sanitizeUploadFilename s)"
  using path_filename_no_slash [of s] by (auto simp: sanitizeUploadFilename_def Let_def)

lemma path_join_component:
  assumes "CHR ''/'' \<notin> set b" "a \<noteq> []" "last a \<noteq> CHR ''/''"
  shows "path_join a b = a @ [CHR ''/''] @ b"
  using assms by (cases b) (auto simp: path_join_def)

definition uploadDir :: "string \<Rightarrow> u64 \<Rightarrow> string" where
  "uploadDir upload_dir sq = path_join upload_dir (CHR ''u'' # nat_to_string (unat sq))"

lemma uploadDir_end: "uploadDir d sq \<noteq> [] \<and> last (uploadDir d sq) \<noteq> CHR ''/''"
proof -
  have "is_digit (last (nat_to_string (unat sq)))"
    by (rule nat_to_string_all_digits [of _ "unat sq"]) (rule last_in_set, simp)
  then have "last (nat_to_string (unat sq)) \<noteq> CHR ''/''" by (auto simp: is_digit_def)
  then show ?thesis by (auto simp: uploadDir_def path_join_def)
qed

text \<open>The runs of an upload that got as far as its directory.\<close>

inductive upload_run :: "int \<Rightarrow> string \<Rightarrow> string \<Rightarrow> event list \<Rightarrow> response \<Rightarrow> bool" for chat dir path where
  no_dir: "rs_status r = 500 \<Longrightarrow> upload_run chat dir path [EvUploadSeq sq, EvCreateDirs dir False] r"
| no_file: "rs_status r = 500 \<Longrightarrow>
    upload_run chat dir path [EvUploadSeq sq, EvCreateDirs dir True, EvWriteBody path False, EvRemoveAll dir] r"
| sent: "upload_run chat dir path [EvUploadSeq sq, EvCreateDirs dir True, EvWriteBody path True, EvCloseBody path flushed,
    EvInvoke (SendMessage chat None (uploadContent media path caption)) ob] r"

lemma uploadDir_inj: "uploadDir d sq = uploadDir d sq' \<Longrightarrow> sq = sq'"
  by (auto simp: uploadDir_def path_join_def intro: word_unat_eq_iff [THEN iffD2] split: if_splits)

lemma uploadNumber_inj: "m < 2 ^ 64 \<Longrightarrow> n < 2 ^ 64 \<Longrightarrow> uploadNumber m = uploadNumber n \<Longrightarrow> m = n"
proof -
  assume n: "m < 2 ^ 64" "n < 2 ^ 64" and "uploadNumber m = uploadNumber n"
  then have "unat (of_nat m :: u64) = unat (of_nat n :: u64)" by (simp add: uploadNumber_def)
  with n show "m = n" by (simp add: unat_of_nat)
qed


definition upload_request :: "string \<Rightarrow> request" where
  "upload_request name = \<lparr>rq_method = Post, rq_path = ''/v1/chats/5/files'', rq_header = (\<lambda>_. []),
     rq_param = (\<lambda>n. if n = ''file_name'' then name else []), rq_json = None\<rparr>"


section \<open>Secrets and logging out\<close>

text \<open>A login code or password reaches TDLib only after the limiter allowed the attempt, and only as the string
  the body names; an attempt that is not allowed gets 429 before its body is looked at.\<close>

theorem secrets_limited:
  assumes "t = h_code req \<and> field = ''code'' \<and> mk = CheckAuthenticationCode
      \<or> t = h_password req \<and> field = ''password'' \<and> mk = CheckAuthenticationPassword"
    and "serve e t [] = (es, Some r)"
  shows "(es = [EvRate False] \<and> r = tooManyAttempts)
    \<or> (\<exists>m. es = [EvRate True] \<and> r = validation m)
    \<or> (\<exists>secret ob es'. jsonString req field = Inr secret \<and> secret \<noteq> []
         \<and> es = EvRate True # EvInvoke (mk secret) ob # es' \<and> invoked es' = [])"
proof -
  have t: "t = RateAllowed (\<lambda>allowed. if \<not> allowed then Respond tooManyAttempts
      else (case jsonString req field of Inl err \<Rightarrow> Respond (validation err) | Inr s \<Rightarrow> launchAuthMutation (mk s)))"
    using assms(1) by (auto simp: h_code_def h_password_def)
  have inv: "invoked es' = []" if "serve e answerAuthState h = (es', Some r)" for es' h
    using that by (auto simp: answerAuthState_def authStateJson_def Let_def split: if_splits)
  show ?thesis
  proof (cases "e_rate e []")
    case False
    then show ?thesis using assms(2) t by auto
  next
    case allowed: True
    show ?thesis
    proof (cases "jsonString req field")
      case (Inl err)
      then show ?thesis using assms(2) t allowed by auto
    next
      case (Inr secret)
      then have "secret \<noteq> []" by (auto simp: jsonString_def split: option.splits json.splits if_splits)
      let ?ob = "e_invoke e [EvRate True] (mk secret)"
      let ?h = "[EvRate True, EvInvoke (mk secret) ?ob]"
      obtain es' where es: "es = EvRate True # EvInvoke (mk secret) ?ob # es'"
        and run: "serve e (case ?ob of Some (ObjError er) \<Rightarrow> Respond (telegramError er) | _ \<Rightarrow> answerAuthState) ?h = (es', Some r)"
        using assms(2) t allowed Inr by (auto simp: launchAuthMutation_def)
      have "invoked es' = []"
      proof (cases "\<exists>er. ?ob = Some (ObjError er)")
        case True
        then show ?thesis using run by auto
      next
        case False
        then have "serve e answerAuthState ?h = (es', Some r)" using run by (auto split: option.splits td_object.splits)
        then show ?thesis by (rule inv)
      qed
      then show ?thesis using Inr \<open>secret \<noteq> []\<close> es by blast
    qed
  qed
qed

theorem secrets_limited_witness:
  "\<exists>ob es'. [EvRate True, EvInvoke (CheckAuthenticationCode ''123'') (Some (ObjError (TdError 400 ''PHONE_CODE_INVALID'')))]
     = EvRate True # EvInvoke (CheckAuthenticationCode ''123'') ob # es' \<and> invoked es' = []"
proof -
  let ?req = "(sample_request [])\<lparr>rq_json := Some (JObj [(''code'', JStr ''123'')])\<rparr>"
  let ?er = "TdError 400 ''PHONE_CODE_INVALID''"
  let ?e = "sample_env (Some (ObjError ?er)) ClaimFree"
  have "serve ?e (h_code ?req) [] =
      ([EvRate True, EvInvoke (CheckAuthenticationCode ''123'') (Some (ObjError ?er))], Some (telegramError ?er))"
    by (simp add: h_code_def jsonString_def bodyObject_def sample_env_def launchAuthMutation_def after_event_def)
  then show ?thesis
    using secrets_limited [of "h_code ?req" ?req "''code''" CheckAuthenticationCode ?e]
    by (auto simp: jsonString_def bodyObject_def)
qed

lemma serve_logoutPolls:
  assumes "serve e (logoutPolls n k) h = (es, Some r)"
  shows "\<exists>polls es' h'. es = polls @ es' \<and> serve e k h' = (es', Some r)
    \<and> waited polls \<le> 100 * int n \<and> invoked polls = [] \<and> EvDisableSync \<notin> set polls \<and> (\<forall>x. EvSetAuth x \<notin> set polls)"
  using assms
proof (induction n arbitrary: h es)
  case 0
  then show ?case by (intro exI [of _ "[]"] exI [of _ es] exI [of _ h]) simp
next
  case (Suc n)
  let ?a = "e_auth e h"
  show ?case
  proof (cases "au_state ?a = Closed")
    case True
    then obtain es' where "es = [EvReadAuth ?a] @ es'" "serve e k (h @ [EvReadAuth ?a]) = (es', Some r)"
      using Suc.prems by auto
    then show ?thesis by (intro exI [of _ "[EvReadAuth ?a]"] exI [of _ es'] exI conjI) auto
  next
    case False
    then obtain es1 where es: "es = EvReadAuth ?a # EvSleep 100 # es1"
      "serve e (logoutPolls n k) (h @ [EvReadAuth ?a, EvSleep 100]) = (es1, Some r)"
      using Suc.prems by auto
    from Suc.IH [OF es(2)] obtain polls es' h' where "es1 = polls @ es'" "serve e k h' = (es', Some r)"
      "waited polls \<le> 100 * int n" "invoked polls = []" "EvDisableSync \<notin> set polls" "\<forall>x. EvSetAuth x \<notin> set polls" by blast
    with es(1) show ?thesis
      by (intro exI [of _ "EvReadAuth ?a # EvSleep 100 # polls"] exI [of _ es'] exI [of _ h']) auto
  qed
qed

inductive logout_run :: "event list \<Rightarrow> response \<Rightarrow> bool" where
  not_ready: "au_state a \<noteq> Ready \<Longrightarrow> rs_status r = 409 \<Longrightarrow> logout_run [EvReadAuth a] r"
| refused: "au_state a = Ready \<Longrightarrow> logout_run [EvReadAuth a, EvSetAuth ExpectShutdown,
    EvInvoke LogOut (Some (ObjError er)), EvSetAuth CancelExpectShutdown] (telegramError er)"
| accepted: "au_state a = Ready \<Longrightarrow> \<forall>er. ob \<noteq> Some (ObjError er) \<Longrightarrow> waited polls \<le> 10000 \<Longrightarrow>
    invoked polls = [] \<Longrightarrow> EvDisableSync \<notin> set polls \<Longrightarrow> \<forall>x. EvSetAuth x \<notin> set polls \<Longrightarrow>
    rs_status r = (if au_state z = Closed then 200 else 504) \<Longrightarrow>
    logout_run ([EvReadAuth a, EvSetAuth ExpectShutdown, EvInvoke LogOut ob, EvDisableSync] @ polls @ [EvReadAuth z]) r"

text \<open>Logging out. Without an authorized session nothing happens. The end of the session is announced before
  TDLib is told; a refusal calls the announcement off again and leaves the synchronisation on, an acceptance turns
  the synchronisation off exactly once, and the answer is a success exactly when the state read last was
  \<^verbatim>\<open>closed\<close>, after at most ten seconds of pauses.\<close>

theorem logout_effects:
  assumes "serve e h_logout [] = (es, Some r)"
  shows "logout_run es r"
proof -
  let ?a = "e_auth e []"
  let ?h = "[EvReadAuth ?a, EvSetAuth ExpectShutdown]"
  let ?ob = "e_invoke e ?h LogOut"
  show ?thesis
  proof (cases "au_state ?a = Ready")
    case False
    then show ?thesis
      using assms by (auto simp: h_logout_def serviceError_def jsonResponse_def intro!: logout_run.not_ready)
  next
    case ready: True
    then obtain es' where es: "es = ?h @ EvInvoke LogOut ?ob # es'" and run:
      "serve e (case ?ob of Some (ObjError er) \<Rightarrow> SetAuth CancelExpectShutdown (Respond (telegramError er))
         | _ \<Rightarrow> DisableSync (logoutPolls kPolls logoutEnd)) (?h @ [EvInvoke LogOut ?ob]) = (es', Some r)"
      using assms by (auto simp: h_logout_def)
    show ?thesis
    proof (cases "\<exists>er. ?ob = Some (ObjError er)")
      case True
      then obtain er where ob: "?ob = Some (ObjError er)" by blast
      with run have "es' = [EvSetAuth CancelExpectShutdown]" "r = telegramError er" by auto
      then show ?thesis unfolding es ob using logout_run.refused [OF ready, of er] by simp
    next
      case False
      then have "serve e (DisableSync (logoutPolls kPolls logoutEnd)) (?h @ [EvInvoke LogOut ?ob]) = (es', Some r)"
        using run by (auto split: option.splits td_object.splits)
      then obtain es1 h1 where e1: "es' = EvDisableSync # es1" "serve e (logoutPolls kPolls logoutEnd) h1 = (es1, Some r)"
        by auto
      from serve_logoutPolls [OF e1(2)] obtain polls es2 h2 where
        p: "es1 = polls @ es2" "serve e logoutEnd h2 = (es2, Some r)" "waited polls \<le> 10000" "invoked polls = []"
          "EvDisableSync \<notin> set polls" "\<forall>x. EvSetAuth x \<notin> set polls"
        by (auto simp: kPolls_def)
      have fin: "es2 = [EvReadAuth (e_auth e h2)]"
        "rs_status r = (if au_state (e_auth e h2) = Closed then 200 else 504)"
        using p(2) by (auto simp: logoutEnd_def serviceError_def jsonResponse_def split: if_splits)
      from False have nf: "\<forall>er. ?ob \<noteq> Some (ObjError er)" by blast
      show ?thesis
        unfolding es e1(1) p(1) fin(1)
        using logout_run.accepted [OF ready nf p(3-6) fin(2)] by simp
    qed
  qed
qed

theorem logout_effects_witness:
  "logout_run [EvReadAuth (setState Ready auth_init), EvSetAuth ExpectShutdown, EvInvoke LogOut (Some (ObjError (TdError 500 ''no''))),
     EvSetAuth CancelExpectShutdown] (telegramError (TdError 500 ''no''))"
proof -
  let ?e = "(sample_env (Some (ObjError (TdError 500 ''no''))) ClaimFree)\<lparr>e_auth := (\<lambda>h. setState Ready auth_init)\<rparr>"
  have "au_state (setState Ready auth_init) = Ready" by (simp add: setState_def Let_def)
  then have "serve ?e h_logout [] = ([EvReadAuth (setState Ready auth_init), EvSetAuth ExpectShutdown,
      EvInvoke LogOut (Some (ObjError (TdError 500 ''no''))), EvSetAuth CancelExpectShutdown],
      Some (telegramError (TdError 500 ''no'')))"
    by (simp add: h_logout_def sample_env_def after_event_def)
  then show ?thesis by (rule logout_effects)
qed

end
