(* ===== verification/Surface.thy ===== *)
theory Surface
  imports LoginPage RouteProps
begin

text \<open>
  What the process answers over HTTP: the calls of \<^verbatim>\<open>registerHandler\<close> in \<^verbatim>\<open>src/src/http\<close>, in the order
  \<^verbatim>\<open>main\<close> makes them, each with its path, its constraints and its handler. Which path a pattern of Drogon takes, and
  the values of its placeholders, is the parameter \<open>placed\<close>. The WebSocket endpoint has no filter and checks the
  token itself (\<open>WsRegistry\<close>).
\<close>

datatype served = Api endpoint | HookCreate | HookList | HookDelete string | LoginForm | MetricsPage

record registration =
  rg_path :: string
  rg_constraints :: "http_constraint list"
  rg_serves :: "string list \<Rightarrow> served"

definition arg :: "nat \<Rightarrow> string list \<Rightarrow> string" where
  "arg n xs = (if n < length xs then xs ! n else [])"

section \<open>The registrations\<close>

definition from_spec :: "route_spec \<Rightarrow> (string list \<Rightarrow> served) \<Rightarrow> registration" where
  "from_spec spec f = \<lparr>rg_path = rt_path spec, rg_constraints = constraintsFor spec, rg_serves = f\<rparr>"

definition registerRoutes :: "bool \<Rightarrow> registration list" where
  "registerRoutes session_export_enabled =
     [from_spec (route ''/v1/health'' Get False) (\<lambda>_. Api EpHealth),
      from_spec (route ''/v1/ready'' Get False) (\<lambda>_. Api EpReady)]
     @ (if routeEnabled kAuthSessionExportRoute session_export_enabled
        then [from_spec kAuthSessionExportRoute (\<lambda>_. Api EpExport)] else [])
     @ [from_spec (route ''/v1/auth/state'' Get True) (\<lambda>_. Api EpAuthState),
        from_spec (route ''/v1/auth/session'' Post True) (\<lambda>_. Api EpAuthSession),
        from_spec (route ''/v1/auth/phone'' Post True) (\<lambda>_. Api EpPhone),
        from_spec (route ''/v1/auth/qr'' Post True) (\<lambda>_. Api EpQr),
        from_spec (route ''/v1/auth/code/resend'' Post True) (\<lambda>_. Api EpResend),
        from_spec (route ''/v1/auth/code'' Post True) (\<lambda>_. Api EpCode),
        from_spec (route ''/v1/auth/password'' Post True) (\<lambda>_. Api EpPassword),
        from_spec (route ''/v1/auth/logout'' Post True) (\<lambda>_. Api EpLogout),
        from_spec (route ''/v1/me'' Get True) (\<lambda>_. Api EpMe)]"

definition kMessageFilter :: string where
  "kMessageFilter = ''tgw::http::BearerAuthFilter''"

definition by_hand :: "string \<Rightarrow> string \<Rightarrow> http_method \<Rightarrow> (string list \<Rightarrow> endpoint) \<Rightarrow> registration" where
  "by_hand filter_name path m f =
     \<lparr>rg_path = path, rg_constraints = [ConMethod m, ConFilter filter_name], rg_serves = (\<lambda>xs. Api (f xs))\<rparr>"

definition registerMessageRoutes :: "registration list" where
  "registerMessageRoutes = map (\<lambda>(path, m, f). by_hand kMessageFilter path m f)
     [(''/v1/chats'', Get, \<lambda>_. EpChats),
      (''/v1/chats/{chatId}/messages'', Get, \<lambda>xs. EpHistory (arg 0 xs)),
      (''/v1/chats/{chatId}/messages'', Post, \<lambda>xs. EpSend (arg 0 xs)),
      (''/v1/chats/{chatId}/messages/read'', Post, \<lambda>xs. EpRead (arg 0 xs)),
      (''/v1/files/{fileId}'', Get, \<lambda>xs. EpFile (arg 0 xs)),
      (''/v1/chats/{chatId}/files'', Post, \<lambda>xs. EpUpload (arg 0 xs)),
      (''/v1/chats/{chatId}/messages/{messageId}'', Patch, \<lambda>xs. EpEdit (arg 0 xs) (arg 1 xs)),
      (''/v1/chats/{chatId}/messages'', Delete, \<lambda>xs. EpDelete (arg 0 xs)),
      (''/v1/chats/{chatId}/messages/forward'', Post, \<lambda>xs. EpForward (arg 0 xs)),
      (''/v1/chats/{chatId}/search'', Get, \<lambda>xs. EpSearch (arg 0 xs)),
      (''/v1/search'', Get, \<lambda>_. EpSearchAll),
      (''/v1/chats/{chatId}/messages/{messageId}/reactions'', Post, \<lambda>xs. EpReact (arg 0 xs) (arg 1 xs)),
      (''/v1/chats/{chatId}/messages/{messageId}/reactions'', Delete, \<lambda>xs. EpUnreact (arg 0 xs) (arg 1 xs))]"

definition kDirectoryFilter :: string where
  "kDirectoryFilter = ''tgw::http::BearerAuthFilter''"

definition registerDirectoryRoutes :: "registration list" where
  "registerDirectoryRoutes = map (\<lambda>(path, m, f). by_hand kDirectoryFilter path m f)
     [(''/v1/resolve'', Get, \<lambda>_. EpResolve),
      (''/v1/chats/{chatId}'', Get, \<lambda>xs. EpChat (arg 0 xs)),
      (''/v1/users/{userId}'', Get, \<lambda>xs. EpUser (arg 0 xs)),
      (''/v1/chats/join'', Post, \<lambda>_. EpJoin),
      (''/v1/chats/{chatId}/members'', Get, \<lambda>xs. EpMembers (arg 0 xs)),
      (''/v1/contacts'', Get, \<lambda>_. EpContacts)]"

definition registerWebhookRoutes :: "registration list" where
  "registerWebhookRoutes =
     [from_spec (route ''/v1/webhooks'' Post True) (\<lambda>_. HookCreate),
      from_spec (route ''/v1/webhooks'' Get True) (\<lambda>_. HookList),
      from_spec (route ''/v1/webhooks/{id}'' Delete True) (\<lambda>xs. HookDelete (arg 0 xs))]"

definition registerLoginUi :: "registration list" where
  "registerLoginUi = [\<lparr>rg_path = ''/ui'', rg_constraints = [ConMethod Get], rg_serves = (\<lambda>_. LoginForm)\<rparr>]"

definition registerMetricsRoutes :: "registration list" where
  "registerMetricsRoutes = [\<lparr>rg_path = ''/metrics'', rg_constraints = [ConMethod Get], rg_serves = (\<lambda>_. MetricsPage)\<rparr>]"

text \<open>All of them, as \<^verbatim>\<open>main\<close> calls them.\<close>

definition registrations :: "bool \<Rightarrow> bool \<Rightarrow> registration list" where
  "registrations session_export_enabled webhooks_enabled =
     registerRoutes session_export_enabled @ registerMessageRoutes @ registerDirectoryRoutes
     @ (if webhooks_enabled then registerWebhookRoutes else []) @ registerLoginUi @ registerMetricsRoutes"

section \<open>Drogon's choice\<close>

text \<open>A literal path is taken whatever the case of its letters; a pattern takes paths that begin with what stands
  before its first placeholder.\<close>

definition literal_part :: "string \<Rightarrow> string" where
  "literal_part pattern = takeWhile (\<lambda>c. c \<noteq> CHR ''{'') pattern"

definition router_law :: "(string \<Rightarrow> string \<Rightarrow> string list option) \<Rightarrow> bool" where
  "router_law placed \<longleftrightarrow> (\<forall>pattern path args. placed pattern path = Some args \<longrightarrow>
     (\<exists>rest. lowered path = lowered (literal_part pattern) @ rest \<and> (CHR ''{'' \<notin> set pattern \<longrightarrow> rest = [])))"

text \<open>A request reaches a handler if its method is one of the constraints, \<^verbatim>\<open>HEAD\<close> counting as \<^verbatim>\<open>GET\<close>, its path is
  taken by the pattern, and the filter named by the constraints lets it pass.\<close>

definition reaches ::
  "(string \<Rightarrow> string \<Rightarrow> string list option) \<Rightarrow> (string \<Rightarrow> string) \<Rightarrow> token_entry list \<Rightarrow> registration \<Rightarrow> request \<Rightarrow> bool" where
  "reaches placed sha256 known r req \<longleftrightarrow>
     list_ex (\<lambda>c. case c of ConMethod m \<Rightarrow> rq_method req = m \<or> m = Get \<and> rq_method req = Head | ConFilter _ \<Rightarrow> False)
       (rg_constraints r)
     \<and> placed (rg_path r) (rq_path req) \<noteq> None
     \<and> (ConFilter kBearerFilterName \<in> set (rg_constraints r) \<longrightarrow> doFilter sha256 known req = None)"

text \<open>What a route asks of a token, read off its pattern and its method.\<close>

definition needed :: "registration \<Rightarrow> scope" where
  "needed r = (if take 9 (rg_path r) = ''/v1/auth/'' \<or> take 12 (rg_path r) = ''/v1/webhooks'' then ScopeAdmin
     else if ConMethod Get \<in> set (rg_constraints r) then ScopeRead else ScopeWrite)"

definition open_paths :: "string list" where
  "open_paths = [''/v1/health'', ''/v1/ready'', ''/ui'', ''/metrics'']"

section \<open>The scope of a path is the scope of its pattern\<close>

definition resource_prefixes :: "string list" where
  "resource_prefixes = [''/v1/chats/'', ''/v1/files/'', ''/v1/users/'', ''/v1/webhooks/'']"

lemma lowered_tail: "lowered path = xs @ rest \<Longrightarrow> \<exists>r. rest = lowered r"
  by (metis append_eq_conv_conj drop_map)

lemma scope_literal: "lowered p = lowered q \<Longrightarrow> requiredScopeFor p b = requiredScopeFor q b"
  by (simp add: requiredScopeFor_def isAuthPath_iff isWebhooksPath_iff)

lemma lowered_prefixes: "map lowered resource_prefixes = resource_prefixes"
  by code_simp

lemma scope_below_prefix:
  assumes "pre \<in> set resource_prefixes" "lowered p = lowered pre @ rest"
  shows "requiredScopeFor p b = (if pre = ''/v1/webhooks/'' then ScopeAdmin else if b then ScopeRead else ScopeWrite)"
proof -
  have "lowered pre = pre"
    using assms(1) lowered_prefixes by (auto simp: resource_prefixes_def)
  then have "lowered p = pre @ rest" using assms(2) by simp
  moreover from lowered_tail [OF assms(2)] obtain r where "rest = lowered r" by blast
  ultimately show ?thesis
    using assms(1) by (auto simp: resource_prefixes_def requiredScopeFor_def isAuthPath_iff isWebhooksPath_iff)
qed

lemma pattern_split: "lowered pattern = lowered (literal_part pattern) @ lowered (dropWhile (\<lambda>c. c \<noteq> CHR ''{'') pattern)"
  by (simp add: literal_part_def flip: map_append)

lemma scope_of_pattern:
  assumes "router_law placed" "placed pattern path \<noteq> None"
    and "CHR ''{'' \<notin> set pattern \<or> literal_part pattern \<in> set resource_prefixes"
  shows "requiredScopeFor path b = requiredScopeFor pattern b"
proof -
  obtain rest where r: "lowered path = lowered (literal_part pattern) @ rest" "CHR ''{'' \<notin> set pattern \<longrightarrow> rest = []"
    using assms(1,2) unfolding router_law_def by blast
  show ?thesis
  proof (cases "CHR ''{'' \<in> set pattern")
    case False
    then have "literal_part pattern = pattern" unfolding literal_part_def by (intro takeWhile_eq_all_conv [THEN iffD2]) auto
    with False r show ?thesis by (intro scope_literal) simp
  next
    case True
    with assms(3) have pre: "literal_part pattern \<in> set resource_prefixes" by simp
    show ?thesis using scope_below_prefix [OF pre r(1)] scope_below_prefix [OF pre pattern_split] by simp
  qed
qed

section \<open>The registrations, checked one by one\<close>

definition registration_ok :: "registration \<Rightarrow> bool" where
  "registration_ok r \<longleftrightarrow>
     (case rg_constraints r of
        [ConMethod m] \<Rightarrow> m = Get \<and> rg_path r \<in> set open_paths
      | [ConMethod m, ConFilter f] \<Rightarrow> m \<noteq> Head \<and> f = kBearerFilterName \<and> rg_path r \<notin> set open_paths
          \<and> requiredScopeFor (rg_path r) (m = Get) = needed r
      | _ \<Rightarrow> False)
     \<and> (CHR ''{'' \<notin> set (rg_path r) \<or> literal_part (rg_path r) \<in> set resource_prefixes)"

lemma registrations_ok: "list_all registration_ok (registrations x w)"
proof -
  have "list_all registration_ok (registerRoutes True @ registerRoutes False)" by code_simp
  moreover have "list_all registration_ok registerMessageRoutes" by code_simp
  moreover have "list_all registration_ok (registerDirectoryRoutes @ registerWebhookRoutes)" by code_simp
  moreover have "list_all registration_ok (registerLoginUi @ registerMetricsRoutes)" by code_simp
  ultimately show ?thesis by (cases x) (simp_all add: registrations_def)
qed

lemma registration_ok_shape:
  assumes "registration_ok r"
  obtains "rg_constraints r = [ConMethod Get]" "rg_path r \<in> set open_paths"
  | m where "rg_constraints r = [ConMethod m, ConFilter kBearerFilterName]" "m \<noteq> Head"
      "rg_path r \<notin> set open_paths" "requiredScopeFor (rg_path r) (m = Get) = needed r"
      "CHR ''{'' \<notin> set (rg_path r) \<or> literal_part (rg_path r) \<in> set resource_prefixes"
proof (cases "rg_constraints r")
  case Nil
  with assms show thesis by (simp add: registration_ok_def)
next
  case (Cons c cs)
  show thesis
  proof (cases c)
    case (ConFilter f)
    with Cons assms show thesis by (simp add: registration_ok_def)
  next
    case m: (ConMethod m)
    show thesis
    proof (cases cs)
      case Nil
      with Cons m assms that(1) show thesis by (simp add: registration_ok_def)
    next
      case (Cons d ds)
      with assms m \<open>rg_constraints r = c # cs\<close> that(2) show thesis
        by (cases d; cases ds) (simp_all add: registration_ok_def)
    qed
  qed
qed

lemma registration_cases:
  assumes "r \<in> set (registrations x w)"
  obtains (unguarded) "rg_constraints r = [ConMethod Get]" "rg_path r \<in> set open_paths"
  | (guarded) m where "rg_constraints r = [ConMethod m, ConFilter kBearerFilterName]" "m \<noteq> Head"
      "rg_path r \<notin> set open_paths" "requiredScopeFor (rg_path r) (m = Get) = needed r"
      "CHR ''{'' \<notin> set (rg_path r) \<or> literal_part (rg_path r) \<in> set resource_prefixes"
proof -
  have "registration_ok r" using assms registrations_ok [of x w] by (simp add: list_all_iff)
  then show thesis
    using unguarded guarded by (elim registration_ok_shape)
qed

lemma guarded_or_open:
  assumes "router_law placed" "r \<in> set (registrations export_enabled webhooks_enabled)" "reaches placed sha256 known r req"
  shows "rg_path r \<in> set open_paths
    \<or> (\<exists>tok scopes. rq_header req ''Authorization'' = ''Bearer '' @ tok \<and> tok \<noteq> []
         \<and> verify sha256 known tok = Some scopes \<and> scopeAllows scopes (needed r))"
  using assms(2)
proof (cases rule: registration_cases)
  case unguarded
  then show ?thesis by simp
next
  case (guarded m)
  have "rq_method req = m \<or> m = Get \<and> rq_method req = Head" "placed (rg_path r) (rq_path req) \<noteq> None"
      and pass: "doFilter sha256 known req = None"
    using assms(3) by (simp_all add: reaches_def guarded(1))
  then have "requiredScope req = needed r"
    using scope_of_pattern [OF assms(1) _ guarded(5)] guarded(2,4) by (auto simp: requiredScope_def)
  with pass have "evaluateBearerAuth (rq_header req ''Authorization'') (needed r) (verify sha256 known) = Allowed"
    by (simp add: filter_passes)
  then show ?thesis by (auto simp: evaluate_Allowed kBearerPrefix_def)
qed

text \<open>C4: Nothing but the two probes, the login form and the metrics is open: a request that reaches the handler of any other
  route, in whatever spelling of its path, carries a bearer token that is known and has the scope the route's
  pattern and method ask for: admin below \<^verbatim>\<open>/v1/auth/\<close> and for the webhooks, otherwise read for a \<^verbatim>\<open>GET\<close> and write for
  what changes something.\<close>

theorem surface_guarded:
  assumes "router_law placed" "r \<in> set (registrations export_enabled webhooks_enabled)" "reaches placed sha256 known r req"
  shows "rg_path r \<in> set open_paths
    \<or> (\<exists>tok scopes. rq_header req ''Authorization'' = ''Bearer '' @ tok \<and> tok \<noteq> []
         \<and> verify sha256 known tok = Some scopes \<and> scopeAllows scopes (needed r))"
  by (rule guarded_or_open [OF assms])

text \<open>The list itself: no two routes share a path and a method; those without a filter are exactly the four open ones, and
  every filter is the one that checks the token; the export of the session is registered only if the configuration
  has it enabled, the webhooks only with theirs.\<close>

theorem surface_listed:
  "distinct (map (\<lambda>r. (rg_path r, hd (rg_constraints r))) (registrations export_enabled webhooks_enabled))
   \<and> map rg_path (filter (\<lambda>r. length (rg_constraints r) = 1) (registrations export_enabled webhooks_enabled)) = open_paths
   \<and> length (registrations export_enabled webhooks_enabled) = 32 + (if export_enabled then 1 else 0) + (if webhooks_enabled then 3 else 0)
   \<and> (''/v1/auth/session/export'' \<in> rg_path ` set (registrations export_enabled webhooks_enabled) \<longleftrightarrow> export_enabled)
   \<and> (''/v1/webhooks'' \<in> rg_path ` set (registrations export_enabled webhooks_enabled) \<longleftrightarrow> webhooks_enabled)"
  by (cases export_enabled; cases webhooks_enabled; simp only:) code_simp+

text \<open>A router for the witness: literal paths only.\<close>

definition sample_placed :: "string \<Rightarrow> string \<Rightarrow> string list option" where
  "sample_placed pattern path = (if CHR ''{'' \<notin> set pattern \<and> lowered path = lowered pattern then Some [] else None)"

lemma sample_placed_law: "router_law sample_placed"
proof -
  have "literal_part pattern = pattern" if "CHR ''{'' \<notin> set pattern" for pattern
    unfolding literal_part_def using that by (intro takeWhile_eq_all_conv [THEN iffD2]) auto
  then show ?thesis by (auto simp: router_law_def sample_placed_def split: if_splits)
qed

lemma sample_reaches:
  "reaches sample_placed id (load id [''tok read'']) (by_hand kDirectoryFilter ''/v1/contacts'' Get (\<lambda>_. EpContacts))
     \<lparr>rq_method = Head, rq_path = ''/V1/Contacts'', rq_header = (\<lambda>_. ''Bearer tok''), rq_param = (\<lambda>_. []), rq_json = None\<rparr>"
  (is "reaches _ _ _ _ ?req")
proof -
  have "doFilter id (load id [''tok read'']) ?req = None" "sample_placed ''/v1/contacts'' ''/V1/Contacts'' = Some []" by code_simp+
  then show ?thesis by (simp add: reaches_def by_hand_def)
qed

theorem surface_guarded_witness:
  "\<exists>scopes. verify id (load id [''tok read'']) ''tok'' = Some scopes \<and> scopeAllows scopes ScopeRead"
proof -
  let ?r = "by_hand kDirectoryFilter ''/v1/contacts'' Get (\<lambda>_. EpContacts)"
  let ?req = "\<lparr>rq_method = Head, rq_path = ''/V1/Contacts'', rq_header = (\<lambda>_. ''Bearer tok''), rq_param = (\<lambda>_. []), rq_json = None\<rparr>"
  have r: "?r \<in> set (registrations False False)" by (simp add: registrations_def registerDirectoryRoutes_def)
  from surface_guarded [OF sample_placed_law r sample_reaches] show ?thesis
    by (simp add: by_hand_def open_paths_def needed_def)
qed

end
