(* ===== verification/UploadCleanup.thy ===== *)
theory UploadCleanup
  imports Prelude
begin

text \<open>
  The removal of old uploads: \<^verbatim>\<open>src/src/http/upload_cleanup.{hpp,cpp}\<close>. A directory is the list of its
  entries in the order the iterator yields them; times are nanoseconds of the file clock. What the file system
  refuses is the environment: the iterator may fail after some entries, which ends it, and the time of an entry
  or its removal may be refused.
\<close>

record dir_entry =
  en_name :: string
  en_mtime :: int

record sweep_os =
  so_yields :: nat
  so_stat :: "string \<Rightarrow> bool"
  so_remove :: "string \<Rightarrow> bool"

definition seconds :: "int \<Rightarrow> int" where
  "seconds n = n * 1000000000"

text \<open>\<^verbatim>\<open>fs::remove_all\<close> of one entry.\<close>

definition remove_all :: "string \<Rightarrow> dir_entry list \<Rightarrow> dir_entry list" where
  "remove_all name dir = filter (\<lambda>x. en_name x \<noteq> name) dir"

text \<open>\<^verbatim>\<open>sweepOnce\<close>: the directory afterwards and the number the log line reports, which counts refused
  removals too.\<close>

fun sweep_loop :: "sweep_os \<Rightarrow> int \<Rightarrow> int \<Rightarrow> dir_entry list \<Rightarrow> dir_entry list \<Rightarrow> nat \<Rightarrow> dir_entry list \<times> nat" where
  "sweep_loop w now ttl [] dir removed = (dir, removed)"
| "sweep_loop w now ttl (e # es) dir removed =
     (if \<not> so_stat w (en_name e) then sweep_loop w now ttl es dir removed
      else if ttl < now - en_mtime e
      then sweep_loop w now ttl es (if so_remove w (en_name e) then remove_all (en_name e) dir else dir) (Suc removed)
      else sweep_loop w now ttl es dir removed)"

definition sweepOnce :: "sweep_os \<Rightarrow> int \<Rightarrow> int \<Rightarrow> dir_entry list \<Rightarrow> dir_entry list \<times> nat" where
  "sweepOnce w now ttl dir = sweep_loop w now ttl (take (so_yields w) dir) dir 0"

text \<open>\<^verbatim>\<open>startUploadCleanup\<close> with the hour \<^verbatim>\<open>main\<close> passes: a sweep at the start of the loop and one every ten minutes
  after it; \<open>fresh i\<close> are the uploads that came between sweep \<open>i\<close> and the one before it.\<close>

definition kSweepInterval :: int where
  "kSweepInterval = seconds 600"

definition uploadTtl :: int where
  "uploadTtl = seconds 3600"

fun cleanup_run :: "(nat \<Rightarrow> sweep_os) \<Rightarrow> (nat \<Rightarrow> dir_entry list) \<Rightarrow> int \<Rightarrow> nat \<Rightarrow> dir_entry list \<Rightarrow> dir_entry list" where
  "cleanup_run ws fresh start 0 dir = dir"
| "cleanup_run ws fresh start (Suc n) dir =
     fst (sweepOnce (ws n) (start + int n * kSweepInterval) uploadTtl (cleanup_run ws fresh start n dir @ fresh n))"

section \<open>One sweep\<close>

definition swept :: "sweep_os \<Rightarrow> int \<Rightarrow> int \<Rightarrow> dir_entry \<Rightarrow> bool" where
  "swept w now ttl e \<longleftrightarrow> so_stat w (en_name e) \<and> ttl < now - en_mtime e \<and> so_remove w (en_name e)"

lemma sweep_loop_spec:
  "sweep_loop w now ttl es dir n =
    (filter (\<lambda>x. en_name x \<notin> en_name ` set (filter (swept w now ttl) es)) dir,
     n + length (filter (\<lambda>e. so_stat w (en_name e) \<and> ttl < now - en_mtime e) es))"
proof (induction w now ttl es dir n rule: sweep_loop.induct)
  case (2 w now ttl e es dir removed)
  then show ?case
    by (auto simp: swept_def remove_all_def intro!: filter_cong)
qed simp

lemma names_inj: "distinct (map en_name dir) \<Longrightarrow> x \<in> set dir \<Longrightarrow> y \<in> set dir \<Longrightarrow> en_name x = en_name y \<Longrightarrow> x = y"
  by (auto simp: distinct_map dest: inj_onD)

text \<open>a sweep removes exactly the entries that the iterator reached, whose time could be read, which are older than
  the limit and which the file system let go; every other one stays, in its place.\<close>

theorem sweep_exact:
  assumes "distinct (map en_name dir)"
  shows "fst (sweepOnce w now ttl dir) =
    filter (\<lambda>e. \<not> (e \<in> set (take (so_yields w) dir) \<and> so_stat w (en_name e) \<and> ttl < now - en_mtime e
      \<and> so_remove w (en_name e))) dir"
proof -
  have "en_name e \<in> en_name ` set (filter (swept w now ttl) (take (so_yields w) dir))
      \<longleftrightarrow> e \<in> set (take (so_yields w) dir) \<and> swept w now ttl e" if "e \<in> set dir" for e
    using names_inj [OF assms that] set_take_subset [of "so_yields w" dir] by auto
  then show ?thesis
    unfolding sweepOnce_def sweep_loop_spec by (auto simp: swept_def intro!: filter_cong)
qed

lemma sweepOnce_keeps:
  assumes "e \<in> set dir" "\<forall>x \<in> set dir. en_name x = en_name e \<longrightarrow> x = e" "now \<le> en_mtime e + ttl"
  shows "e \<in> set (fst (sweepOnce w now ttl dir))"
proof -
  have "x = e" if "x \<in> set (take (so_yields w) dir)" "en_name x = en_name e" for x
    using assms(2) that by (blast dest: in_set_takeD)
  then have "en_name e \<notin> en_name ` set (filter (swept w now ttl) (take (so_yields w) dir))"
    using assms(3) by (auto simp: swept_def)
  then show ?thesis using assms(1) by (simp add: sweepOnce_def sweep_loop_spec)
qed

lemma sweepOnce_removes:
  assumes "length dir \<le> so_yields w" "so_stat w (en_name e)" "so_remove w (en_name e)" "en_mtime e + ttl < now"
  shows "e \<notin> set (fst (sweepOnce w now ttl dir))"
  using assms by (auto simp: sweepOnce_def sweep_loop_spec swept_def)

lemma sweepOnce_subset: "e \<in> set (fst (sweepOnce w now ttl dir)) \<Longrightarrow> e \<in> set dir"
  by (auto simp: sweepOnce_def sweep_loop_spec)

section \<open>The life of an upload\<close>

lemma cleanup_names:
  assumes "\<forall>x \<in> set dir. en_name x = en_name e \<longrightarrow> x = e" "\<forall>i. \<forall>x \<in> set (fresh i). en_name x \<noteq> en_name e"
  shows "\<forall>x \<in> set (cleanup_run ws fresh start n dir). en_name x = en_name e \<longrightarrow> x = e"
proof (induction n)
  case (Suc n)
  have "x = e" if "x \<in> set (cleanup_run ws fresh start (Suc n) dir)" "en_name x = en_name e" for x
  proof -
    have "x \<in> set (fst (sweepOnce (ws n) (start + int n * kSweepInterval) uploadTtl
        (cleanup_run ws fresh start n dir @ fresh n)))"
      using that(1) by (simp only: cleanup_run.simps)
    then have "x \<in> set (cleanup_run ws fresh start n dir @ fresh n)" by (rule sweepOnce_subset)
    moreover have "x \<notin> set (fresh n)" using assms(2) that(2) by blast
    ultimately have "x \<in> set (cleanup_run ws fresh start n dir)" by simp
    then show ?thesis using Suc.IH that(2) by blast
  qed
  then show ?case by blast
qed (use assms(1) in simp)

lemma cleanup_keeps:
  assumes "e \<in> set dir" "\<forall>x \<in> set dir. en_name x = en_name e \<longrightarrow> x = e" "\<forall>i. \<forall>x \<in> set (fresh i). en_name x \<noteq> en_name e"
    and "start + int n * kSweepInterval \<le> en_mtime e + uploadTtl + kSweepInterval"
  shows "e \<in> set (cleanup_run ws fresh start n dir)"
  using assms(4)
proof (induction n)
  case (Suc n)
  then have t: "start + int n * kSweepInterval \<le> en_mtime e + uploadTtl" by (simp add: algebra_simps)
  then have "e \<in> set (cleanup_run ws fresh start n dir)"
    using Suc.IH by (simp add: kSweepInterval_def seconds_def)
  moreover have "\<forall>x \<in> set (cleanup_run ws fresh start n dir @ fresh n). en_name x = en_name e \<longrightarrow> x = e"
    using cleanup_names [OF assms(2,3)] assms(3) by fastforce
  ultimately show ?case using t by (simp add: sweepOnce_keeps)
qed (use assms(1) in simp)

lemma cleanup_gone:
  assumes "\<forall>i. \<forall>x \<in> set (fresh i). en_name x \<noteq> en_name e"
    and "\<forall>i. so_stat (ws i) (en_name e) \<and> so_remove (ws i) (en_name e)
      \<and> length (cleanup_run ws fresh start i dir @ fresh i) \<le> so_yields (ws i)"
    and "en_mtime e + uploadTtl < start + int k * kSweepInterval" "k < n"
  shows "e \<notin> set (cleanup_run ws fresh start n dir)"
  using assms(4)
proof (induction n)
  case (Suc n)
  show ?case
  proof (cases "k = n")
    case True
    then show ?thesis using assms(2,3) sweepOnce_removes by simp
  next
    case False
    then have "e \<notin> set (cleanup_run ws fresh start n dir @ fresh n)" using Suc assms(1) by auto
    then show ?thesis by (auto dest: sweepOnce_subset)
  qed
qed simp

text \<open>The first sweep after the limit comes less than an interval later.\<close>

lemma sweep_comes:
  assumes "start \<le> limit"
  shows "\<exists>k. limit < start + int k * kSweepInterval \<and> start + int k * kSweepInterval \<le> limit + kSweepInterval"
proof -
  let ?k = "nat ((limit - start) div kSweepInterval) + 1"
  have p: "0 < kSweepInterval" by (simp add: kSweepInterval_def seconds_def)
  then have "int ?k = (limit - start) div kSweepInterval + 1"
    using assms by (simp add: pos_imp_zdiv_nonneg_iff)
  then have "int ?k * kSweepInterval = limit - start - (limit - start) mod kSweepInterval + kSweepInterval"
    by (simp add: algebra_simps minus_mod_eq_mult_div)
  then show ?thesis
    using pos_mod_bound [OF p, of "limit - start"] pos_mod_sign [OF p, of "limit - start"]
    by (intro exI [of _ ?k]) linarith
qed

text \<open>an upload lives at least an hour and at most an hour and ten minutes: whatever the file system refuses and
  whatever other uploads come, no sweep up to an hour after its time takes it; and where the file system refuses
  nothing, a sweep no later than seventy minutes after its time does, for good.\<close>

theorem upload_lifetime:
  assumes "e \<in> set dir" "\<forall>x \<in> set dir. en_name x = en_name e \<longrightarrow> x = e" "\<forall>i. \<forall>x \<in> set (fresh i). en_name x \<noteq> en_name e"
    and "start \<le> en_mtime e + seconds 3600"
  shows "(\<forall>n. start + int n * kSweepInterval \<le> en_mtime e + seconds 3600 \<longrightarrow> e \<in> set (cleanup_run ws fresh start (Suc n) dir))
    \<and> ((\<forall>i. so_stat (ws i) (en_name e) \<and> so_remove (ws i) (en_name e)
          \<and> length (cleanup_run ws fresh start i dir @ fresh i) \<le> so_yields (ws i)) \<longrightarrow>
        (\<exists>k. start + int k * kSweepInterval \<le> en_mtime e + seconds 4200
           \<and> (\<forall>n > k. e \<notin> set (cleanup_run ws fresh start n dir))))"
proof (intro conjI allI impI)
  fix n
  assume "start + int n * kSweepInterval \<le> en_mtime e + seconds 3600"
  then have "start + int (Suc n) * kSweepInterval \<le> en_mtime e + uploadTtl + kSweepInterval"
    by (simp add: uploadTtl_def algebra_simps)
  then show "e \<in> set (cleanup_run ws fresh start (Suc n) dir)" by (rule cleanup_keeps [OF assms(1-3)])
next
  assume ok: "\<forall>i. so_stat (ws i) (en_name e) \<and> so_remove (ws i) (en_name e)
      \<and> length (cleanup_run ws fresh start i dir @ fresh i) \<le> so_yields (ws i)"
  obtain k where k: "en_mtime e + seconds 3600 < start + int k * kSweepInterval"
      "start + int k * kSweepInterval \<le> en_mtime e + seconds 3600 + kSweepInterval"
    using sweep_comes [OF assms(4)] by blast
  show "\<exists>k. start + int k * kSweepInterval \<le> en_mtime e + seconds 4200
      \<and> (\<forall>n > k. e \<notin> set (cleanup_run ws fresh start n dir))"
  proof (intro exI [of _ k] conjI allI impI)
    show "start + int k * kSweepInterval \<le> en_mtime e + seconds 4200"
      using k(2) by (simp add: kSweepInterval_def seconds_def)
    show "e \<notin> set (cleanup_run ws fresh start n dir)" if "k < n" for n
      using k(1) that by (intro cleanup_gone [OF assms(3) ok]) (simp_all add: uploadTtl_def)
  qed
qed

theorem upload_lifetime_witness:
  "\<lparr>en_name = ''a'', en_mtime = 0\<rparr> \<in> set (cleanup_run (\<lambda>_. \<lparr>so_yields = 1, so_stat = (\<lambda>_. True), so_remove = (\<lambda>_. True)\<rparr>)
     (\<lambda>_. []) 0 (Suc 0) [\<lparr>en_name = ''a'', en_mtime = 0\<rparr>])"
  using upload_lifetime [of "\<lparr>en_name = ''a'', en_mtime = 0\<rparr>" "[\<lparr>en_name = ''a'', en_mtime = 0\<rparr>]" "\<lambda>_. []" 0
    "\<lambda>_. \<lparr>so_yields = 1, so_stat = (\<lambda>_. True), so_remove = (\<lambda>_. True)\<rparr>"]
  by (auto simp: seconds_def simp del: cleanup_run.simps)

theorem sweep_exact_witness:
  "fst (sweepOnce \<lparr>so_yields = 2, so_stat = (\<lambda>_. True), so_remove = (\<lambda>_. True)\<rparr> 10 5
     [\<lparr>en_name = ''a'', en_mtime = 1\<rparr>, \<lparr>en_name = ''b'', en_mtime = 7\<rparr>]) = [\<lparr>en_name = ''b'', en_mtime = 7\<rparr>]"
  by (subst sweep_exact) simp_all

end
