(* ===== verification/MainStart.thy ===== *)
theory MainStart
  imports Process WebhookStore Surface UploadCleanup
begin

text \<open>
  The start of the process, \<^verbatim>\<open>main\<close> of \<^verbatim>\<open>src/src/main.cpp\<close> up to the server's loop, as the list of what it does in
  its order, and the receiver thread, which from its own start on takes updates between any two of main's
  actions. What the operating system, S3, Kafka's library and TDLib answer is in the input.
\<close>

section \<open>The real transport\<close>

text \<open>\<^verbatim>\<open>src/src/bridge/real_transport.cpp\<close>: each operation is one call of TDLib's \<^verbatim>\<open>ClientManager\<close>.\<close>

datatype manager_call = ExecuteSetLogVerbosityLevel int | CreateClientId | ManagerSend int u64 td_function

definition configureGlobalLogging :: "int \<Rightarrow> manager_call" where
  "configureGlobalLogging verbosity = ExecuteSetLogVerbosityLevel verbosity"

definition transport_createClientId :: manager_call where
  "transport_createClientId = CreateClientId"

definition transport_send :: "int \<Rightarrow> u64 \<Rightarrow> td_function \<Rightarrow> manager_call" where
  "transport_send client rid fn = ManagerSend client rid fn"

record manager_response =
  mr_client_id :: int
  mr_request_id :: u64
  mr_object :: "td_object option"

text \<open>What the library returned, in the bridge's own structure.\<close>

definition transport_receive :: "manager_response \<Rightarrow> int \<times> u64 \<times> td_object option" where
  "transport_receive raw = (mr_client_id raw, mr_request_id raw, mr_object raw)"

section \<open>What main does\<close>

datatype started_thread =
  S3Loop | KafkaWorker | DispatcherLoop | DispatcherWorker | Receiver | SignalThread | ServerThreads

datatype start_action =
    BlockSignals
  | CallManager manager_call
  | LoadTokens "string list"
  | RestoreFromS3 bool
  | UseSession binlog
  | CreateKafka "kafka_sink option"
  | MakeRouter string
  | SetMessageSendTracker
  | SetEventPublisher
  | MakeRegistry string "webhook list"
  | StartDispatcher nat bool
  | SetWebhookHook
  | StartS3Sync int
  | InstallOnReady
  | SetOnConnectionReady
  | RunEveryOnline int
  | InstallOnTermination
  | StartBridge
  | StartSignalThread
  | AskVersion
  | GiveParameters tdlib_parameters
  | CreateUploadDir string
  | SetServerLimits int int int
  | RegisterHandlers "registration list"
  | SetMaxPendingBytes int
  | SetWsSessionId string
  | StartUploadCleanup string int
  | RunServer string int

definition makeParts :: "config \<Rightarrow> kafka_sink option \<Rightarrow> start_action list" where
  "makeParts c kafka = [CreateKafka kafka, MakeRouter (cf_session_id c)]
     @ (if cf_humanize_typing c then [SetMessageSendTracker] else [])
     @ (if kafka \<noteq> None then [SetEventPublisher] else [])
     @ [CallManager transport_createClientId]"

definition makeWebhooks :: "config \<Rightarrow> webhook list \<Rightarrow> start_action list" where
  "makeWebhooks c hooks =
     (if cf_webhooks_enabled c
      then [MakeRegistry (webhookKey (s3_key (cf_s3 c))) hooks,
            StartDispatcher (nat (cf_webhook_queue_max c)) (cf_webhook_ssrf_guard c), SetWebhookHook]
      else [])"

definition setCallbacks :: "config \<Rightarrow> start_action list" where
  "setCallbacks c = (if s3_enabled (cf_s3 c) then [StartS3Sync (cf_s3_sync_interval_seconds c)] else [])
     @ [InstallOnReady]
     @ (if cf_keep_online c then [SetOnConnectionReady, RunEveryOnline (cf_keep_online_interval_seconds c)] else [])
     @ [InstallOnTermination]"

definition bootActions :: "config \<Rightarrow> start_action list" where
  "bootActions c = [AskVersion, GiveParameters (buildParameters c)]"

definition serve_actions :: "config \<Rightarrow> start_action list" where
  "serve_actions c =
     (let upload_dir = cf_files_directory c @ ''/uploads''
      in [CreateUploadDir upload_dir,
          SetServerLimits (cf_max_upload_bytes c) (cf_max_memory_body_bytes c) (cf_idle_connection_timeout_seconds c),
          RegisterHandlers (registerRoutes (cf_session_export_enabled c)), RegisterHandlers registerMessageRoutes,
          RegisterHandlers registerDirectoryRoutes, SetMaxPendingBytes (cf_ws_max_pending_bytes c),
          SetWsSessionId (cf_session_id c)]
         @ (if cf_webhooks_enabled c then [RegisterHandlers registerWebhookRoutes] else [])
         @ [RegisterHandlers registerLoginUi, RegisterHandlers registerMetricsRoutes,
            StartUploadCleanup upload_dir uploadTtl, RunServer (cf_listen_address c) (cf_listen_port c)])"

definition before_bridge :: "config \<Rightarrow> kafka_sink option \<Rightarrow> webhook list \<Rightarrow> start_action list" where
  "before_bridge c kafka hooks = makeParts c kafka @ makeWebhooks c hooks @ setCallbacks c"

definition after_bridge :: "config \<Rightarrow> start_action list" where
  "after_bridge c = StartSignalThread # bootActions c @ serve_actions c"

record start_input =
  in_mask_ok :: bool
  in_os :: os
  in_s3_calls :: os_calls
  in_text_calls :: os_calls
  in_got :: s3_result
  in_file :: binlog
  in_s3_io :: s3_io
  in_conf_set :: "string \<Rightarrow> string \<Rightarrow> bool"
  in_producer_made :: bool
  in_reader :: "string \<Rightarrow> json option"
  in_list :: s3_result

text \<open>What main does and how it ends, before its loop or in it. \<open>RestoreNeverEnds\<close> is a write that makes no progress.\<close>

datatype start_end = Exits process_exit | RestoreNeverEnds | Serves config

definition prologue :: "config \<Rightarrow> start_input \<Rightarrow> start_action list" where
  "prologue c i = [BlockSignals, CallManager (configureGlobalLogging (cf_tdlib_log_verbosity c)), LoadTokens (cf_bearer_tokens c),
     RestoreFromS3 (s3_enabled (cf_s3 c) \<and> \<not> file_exists (in_s3_calls i) (in_file i))]"

definition kafka_of :: "config \<Rightarrow> start_input \<Rightarrow> kafka_sink option" where
  "kafka_of c i = kafka_create (cf_kafka c) (in_conf_set i) (in_producer_made i)"

definition hooks_of :: "start_input \<Rightarrow> webhook list" where
  "hooks_of i = loadFromStore (in_reader i) (s3_load (in_list i))"

definition main_start :: "start_input \<Rightarrow> start_action list \<times> start_end" where
  "main_start i =
     (if \<not> in_mask_ok i then ([], Exits (ReturnFromMain 1))
      else (case load_config (in_os i) of
         Inl _ \<Rightarrow> ([BlockSignals], Exits (ReturnFromMain 1))
       | Inr c \<Rightarrow>
           (case prepareSession (in_s3_calls i) (in_text_calls i) c (in_got i) (in_file i) of
              None \<Rightarrow> (prologue c i, RestoreNeverEnds)
            | Some (Inl _) \<Rightarrow> (prologue c i, Exits (fst (exitCodeAfterS3 1 (in_s3_io i))))
            | Some (Inr f) \<Rightarrow>
                (prologue c i @ UseSession f # before_bridge c (kafka_of c i) (hooks_of i) @ StartBridge # after_bridge c,
                 Serves c))))"

section \<open>The process it makes\<close>

text \<open>Each thread with the signal mask it inherits. The thread of S3's client is counted for every request main makes,
  also for one that is given up before it is sent.\<close>

record started =
  sm_masked :: bool
  sm_threads :: "(started_thread \<times> bool) list"
  sm_manager :: "manager_call list"
  sm_tokens :: "token_entry list"
  sm_session :: "binlog option"
  sm_kafka :: "kafka_sink option"
  sm_router :: router
  sm_auth :: auth
  sm_registry :: "webhook list option"
  sm_dispatcher :: "dispatcher option"
  sm_sync_every :: "int option"
  sm_online_every :: "int option"
  sm_boot :: "boot_request list"
  sm_routes :: "registration list"
  sm_listening :: "(string \<times> int) option"
  sm_seen :: "td_object option list"
  sm_calls :: "main_call list"

definition started_init :: started where
  "started_init = \<lparr>sm_masked = False, sm_threads = [], sm_manager = [], sm_tokens = [], sm_session = None, sm_kafka = None,
     sm_router = routerInit ''default'', sm_auth = auth_init, sm_registry = None, sm_dispatcher = None,
     sm_sync_every = None, sm_online_every = None, sm_boot = [], sm_routes = [], sm_listening = None,
     sm_seen = [], sm_calls = []\<rparr>"

definition spawn :: "started_thread \<Rightarrow> started \<Rightarrow> started" where
  "spawn t s = (if t \<in> fst ` set (sm_threads s) then s else s\<lparr>sm_threads := sm_threads s @ [(t, sm_masked s)]\<rparr>)"

fun start_act :: "(string \<Rightarrow> string) \<Rightarrow> start_action \<Rightarrow> started \<Rightarrow> started" where
  "start_act sha256 BlockSignals s = s\<lparr>sm_masked := True\<rparr>"
| "start_act sha256 (CallManager call) s = s\<lparr>sm_manager := sm_manager s @ [call]\<rparr>"
| "start_act sha256 (LoadTokens known) s = s\<lparr>sm_tokens := load sha256 known\<rparr>"
| "start_act sha256 (RestoreFromS3 asked) s = (if asked then spawn S3Loop s else s)"
| "start_act sha256 (UseSession f) s = s\<lparr>sm_session := Some f\<rparr>"
| "start_act sha256 (CreateKafka k) s = (if k \<noteq> None then spawn KafkaWorker (s\<lparr>sm_kafka := k\<rparr>) else s)"
| "start_act sha256 (MakeRouter session) s = s\<lparr>sm_router := routerInit session\<rparr>"
| "start_act sha256 SetMessageSendTracker s = s\<lparr>sm_router := (sm_router s)\<lparr>ro_has_tracker := True\<rparr>\<rparr>"
| "start_act sha256 SetEventPublisher s = s\<lparr>sm_router := (sm_router s)\<lparr>ro_has_publisher := True\<rparr>\<rparr>"
| "start_act sha256 (MakeRegistry key hooks) s = spawn S3Loop (s\<lparr>sm_registry := Some hooks\<rparr>)"
| "start_act sha256 (StartDispatcher mx guard) s =
     spawn DispatcherWorker (spawn DispatcherLoop (s\<lparr>sm_dispatcher := Some (dispatcher_start (dispatcher_init mx guard))\<rparr>))"
| "start_act sha256 SetWebhookHook s = s\<lparr>sm_router := (sm_router s)\<lparr>ro_has_webhook := True\<rparr>\<rparr>"
| "start_act sha256 (StartS3Sync n) s = s\<lparr>sm_sync_every := Some n\<rparr>"
| "start_act sha256 InstallOnReady s = s\<lparr>sm_auth := setOnReady (sm_auth s)\<rparr>"
| "start_act sha256 SetOnConnectionReady s = s\<lparr>sm_router := (sm_router s)\<lparr>ro_has_ready_cb := True\<rparr>\<rparr>"
| "start_act sha256 (RunEveryOnline n) s = s\<lparr>sm_online_every := Some n\<rparr>"
| "start_act sha256 InstallOnTermination s = s\<lparr>sm_auth := setOnUnexpectedTermination (sm_auth s)\<rparr>"
| "start_act sha256 StartBridge s = spawn Receiver s"
| "start_act sha256 StartSignalThread s = spawn SignalThread s"
| "start_act sha256 AskVersion s = s\<lparr>sm_boot := sm_boot s @ [GetOptionVersion]\<rparr>"
| "start_act sha256 (GiveParameters p) s =
     (if firstSeen (sm_auth s) \<and> au_state (sm_auth s) = WaitTdlibParameters
      then s\<lparr>sm_boot := sm_boot s @ [SetTdlibParameters p]\<rparr> else s)"
| "start_act sha256 (CreateUploadDir dir) s = s"
| "start_act sha256 (SetServerLimits a b c) s = s"
| "start_act sha256 (RegisterHandlers rs) s = s\<lparr>sm_routes := sm_routes s @ rs\<rparr>"
| "start_act sha256 (SetMaxPendingBytes n) s = s"
| "start_act sha256 (SetWsSessionId session) s = s"
| "start_act sha256 (StartUploadCleanup dir ttl) s = s"
| "start_act sha256 (RunServer addr port) s = spawn ServerThreads (s\<lparr>sm_listening := Some (addr, port)\<rparr>)"

text \<open>The receiver hands one update to the router, behind which main has put its calls.\<close>

definition take_update :: "(json \<Rightarrow> string) \<Rightarrow> config \<Rightarrow> td_object option \<Rightarrow> started \<Rightarrow> started" where
  "take_update writer c u s =
     (let (ro1, es) = onUpdate writer u (sm_router s); (a1, calls) = fold (applyEffect c) es (sm_auth s, [])
      in s\<lparr>sm_router := ro1, sm_auth := a1, sm_seen := sm_seen s @ [u], sm_calls := sm_calls s @ calls\<rparr>)"

definition receiving :: "started \<Rightarrow> bool" where
  "receiving s \<longleftrightarrow> Receiver \<in> fst ` set (sm_threads s)"

datatype start_event = MainGoesOn | UpdateComes "td_object option"

fun start_step ::
  "(string \<Rightarrow> string) \<Rightarrow> (json \<Rightarrow> string) \<Rightarrow> config \<Rightarrow> start_event \<Rightarrow> start_action list \<times> started \<Rightarrow> start_action list \<times> started" where
  "start_step sha256 writer c MainGoesOn ([], s) = ([], s)"
| "start_step sha256 writer c MainGoesOn (a # todo, s) = (todo, start_act sha256 a s)"
| "start_step sha256 writer c (UpdateComes u) (todo, s) = (todo, if receiving s then take_update writer c u s else s)"

definition start_run ::
  "(string \<Rightarrow> string) \<Rightarrow> (json \<Rightarrow> string) \<Rightarrow> config \<Rightarrow> start_event list \<Rightarrow> start_action list \<Rightarrow> start_action list \<times> started" where
  "start_run sha256 writer c events actions = fold (start_step sha256 writer c) events (actions, started_init)"

section \<open>Frames\<close>

lemma spawn_frame [simp]:
  "sm_masked (spawn t s) = sm_masked s" "sm_manager (spawn t s) = sm_manager s" "sm_tokens (spawn t s) = sm_tokens s"
  "sm_session (spawn t s) = sm_session s" "sm_kafka (spawn t s) = sm_kafka s" "sm_router (spawn t s) = sm_router s"
  "sm_auth (spawn t s) = sm_auth s" "sm_registry (spawn t s) = sm_registry s" "sm_dispatcher (spawn t s) = sm_dispatcher s"
  "sm_boot (spawn t s) = sm_boot s" "sm_routes (spawn t s) = sm_routes s" "sm_listening (spawn t s) = sm_listening s"
  "sm_seen (spawn t s) = sm_seen s" "sm_calls (spawn t s) = sm_calls s"
  by (simp_all add: spawn_def)

lemma spawn_threads [simp]: "fst ` set (sm_threads (spawn t s)) = insert t (fst ` set (sm_threads s))"
  by (auto simp: spawn_def)

lemma receiving_act: "receiving (start_act sha256 a s) \<longleftrightarrow> receiving s \<or> a = StartBridge"
  by (cases a) (simp_all add: receiving_def)

lemma receiving_fold: "receiving (fold (start_act sha256) as s) \<longleftrightarrow> receiving s \<or> StartBridge \<in> set as"
  by (induction as arbitrary: s) (auto simp: receiving_act)

lemma receiving_init [simp]: "\<not> receiving started_init"
  by (simp add: receiving_def started_init_def)

definition all_masked :: "started \<Rightarrow> bool" where
  "all_masked s \<longleftrightarrow> sm_masked s \<and> snd ` set (sm_threads s) \<subseteq> {True}"

lemma spawn_masked: "all_masked s \<Longrightarrow> all_masked (spawn t s)"
  by (auto simp: all_masked_def spawn_def)

lemma spawn_masked' [intro]: "sm_masked s \<Longrightarrow> snd ` set (sm_threads s) \<subseteq> {True} \<Longrightarrow> all_masked (spawn t s)"
  by (rule spawn_masked) (simp add: all_masked_def)

lemma masked_act: "all_masked s \<Longrightarrow> all_masked (start_act sha256 a s)"
proof (cases a)
  case (StartDispatcher mx guard)
  assume "all_masked s"
  then show ?thesis unfolding StartDispatcher by (simp del: fst_conv, intro spawn_masked) (simp add: all_masked_def)
qed (auto simp: all_masked_def [of s] spawn_masked', simp_all add: all_masked_def)

lemma masked_fold: "all_masked s \<Longrightarrow> all_masked (fold (start_act sha256) as s)"
  by (induction as arbitrary: s) (simp_all add: masked_act)

text \<open>What the updates do not touch.\<close>

definition main_part :: "started \<Rightarrow> started" where
  "main_part s = s\<lparr>sm_router := routerInit [], sm_auth := auth_init, sm_boot := [], sm_seen := [], sm_calls := []\<rparr>"

lemma main_part_update: "main_part (take_update writer c u s) = main_part s"
  by (simp add: take_update_def main_part_def split: prod.split)

lemma main_part_spawn: "main_part (spawn t s) = spawn t (main_part s)"
  by (simp add: main_part_def spawn_def)

lemma main_part_act: "main_part s = main_part t \<Longrightarrow> main_part (start_act sha256 a s) = main_part (start_act sha256 a t)"
proof -
  assume e: "main_part s = main_part t"
  have "main_part (start_act sha256 a r) = main_part (start_act sha256 a (main_part r))" for r
    by (cases a) (simp_all add: main_part_spawn, simp_all add: main_part_def)
  from this [of s] this [of t] e show ?thesis by simp
qed

lemma main_part_fields:
  assumes "main_part s = main_part t"
  shows "sm_masked s = sm_masked t" "sm_threads s = sm_threads t" "sm_manager s = sm_manager t" "sm_tokens s = sm_tokens t"
    "sm_session s = sm_session t" "sm_kafka s = sm_kafka t" "sm_registry s = sm_registry t" "sm_dispatcher s = sm_dispatcher t"
    "sm_routes s = sm_routes t" "sm_listening s = sm_listening t" "receiving s = receiving t" "all_masked s = all_masked t"
proof -
  note e = arg_cong [OF assms]
  from e [of sm_masked] e [of sm_threads] show "sm_masked s = sm_masked t" "sm_threads s = sm_threads t"
    by (simp_all add: main_part_def)
  then show "receiving s = receiving t" "all_masked s = all_masked t" by (simp_all add: receiving_def all_masked_def)
  from e [of sm_manager] e [of sm_tokens] e [of sm_session] e [of sm_kafka] e [of sm_registry] e [of sm_dispatcher]
      e [of sm_routes] e [of sm_listening]
  show "sm_manager s = sm_manager t" "sm_tokens s = sm_tokens t" "sm_session s = sm_session t" "sm_kafka s = sm_kafka t"
    "sm_registry s = sm_registry t" "sm_dispatcher s = sm_dispatcher t" "sm_routes s = sm_routes t"
    "sm_listening s = sm_listening t"
    by (simp_all add: main_part_def)
qed

section \<open>The updates in between\<close>

fun gateway_state ::
  "(json \<Rightarrow> string) \<Rightarrow> config \<Rightarrow> td_object option list \<Rightarrow> auth \<times> router \<times> main_call list \<Rightarrow> auth \<times> router \<times> main_call list" where
  "gateway_state writer c [] st = st"
| "gateway_state writer c (u # us) (a, ro, calls) =
     (let (ro1, es) = onUpdate writer u ro; (a1, more_calls) = fold (applyEffect c) es (a, [])
      in gateway_state writer c us (a1, ro1, calls @ more_calls))"

lemma gateway_state_snoc:
  "gateway_state writer c (us @ vs) st = gateway_state writer c vs (gateway_state writer c us st)"
  by (induction us arbitrary: st) (auto split: prod.split)

lemma gateway_state_calls: "snd (snd (gateway_state writer c us (a, ro, calls))) = calls @ gateway_run writer c us a ro"
  by (induction us arbitrary: a ro calls) (auto split: prod.split)

definition state_now :: "started \<Rightarrow> auth \<times> router \<times> main_call list" where
  "state_now s = (sm_auth s, sm_router s, sm_calls s)"

lemma state_now_update:
  "state_now s = gateway_state writer c (sm_seen s) st \<Longrightarrow>
   state_now (take_update writer c u s) = gateway_state writer c (sm_seen (take_update writer c u s)) st"
  by (simp add: take_update_def state_now_def gateway_state_snoc split: prod.split)
   (metis (no_types, lifting) case_prod_conv gateway_state.simps)

text \<open>After the bridge has started main touches neither the router nor the authorization state.\<close>

lemma after_bridge_frame:
  assumes "a \<in> set (after_bridge c)"
  shows "state_now (start_act sha256 a s) = state_now s" "sm_seen (start_act sha256 a s) = sm_seen s"
    and "a \<noteq> StartBridge" "sm_session (start_act sha256 a s) = sm_session s"
    "sm_registry (start_act sha256 a s) = sm_registry s" "sm_dispatcher (start_act sha256 a s) = sm_dispatcher s"
    "sm_manager (start_act sha256 a s) = sm_manager s" "sm_tokens (start_act sha256 a s) = sm_tokens s"
    "sm_kafka (start_act sha256 a s) = sm_kafka s"
  using assms
  by (auto simp: after_bridge_def bootActions_def serve_actions_def Let_def state_now_def split: if_splits)

lemma split_once:
  assumes "d @ a # t = xs @ y # ys" "y \<notin> set xs" "y \<notin> set ys"
  shows "(a = y \<and> d = xs \<and> t = ys) \<or> (y \<in> set d \<and> a \<in> set ys \<and> a \<noteq> y) \<or> (y \<notin> set d \<and> a \<noteq> y)"
proof (cases "a = y")
  case True
  then have "y \<notin> set d \<and> d = xs \<and> t = ys \<or> y \<in> set d" using assms by (metis append_Cons_eq_iff)
  moreover have "y \<notin> set d"
  proof
    assume "y \<in> set d"
    then obtain u v where d: "d = u @ y # v" "y \<notin> set u" by (meson split_list_first)
    then have "u = xs \<and> v @ a # t = ys" using assms by (metis append.assoc append_Cons append_Cons_eq_iff)
    then show False using assms(3) True by auto
  qed
  ultimately show ?thesis using True by blast
next
  case False
  show ?thesis
  proof (cases "y \<in> set d")
    case True
    then obtain u v where d: "d = u @ y # v" "y \<notin> set u" by (meson split_list_first)
    then have "u = xs \<and> v @ a # t = ys" using assms by (metis append.assoc append_Cons append_Cons_eq_iff)
    then show ?thesis using True False by auto
  qed (use False in simp)
qed

section \<open>What is there when the bridge starts\<close>

definition prepared :: "(string \<Rightarrow> string) \<Rightarrow> config \<Rightarrow> start_input \<Rightarrow> binlog \<Rightarrow> started" where
  "prepared sha256 c i f =
     fold (start_act sha256) (prologue c i @ UseSession f # before_bridge c (kafka_of c i) (hooks_of i)) started_init"

lemma prologue_state:
  "state_now (fold (start_act sha256) (prologue c i) started_init) = (auth_init, routerInit ''default'', [])"
  "sm_seen (fold (start_act sha256) (prologue c i) started_init) = []"
  "sm_manager (fold (start_act sha256) (prologue c i) started_init) = [ExecuteSetLogVerbosityLevel (cf_tdlib_log_verbosity c)]"
  "sm_tokens (fold (start_act sha256) (prologue c i) started_init) = load sha256 (cf_bearer_tokens c)"
  "sm_routes (fold (start_act sha256) (prologue c i) started_init) = []"
  "sm_kafka (fold (start_act sha256) (prologue c i) started_init) = None"
  "sm_registry (fold (start_act sha256) (prologue c i) started_init) = None"
  "sm_dispatcher (fold (start_act sha256) (prologue c i) started_init) = None"
  by (simp_all add: prologue_def state_now_def started_init_def configureGlobalLogging_def)

lemma before_state:
  assumes "state_now s = (auth_init, ro, [])"
  shows "state_now (fold (start_act sha256) (before_bridge c kafka hooks) s) = (mainAuth, mainRouter c (kafka \<noteq> None), [])"
  using assms
  by (cases kafka; cases "cf_humanize_typing c"; cases "cf_webhooks_enabled c"; cases "cf_keep_online c")
    (simp_all add: before_bridge_def makeParts_def makeWebhooks_def setCallbacks_def state_now_def mainAuth_def mainRouter_def
      routerInit_def)

lemma before_fields:
  "sm_seen (fold (start_act sha256) (before_bridge c kafka hooks) s) = sm_seen s"
  "sm_session (fold (start_act sha256) (before_bridge c kafka hooks) s) = sm_session s"
  "sm_tokens (fold (start_act sha256) (before_bridge c kafka hooks) s) = sm_tokens s"
  "sm_routes (fold (start_act sha256) (before_bridge c kafka hooks) s) = sm_routes s"
  "sm_manager (fold (start_act sha256) (before_bridge c kafka hooks) s) = sm_manager s @ [CreateClientId]"
  "sm_kafka (fold (start_act sha256) (before_bridge c kafka hooks) s) = (if kafka = None then sm_kafka s else kafka)"
  "sm_registry (fold (start_act sha256) (before_bridge c kafka hooks) s) =
     (if cf_webhooks_enabled c then Some hooks else sm_registry s)"
  "sm_dispatcher (fold (start_act sha256) (before_bridge c kafka hooks) s) =
     (if cf_webhooks_enabled c
      then Some (dispatcher_start (dispatcher_init (nat (cf_webhook_queue_max c)) (cf_webhook_ssrf_guard c))) else sm_dispatcher s)"
  by (cases kafka; simp add: before_bridge_def makeParts_def makeWebhooks_def setCallbacks_def transport_createClientId_def)+

lemma bridge_once: "StartBridge \<notin> set (prologue c i @ UseSession f # before_bridge c kafka hooks)" "StartBridge \<notin> set (after_bridge c)"
  by (auto simp: prologue_def before_bridge_def makeParts_def makeWebhooks_def setCallbacks_def after_bridge_def
      bootActions_def serve_actions_def Let_def split: if_splits)

lemma prepared_facts:
  "state_now (prepared sha256 c i f) = (mainAuth, mainRouter c (kafka_of c i \<noteq> None), [])" "sm_seen (prepared sha256 c i f) = []"
  "sm_session (prepared sha256 c i f) = Some f" "sm_tokens (prepared sha256 c i f) = load sha256 (cf_bearer_tokens c)"
  "sm_routes (prepared sha256 c i f) = []"
  "sm_manager (prepared sha256 c i f) = [ExecuteSetLogVerbosityLevel (cf_tdlib_log_verbosity c), CreateClientId]"
  "sm_kafka (prepared sha256 c i f) = kafka_of c i"
  "sm_registry (prepared sha256 c i f) = (if cf_webhooks_enabled c then Some (hooks_of i) else None)"
  "sm_dispatcher (prepared sha256 c i f) = (if cf_webhooks_enabled c
     then Some (dispatcher_start (dispatcher_init (nat (cf_webhook_queue_max c)) (cf_webhook_ssrf_guard c))) else None)"
  using before_state [of "start_act sha256 (UseSession f) (fold (start_act sha256) (prologue c i) started_init)"] prologue_state
  by (auto simp: prepared_def before_fields state_now_def)

section \<open>Any interleaving\<close>

definition main_actions :: "config \<Rightarrow> start_input \<Rightarrow> binlog \<Rightarrow> start_action list" where
  "main_actions c i f =
     (prologue c i @ UseSession f # before_bridge c (kafka_of c i) (hooks_of i)) @ StartBridge # after_bridge c"

definition start_inv ::
  "(string \<Rightarrow> string) \<Rightarrow> (json \<Rightarrow> string) \<Rightarrow> config \<Rightarrow> start_input \<Rightarrow> binlog \<Rightarrow> start_action list \<times> started \<Rightarrow> bool" where
  "start_inv sha256 writer c i f st \<longleftrightarrow> (case st of (todo, s) \<Rightarrow> \<exists>finished.
     main_actions c i f = finished @ todo
     \<and> main_part s = main_part (fold (start_act sha256) finished started_init)
     \<and> (if StartBridge \<in> set finished
        then state_now s = gateway_state writer c (sm_seen s) (mainAuth, mainRouter c (kafka_of c i \<noteq> None), [])
        else s = fold (start_act sha256) finished started_init))"

lemma start_inv_step:
  assumes "start_inv sha256 writer c i f (todo, s)"
  shows "start_inv sha256 writer c i f (start_step sha256 writer c e (todo, s))"
proof -
  obtain d where d: "main_actions c i f = d @ todo" "main_part s = main_part (fold (start_act sha256) d started_init)"
      "if StartBridge \<in> set d
       then state_now s = gateway_state writer c (sm_seen s) (mainAuth, mainRouter c (kafka_of c i \<noteq> None), [])
       else s = fold (start_act sha256) d started_init"
    using assms by (auto simp: start_inv_def)
  have rec: "receiving s \<longleftrightarrow> StartBridge \<in> set d"
    using main_part_fields(11) [OF d(2)] by (simp add: receiving_fold)
  show ?thesis
  proof (cases e)
    case (UpdateComes u)
    show ?thesis
    proof (cases "receiving s")
      case True
      with d rec show ?thesis unfolding UpdateComes
        by (simp add: start_inv_def) (intro exI [of _ d] conjI, simp_all add: main_part_update state_now_update)
    qed (use UpdateComes assms in simp)
  next
    case MainGoesOn
    show ?thesis
    proof (cases todo)
      case Nil
      with MainGoesOn assms show ?thesis by simp
    next
      case (Cons a rest)
      have m: "main_actions c i f = (d @ [a]) @ rest" using d(1) Cons by simp
      have p: "main_part (start_act sha256 a s) = main_part (fold (start_act sha256) (d @ [a]) started_init)"
        using main_part_act [OF d(2)] by simp
      have e: "d @ a # rest = (prologue c i @ UseSession f # before_bridge c (kafka_of c i) (hooks_of i)) @ StartBridge # after_bridge c"
        using d(1) Cons by (simp add: main_actions_def)
      have "if StartBridge \<in> set (d @ [a])
        then state_now (start_act sha256 a s) =
          gateway_state writer c (sm_seen (start_act sha256 a s)) (mainAuth, mainRouter c (kafka_of c i \<noteq> None), [])
        else start_act sha256 a s = fold (start_act sha256) (d @ [a]) started_init"
        using split_once [OF e bridge_once]
      proof (elim disjE conjE)
        assume here: "a = StartBridge" "d = prologue c i @ UseSession f # before_bridge c (kafka_of c i) (hooks_of i)"
        then have "s = prepared sha256 c i f" using d(3) bridge_once(1) by (simp add: prepared_def del: fold_append)
        then show ?thesis using here(1) prepared_facts(1,2) by (simp add: state_now_def)
      next
        assume "StartBridge \<in> set d" "a \<in> set (after_bridge c)"
        then show ?thesis using d(3) after_bridge_frame(1,2) by simp
      qed (use d(3) in simp)
      with m p show ?thesis unfolding MainGoesOn Cons by (auto simp: start_inv_def intro!: exI [of _ "d @ [a]"])
    qed
  qed
qed

lemma start_inv_run: "start_inv sha256 writer c i f (start_run sha256 writer c events (main_actions c i f))"
proof -
  have step: "start_inv sha256 writer c i f st \<Longrightarrow> start_inv sha256 writer c i f (start_step sha256 writer c e st)" for e st
    by (cases st) (simp add: start_inv_step)
  have "start_inv sha256 writer c i f st \<Longrightarrow> start_inv sha256 writer c i f (fold (start_step sha256 writer c) events st)" for st
    by (induction events arbitrary: st) (simp_all add: step)
  moreover have "start_inv sha256 writer c i f (main_actions c i f, started_init)"
    by (simp add: start_inv_def)
  ultimately show ?thesis unfolding start_run_def by blast
qed

lemma main_start_serves:
  "main_start i = (actions, Serves c) \<longleftrightarrow> in_mask_ok i \<and> load_config (in_os i) = Inr c
     \<and> (\<exists>f. prepareSession (in_s3_calls i) (in_text_calls i) c (in_got i) (in_file i) = Some (Inr f) \<and> actions = main_actions c i f)"
  by (auto simp: main_start_def main_actions_def split: sum.splits option.splits)

lemma act_quiet: "sm_calls (start_act sha256 a s) = sm_calls s" "sm_seen (start_act sha256 a s) = sm_seen s"
  by (cases a; simp)+

lemma fold_quiet:
  "sm_calls (fold (start_act sha256) as started_init) = []" "sm_seen (fold (start_act sha256) as started_init) = []"
proof -
  have "sm_calls (fold (start_act sha256) as s) = sm_calls s \<and> sm_seen (fold (start_act sha256) as s) = sm_seen s" for s
    by (induction as arbitrary: s) (simp_all add: act_quiet)
  then show "sm_calls (fold (start_act sha256) as started_init) = []" "sm_seen (fold (start_act sha256) as started_init) = []"
    by (simp_all add: started_init_def)
qed

text \<open>C24: No update finds a callback missing: whatever updates TDLib sends from the moment the receiver
  runs, between whichever of main's actions, main's calls are those of a router and an authorization state that
  had all their callbacks from the beginning; so each of the things the process does for updates is done as often
  as the updates seen call for.\<close>

theorem start_equips_router:
  assumes "main_start i = (actions, Serves c)" "start_run sha256 writer c events actions = (todo, s)"
  shows "sm_calls s = gateway_run writer c (sm_seen s) mainAuth (mainRouter c (kafka_of c i \<noteq> None))
    \<and> count_list (sm_calls s) QueueQuit = (if list_ex is_terminal_update (sm_seen s) then 1 else 0)
    \<and> count_list (sm_calls s) PushNow = (if ready_update \<in> set (sm_seen s) then 1 else 0)
    \<and> count_list (sm_calls s) AskOwner = (if ready_update \<in> set (sm_seen s) \<and> cf_webhooks_enabled c then 1 else 0)
    \<and> count_list (sm_calls s) online_call = (if cf_keep_online c
        then count_list (sm_seen s) connected_update + (if ready_update \<in> set (sm_seen s) then 1 else 0) else 0)"
proof -
  obtain f where "actions = main_actions c i f" using assms(1) by (auto simp: main_start_serves)
  then have "start_inv sha256 writer c i f (todo, s)" using start_inv_run assms(2) by metis
  then obtain d where d: "main_actions c i f = d @ todo"
      "if StartBridge \<in> set d
       then state_now s = gateway_state writer c (sm_seen s) (mainAuth, mainRouter c (kafka_of c i \<noteq> None), [])
       else s = fold (start_act sha256) d started_init"
    by (auto simp: start_inv_def)
  have "sm_calls s = gateway_run writer c (sm_seen s) mainAuth (mainRouter c (kafka_of c i \<noteq> None))"
  proof (cases "StartBridge \<in> set d")
    case True
    with d(2) have "snd (snd (state_now s)) =
        snd (snd (gateway_state writer c (sm_seen s) (mainAuth, mainRouter c (kafka_of c i \<noteq> None), [])))"
      by simp
    then show ?thesis by (simp add: gateway_state_calls state_now_def)
  next
    case False
    with d(2) have "sm_calls s = [] \<and> sm_seen s = []" by (simp add: fold_quiet)
    then show ?thesis by simp
  qed
  moreover have "\<not> au_expect_shutdown mainAuth" "au_has_termination_cb mainAuth" "au_has_ready_cb mainAuth"
      "ro_has_ready_cb (mainRouter c (kafka_of c i \<noteq> None)) = cf_keep_online c"
      "\<not> au_termination_reported mainAuth" "\<not> au_ready_reported mainAuth"
    by (simp_all add: mainAuth_def mainRouter_def auth_init_def setOnReady_def setOnUnexpectedTermination_def)
  ultimately show ?thesis using gateway_counts by simp
qed

section \<open>The order of the start\<close>

lemma after_fold_frame:
  assumes "set as \<subseteq> set (after_bridge c)"
  shows "sm_session (fold (start_act sha256) as s) = sm_session s" "sm_registry (fold (start_act sha256) as s) = sm_registry s"
    "sm_dispatcher (fold (start_act sha256) as s) = sm_dispatcher s" "sm_manager (fold (start_act sha256) as s) = sm_manager s"
    "sm_tokens (fold (start_act sha256) as s) = sm_tokens s"
  using assms by (induction as arbitrary: s) (simp_all add: after_bridge_frame [of _ c])

lemma after_bridge_end:
  "sm_routes (fold (start_act sha256) (after_bridge c) s) =
     sm_routes s @ registrations (cf_session_export_enabled c) (cf_webhooks_enabled c)"
  "sm_listening (fold (start_act sha256) (after_bridge c) s) = Some (cf_listen_address c, cf_listen_port c)"
  "SignalThread \<in> fst ` set (sm_threads (fold (start_act sha256) (after_bridge c) s))"
  by (cases "cf_webhooks_enabled c"; simp add: after_bridge_def bootActions_def serve_actions_def Let_def registrations_def;
      auto split: if_splits)+

definition is_run_server :: "start_action \<Rightarrow> bool" where
  "is_run_server a = (case a of RunServer _ _ \<Rightarrow> True | _ \<Rightarrow> False)"

lemma listening_fold:
  "\<not> list_ex is_run_server as \<Longrightarrow> sm_listening (fold (start_act sha256) as s) = sm_listening s"
proof (induction as arbitrary: s)
  case (Cons a as)
  then have "sm_listening (start_act sha256 a s) = sm_listening s" by (cases a) (simp_all add: is_run_server_def)
  with Cons show ?case by simp
qed simp

lemma run_server_last: "\<not> list_ex is_run_server (butlast (main_actions c i f))"
  by (auto simp: main_actions_def prologue_def before_bridge_def makeParts_def makeWebhooks_def setCallbacks_def after_bridge_def
      bootActions_def serve_actions_def Let_def butlast_append is_run_server_def)

lemma prefix_butlast: "xs = d @ todo \<Longrightarrow> todo \<noteq> [] \<Longrightarrow> set d \<subseteq> set (butlast xs)"
  by (simp add: butlast_append)

lemma main_masked: "main_actions c i f = d @ todo \<Longrightarrow> snd ` set (sm_threads (fold (start_act sha256) d started_init)) \<subseteq> {True}"
proof (cases d)
  case Nil
  then show ?thesis by (simp add: started_init_def)
next
  case (Cons a as)
  moreover assume "main_actions c i f = d @ todo"
  ultimately have "a = BlockSignals" by (simp add: main_actions_def prologue_def)
  moreover have "all_masked (start_act sha256 BlockSignals started_init)" by (simp add: all_masked_def started_init_def)
  ultimately show ?thesis using masked_fold [of _ sha256 as] Cons by (simp add: all_masked_def)
qed

text \<open>C22: The order of the start, at every moment of it: each thread is made with the shutdown signals already blocked, so
  that no thread but the one that waits for them ever takes one; when the receiver runs the session is the one the
  restores settled on, TDLib's log has been turned down before its client was made, the tokens are loaded, and with
  webhooks the list is read and the dispatcher runs; and the server listens only after everything else, with every
  route registered.\<close>

theorem start_in_order:
  assumes "main_start i = (actions, Serves c)" "start_run sha256 writer c events actions = (todo, s)"
  shows "snd ` set (sm_threads s) \<subseteq> {True}
    \<and> (receiving s \<longrightarrow>
        prepareSession (in_s3_calls i) (in_text_calls i) c (in_got i) (in_file i) = map_option Inr (sm_session s)
        \<and> sm_manager s = [ExecuteSetLogVerbosityLevel (cf_tdlib_log_verbosity c), CreateClientId]
        \<and> sm_tokens s = load sha256 (cf_bearer_tokens c)
        \<and> (cf_webhooks_enabled c \<longrightarrow> sm_registry s = Some (hooks_of i)
             \<and> map_option (\<lambda>d. (dp_started d, dp_worker d, dp_loop d)) (sm_dispatcher s) = Some (True, Waiting, LoopUp)))
    \<and> (sm_listening s \<noteq> None \<longrightarrow> todo = [] \<and> receiving s \<and> SignalThread \<in> fst ` set (sm_threads s)
        \<and> sm_listening s = Some (cf_listen_address c, cf_listen_port c)
        \<and> sm_routes s = registrations (cf_session_export_enabled c) (cf_webhooks_enabled c))"
proof -
  obtain f where f: "actions = main_actions c i f"
      "prepareSession (in_s3_calls i) (in_text_calls i) c (in_got i) (in_file i) = Some (Inr f)"
    using assms(1) by (auto simp: main_start_serves)
  then have "start_inv sha256 writer c i f (todo, s)" using start_inv_run assms(2) by metis
  then obtain d where d: "main_actions c i f = d @ todo"
      "main_part s = main_part (fold (start_act sha256) d started_init)"
    by (auto simp: start_inv_def)
  let ?s = "fold (start_act sha256) d started_init"
  note same = main_part_fields [OF d(2)]
  have masked: "snd ` set (sm_threads s) \<subseteq> {True}" using main_masked [OF d(1)] same(2) by simp
  have ready: "sm_session ?s = Some f \<and> sm_manager ?s = [ExecuteSetLogVerbosityLevel (cf_tdlib_log_verbosity c), CreateClientId]
      \<and> sm_tokens ?s = load sha256 (cf_bearer_tokens c)
      \<and> (cf_webhooks_enabled c \<longrightarrow> sm_registry ?s = Some (hooks_of i)
        \<and> map_option (\<lambda>d. (dp_started d, dp_worker d, dp_loop d)) (sm_dispatcher ?s) = Some (True, Waiting, LoopUp))"
    if "receiving s"
  proof -
    have "StartBridge \<in> set d" using that same(11) by (simp add: receiving_fold)
    then obtain u v where uv: "d = u @ StartBridge # v" "StartBridge \<notin> set u" by (meson split_list_first)
    let ?p = "prologue c i @ UseSession f # before_bridge c (kafka_of c i) (hooks_of i)"
    have "?p @ StartBridge # after_bridge c = u @ StartBridge # (v @ todo)"
      using d(1) uv(1) by (simp add: main_actions_def)
    then have u: "u = ?p" and v: "after_bridge c = v @ todo"
      using append_Cons_eq_iff [OF bridge_once] by simp_all
    have "?s = fold (start_act sha256) v (spawn Receiver (prepared sha256 c i f))"
      unfolding uv(1) u by (simp add: prepared_def)
    moreover have "set v \<subseteq> set (after_bridge c)" by (simp add: v)
    ultimately show ?thesis
      using prepared_facts by (simp add: after_fold_frame [of v c] dispatcher_start_def dispatcher_init_def)
  qed
  have listening: "todo = [] \<and> receiving s \<and> SignalThread \<in> fst ` set (sm_threads s)
      \<and> sm_listening s = Some (cf_listen_address c, cf_listen_port c)
      \<and> sm_routes s = registrations (cf_session_export_enabled c) (cf_webhooks_enabled c)"
    if l: "sm_listening s \<noteq> None"
  proof -
    have "todo = []"
    proof (rule ccontr)
      assume "todo \<noteq> []"
      then have "\<not> list_ex is_run_server d" using prefix_butlast [OF d(1)] run_server_last [of c i f] by (auto simp: list_ex_iff)
      then have "sm_listening ?s = None" using listening_fold by (simp add: started_init_def)
      with l same(10) show False by simp
    qed
    then have all: "d = main_actions c i f" using d(1) by simp
    then have "?s = fold (start_act sha256) (after_bridge c) (spawn Receiver (prepared sha256 c i f))"
      by (simp add: main_actions_def prepared_def)
    moreover have "receiving s" unfolding same(11) receiving_fold all by (simp add: main_actions_def)
    ultimately show ?thesis
      using \<open>todo = []\<close> by (simp add: same after_bridge_end prepared_facts(5))
  qed
  show ?thesis using masked ready listening same f(2) by simp
qed

section \<open>A start that fails\<close>

definition before_session :: "start_action \<Rightarrow> bool" where
  "before_session a \<longleftrightarrow> (case a of
     BlockSignals \<Rightarrow> True | CallManager m \<Rightarrow> m \<noteq> CreateClientId | LoadTokens _ \<Rightarrow> True | RestoreFromS3 _ \<Rightarrow> True | _ \<Rightarrow> False)"

definition nothing_made :: "started \<Rightarrow> bool" where
  "nothing_made s \<longleftrightarrow> CreateClientId \<notin> set (sm_manager s) \<and> sm_kafka s = None \<and> sm_registry s = None \<and> sm_dispatcher s = None
     \<and> sm_listening s = None \<and> sm_seen s = [] \<and> fst ` set (sm_threads s) \<subseteq> {S3Loop}"

lemma nothing_made_step:
  assumes "nothing_made s" "list_all before_session todo"
  shows "nothing_made (snd (start_step sha256 writer c e (todo, s)))
    \<and> list_all before_session (fst (start_step sha256 writer c e (todo, s)))"
proof (cases e)
  case MainGoesOn
  show ?thesis
  proof (cases todo)
    case (Cons a rest)
    with assms MainGoesOn show ?thesis
      by (cases a) (auto simp: before_session_def nothing_made_def split: if_splits)
  qed (use assms MainGoesOn in simp)
next
  case (UpdateComes u)
  have "\<not> receiving s" using assms(1) by (auto simp: nothing_made_def receiving_def)
  with assms UpdateComes show ?thesis by simp
qed

lemma nothing_made_run:
  assumes "list_all before_session actions"
  shows "nothing_made (snd (start_run sha256 writer c events actions))"
proof -
  have "nothing_made (snd st) \<and> list_all before_session (fst st) \<Longrightarrow>
      nothing_made (snd (fold (start_step sha256 writer c) events st))" for st
  proof (induction events arbitrary: st)
    case (Cons e es)
    then have "nothing_made (snd (start_step sha256 writer c e st)) \<and> list_all before_session (fst (start_step sha256 writer c e st))"
      using nothing_made_step [of "snd st" "fst st"] by simp
    from Cons.IH [OF this] show ?case by simp
  qed simp
  then show ?thesis using assms by (simp add: start_run_def nothing_made_def started_init_def)
qed

lemma prologue_before: "list_all before_session (prologue c i)"
  by (simp add: prologue_def before_session_def configureGlobalLogging_def)

text \<open>C39: A start that fails does so with the exit code 1, and only because the signals could not be blocked, the
  configuration was refused, or a session that was asked for could not be restored; and before anything that it
  would have to take back: no client of TDLib, no connection to Kafka, no receivers, no listening server, and no
  thread but the one S3 was asked on.\<close>

theorem failed_start_leaves_nothing:
  assumes "main_start i = (actions, Exits how)" "start_run sha256 writer c events actions = (todo, s)"
  shows "(how = ReturnFromMain 1 \<or> how = ExitNow 1)
    \<and> (\<not> in_mask_ok i \<or> (\<exists>err. load_config (in_os i) = Inl err)
       \<or> (\<exists>c' f. load_config (in_os i) = Inr c'
            \<and> prepareSession (in_s3_calls i) (in_text_calls i) c' (in_got i) (in_file i) = Some (Inl f)))
    \<and> CreateClientId \<notin> set (sm_manager s) \<and> sm_kafka s = None \<and> sm_registry s = None \<and> sm_dispatcher s = None
    \<and> sm_listening s = None \<and> sm_seen s = [] \<and> fst ` set (sm_threads s) \<subseteq> {S3Loop}"
proof -
  have e: "fst (exitCodeAfterS3 1 (in_s3_io i)) = ReturnFromMain 1 \<or> fst (exitCodeAfterS3 1 (in_s3_io i)) = ExitNow 1"
    by (simp add: exitCodeAfterS3_def split: prod.split)
  have "list_all before_session actions"
    using assms(1) prologue_before
    by (auto simp: main_start_def before_session_def split: if_splits sum.splits option.splits)
  from nothing_made_run [OF this, of sha256 writer c events] have "nothing_made s" by (simp add: assms(2))
  moreover have "(how = ReturnFromMain 1 \<or> how = ExitNow 1)
    \<and> (\<not> in_mask_ok i \<or> (\<exists>err. load_config (in_os i) = Inl err)
       \<or> (\<exists>c' f. load_config (in_os i) = Inr c'
            \<and> prepareSession (in_s3_calls i) (in_text_calls i) c' (in_got i) (in_file i) = Some (Inl f)))"
    using assms(1) e by (auto simp: main_start_def split: if_splits sum.splits option.splits)
  ultimately show ?thesis by (simp add: nothing_made_def)
qed

section \<open>Instances\<close>

definition sample_start :: "string \<Rightarrow> start_input" where
  "sample_start port = \<lparr>in_mask_ok = True, in_os = sample_os [(''TGW_LISTEN_PORT'', port)], in_s3_calls = sample_calls [],
     in_text_calls = sample_calls [], in_got = \<lparr>sr_http_status = 404, sr_body = []\<rparr>, in_file = Some (''x'', 420),
     in_s3_io = io_init, in_conf_set = (\<lambda>_ _. True), in_producer_made = True, in_reader = (\<lambda>_. None),
     in_list = \<lparr>sr_http_status = 404, sr_body = []\<rparr>\<rparr>"

abbreviation sample_config :: config where
  "sample_config \<equiv> (sample_accepted ''default'')\<lparr>cf_listen_port := 9000\<rparr>"

lemma sample_switches:
  "cf_webhooks_enabled sample_config = False" "cf_keep_online sample_config = False" "cf_humanize_typing sample_config = True"
  "s3_enabled (cf_s3 sample_config) = False" "kf_brokers (cf_kafka sample_config) = []"
  "cf_session_export_enabled sample_config = True" "cf_listen_address sample_config = ''127.0.0.1''"
  "cf_session_b64 sample_config = []"
  by code_simp+

lemma sample_starts:
  "main_start (sample_start '' 9000 '') =
     (main_actions sample_config (sample_start '' 9000 '') (Some (''x'', 420)), Serves sample_config)"
proof -
  have "prepareSession (sample_calls []) (sample_calls []) sample_config \<lparr>sr_http_status = 404, sr_body = []\<rparr> (Some (''x'', 420)) =
      Some (Inr (Some (''x'', 420)))"
    using sample_switches by (simp add: prepareSession_def restoreFromS3_def restoreSession_def)
  then show ?thesis
    unfolding main_start_serves using sample_port_loads by (simp add: sample_start_def)
qed

lemma sample_main_actions:
  "main_actions sample_config (sample_start '' 9000 '') f =
     [BlockSignals, CallManager (configureGlobalLogging (cf_tdlib_log_verbosity sample_config)),
      LoadTokens (cf_bearer_tokens sample_config), RestoreFromS3 False, UseSession f, CreateKafka None,
      MakeRouter (cf_session_id sample_config), SetMessageSendTracker, CallManager transport_createClientId,
      InstallOnReady, InstallOnTermination, StartBridge] @ after_bridge sample_config"
  using sample_switches
  by (simp add: main_actions_def prologue_def before_bridge_def makeParts_def makeWebhooks_def setCallbacks_def kafka_of_def
      kafka_create_def kafka_enabled_def)

lemma seen_update: "sm_seen (take_update writer c u s) = sm_seen s @ [u]"
  by (simp add: take_update_def split: prod.split)

definition sample_events :: "start_event list" where
  "sample_events = UpdateComes None # [MainGoesOn, MainGoesOn, MainGoesOn, MainGoesOn, MainGoesOn, MainGoesOn, MainGoesOn,
     MainGoesOn, MainGoesOn, MainGoesOn, MainGoesOn, MainGoesOn] @ [UpdateComes ready_update, MainGoesOn]"

lemma sample_seen:
  "sm_seen (snd (start_run sha256 writer sample_config sample_events (main_actions sample_config (sample_start '' 9000 '') f))) =
     [ready_update]"
  by (simp add: start_run_def sample_main_actions sample_events_def after_bridge_def receiving_act seen_update act_quiet
      del: start_act.simps) (simp add: started_init_def)

theorem start_equips_router_witness:
  "\<exists>s :: started. sm_seen s = [ready_update] \<and> count_list (sm_calls s) PushNow = 1 \<and> count_list (sm_calls s) AskOwner = 0"
proof -
  obtain todo s where r: "start_run (\<lambda>x. x) (\<lambda>_. []) sample_config sample_events
      (main_actions sample_config (sample_start '' 9000 '') (Some (''x'', 420))) = (todo, s)"
    by fastforce
  then have seen: "sm_seen s = [ready_update]" using sample_seen by (metis snd_conv)
  note w = start_equips_router [OF sample_starts r, THEN conjunct2, THEN conjunct2]
  from w [THEN conjunct1] have "count_list (sm_calls s) PushNow = 1" by (simp add: seen)
  moreover from w [THEN conjunct2, THEN conjunct1] have "count_list (sm_calls s) AskOwner = 0"
    unfolding sample_switches(1) by simp
  ultimately show ?thesis using seen by blast
qed

lemma goes_on: "start_run sha256 writer c (replicate (length as) MainGoesOn) as = ([], fold (start_act sha256) as started_init)"
proof -
  have "fold (start_step sha256 writer c) (replicate (length as) MainGoesOn) (as, s) = ([], fold (start_act sha256) as s)" for s
    by (induction as arbitrary: s) simp_all
  then show ?thesis by (simp add: start_run_def)
qed

theorem start_in_order_witness:
  "\<exists>s :: started. sm_listening s = Some (''127.0.0.1'', 9000) \<and> receiving s \<and> snd ` set (sm_threads s) \<subseteq> {True}
     \<and> sm_session s = Some (Some (''x'', 420)) \<and> sm_routes s = registrations True False"
proof -
  let ?as = "main_actions sample_config (sample_start '' 9000 '') (Some (''x'', 420))"
  let ?s = "fold (start_act (\<lambda>x. x)) ?as started_init"
  have l: "sm_listening ?s = Some (cf_listen_address sample_config, cf_listen_port sample_config)"
    by (simp add: main_actions_def after_bridge_end)
  have p: "prepareSession (in_s3_calls (sample_start '' 9000 '')) (in_text_calls (sample_start '' 9000 '')) sample_config
      (in_got (sample_start '' 9000 '')) (in_file (sample_start '' 9000 '')) = Some (Inr (Some (''x'', 420)))"
    using sample_switches by (simp add: sample_start_def prepareSession_def restoreFromS3_def restoreSession_def)
  note w = start_in_order [OF sample_starts goes_on [of "\<lambda>x. x" "\<lambda>_. []"]]
  have listens: "sm_listening ?s \<noteq> None" using l by simp
  from w [THEN conjunct2, THEN conjunct2, rule_format, OF listens]
  have e: "receiving ?s" "sm_routes ?s = registrations True False" by (simp_all add: sample_switches)
  from w [THEN conjunct2, THEN conjunct1, rule_format, OF e(1)] p
  have "map_option Inr (sm_session ?s) = (Some (Inr (Some (''x'', 420))) :: (binlog, binlog) result option)" by metis
  then have "sm_session ?s = Some (Some (''x'', 420))" by (cases "sm_session ?s") simp_all
  with w [THEN conjunct1] e l sample_switches(7) show ?thesis by (intro exI [of _ ?s] conjI) simp_all
qed

theorem failed_start_leaves_nothing_witness:
  "main_start (sample_start ''x'') = ([BlockSignals], Exits (ReturnFromMain 1))
   \<and> (\<exists>s :: started. sm_masked s \<and> sm_listening s = None \<and> sm_threads s = [])"
proof -
  have "load_config (sample_os [(''TGW_LISTEN_PORT'', ''x'')]) = Inl (NotANumber ''TGW_LISTEN_PORT'' ''x'')" by code_simp
  then have m: "main_start (sample_start ''x'') = ([BlockSignals], Exits (ReturnFromMain 1))"
    by (simp add: main_start_def sample_start_def)
  have "start_run (\<lambda>x. x) (\<lambda>_. []) sample_config [MainGoesOn, UpdateComes ready_update] [BlockSignals] =
      ([], started_init\<lparr>sm_masked := True\<rparr>)"
    by (simp add: start_run_def receiving_def started_init_def)
  from failed_start_leaves_nothing [OF m this] m show ?thesis
    by (intro conjI exI [of _ "started_init\<lparr>sm_masked := True\<rparr>"]) (simp_all add: started_init_def)
qed

end
