(* ===== verification/SignalDrain.thy ===== *)
theory SignalDrain
  imports Process
begin

text \<open>
  The thread of \<^verbatim>\<open>src/src/main.cpp\<close> that waits for the shutdown signals. Once one has come it drains the bridge, then
  the send tracker, and only then has the main loop quit. Its own drains are taken apart into the critical
  sections they consist of: the claim of the whole table, one resolving after the other outside the lock. In
  between, the event loops, the handlers' coroutines, the receiver and the timers do what they like, with one
  exception: a state this thread has claimed is resolved by this thread alone, since nobody else has its node.
\<close>

datatype signal_stage = AwaitSignal | DrainBridge | DrainTracker | QuitAsked

text \<open>
  \<open>sg_mine\<close> and \<open>sg_my_waits\<close> are the nodes the thread has claimed and not yet resolved. For the statements only:
  \<open>sg_asked\<close> and \<open>sg_waiting\<close> are the requests made before the bridge was drained and those of them that
  were in the table then; \<open>sg_sends\<close> and \<open>sg_confirming\<close> the same for the tracker.
\<close>

record signal_run =
  sg_stage :: signal_stage
  sg_bridge :: bridge
  sg_tracker :: tracker
  sg_mine :: "(nat \<times> bridge_result) list"
  sg_my_waits :: "(nat \<times> send_outcome option) list"
  sg_calls :: "main_call list"
  sg_asked :: nat
  sg_waiting :: "nat list"
  sg_sends :: nat
  sg_confirming :: "nat list"

definition signal_start :: "bridge \<Rightarrow> tracker \<Rightarrow> signal_run" where
  "signal_start b t = \<lparr>sg_stage = AwaitSignal, sg_bridge = b, sg_tracker = t, sg_mine = [], sg_my_waits = [],
     sg_calls = [], sg_asked = 0, sg_waiting = [], sg_sends = 0, sg_confirming = []\<rparr>"

definition shutdown_error :: bridge_result where
  "shutdown_error = (Rejected, Some (makeError 503 ''UPSTREAM_SHUTDOWN''))"

section \<open>The thread's own actions\<close>

text \<open>The signal has come: \<^verbatim>\<open>drainPending\<close> up to the end of its claim, then its loop over the nodes it got.\<close>

definition signal_claim :: "signal_run \<Rightarrow> signal_run" where
  "signal_claim s =
     (let b = sg_bridge s; b' = claimExpired time_max shutdown_error b
      in s\<lparr>sg_stage := DrainBridge, sg_bridge := b', sg_mine := drop (length (claimed (b_once b))) (claimed (b_once b')),
           sg_asked := length (slots (b_once b)), sg_waiting := map snd (table (b_once b))\<rparr>)"

definition signal_resolve :: "bool \<Rightarrow> nat \<times> bridge_result \<Rightarrow> signal_run \<Rightarrow> signal_run" where
  "signal_resolve lr e s = s\<lparr>sg_bridge := Bridge.resolve lr e (sg_bridge s), sg_mine := remove1 e (sg_mine s)\<rparr>"

text \<open>\<^verbatim>\<open>drainAll\<close> in the same two parts, and the task that has the server quit.\<close>

definition signal_claim_waits :: "signal_run \<Rightarrow> signal_run" where
  "signal_claim_waits s =
     (let t = sg_tracker s; t' = drain_claim t
      in s\<lparr>sg_stage := DrainTracker, sg_tracker := t', sg_my_waits := drop (length (claimed (t_once t))) (claimed (t_once t')),
           sg_sends := length (slots (t_once t)), sg_confirming := map snd (table (t_once t))\<rparr>)"

definition signal_resolve_wait :: "bool \<Rightarrow> nat \<times> send_outcome option \<Rightarrow> signal_run \<Rightarrow> signal_run" where
  "signal_resolve_wait lr e s =
     s\<lparr>sg_tracker := track_resolve lr e (sg_tracker s), sg_my_waits := remove1 e (sg_my_waits s)\<rparr>"

definition signal_quit :: "signal_run \<Rightarrow> signal_run" where
  "signal_quit s = s\<lparr>sg_stage := QuitAsked, sg_calls := sg_calls s @ [QueueQuit]\<rparr>"

inductive sigstep :: "signal_run \<Rightarrow> signal_run \<Rightarrow> bool" where
  requests: "bstep (sg_bridge s) b \<Longrightarrow> set (sg_mine s) \<subseteq> set (claimed (b_once b)) \<Longrightarrow> sigstep s (s\<lparr>sg_bridge := b\<rparr>)"
| confirmations: "tstep (sg_tracker s) t \<Longrightarrow> set (sg_my_waits s) \<subseteq> set (claimed (t_once t)) \<Longrightarrow>
    sigstep s (s\<lparr>sg_tracker := t\<rparr>)"
| claim: "sg_stage s = AwaitSignal \<Longrightarrow> sigstep s (signal_claim s)"
| resolve: "e \<in> set (sg_mine s) \<Longrightarrow> sigstep s (signal_resolve lr e s)"
| claim_waits: "sg_stage s = DrainBridge \<Longrightarrow> sg_mine s = [] \<Longrightarrow> sigstep s (signal_claim_waits s)"
| resolve_wait: "e \<in> set (sg_my_waits s) \<Longrightarrow> sigstep s (signal_resolve_wait lr e s)"
| quit: "sg_stage s = DrainTracker \<Longrightarrow> sg_my_waits s = [] \<Longrightarrow> sigstep s (signal_quit s)"

inductive sigreach :: "signal_run \<Rightarrow> signal_run \<Rightarrow> bool" for s0 where
  start: "sigreach s0 s0"
| step: "sigreach s0 s \<Longrightarrow> sigstep s s' \<Longrightarrow> sigreach s0 s'"

section \<open>What a drain hands over\<close>

text \<open>
  Each of the waiters \<open>ws\<close> is still among the nodes \<open>mine\<close> of the draining thread, to be resolved with \<open>r\<close>, or
  its slot holds \<open>r\<close>.
\<close>

definition handed :: "nat list \<Rightarrow> 'r \<Rightarrow> (nat \<times> 'r) list \<Rightarrow> ('k, 'r) once \<Rightarrow> bool" where
  "handed ws r mine c \<longleftrightarrow> distinct mine \<and> set mine \<subseteq> set (claimed c) \<and> (\<forall>e \<in> set mine. snd e = r)
     \<and> (\<forall>i \<in> set ws. (i, r) \<in> set mine \<or> i < length (slots c) \<and> slots c ! i = Some r)"

text \<open>The coroutines that have been handed to their event loop, or resumed, as often as they have been.\<close>

definition handed_on :: "('k, 'r) once \<Rightarrow> nat multiset" where
  "handed_on c = mset (queued c) + mset (map fst (resumed c))"

lemma handed_on_in: "i \<in># handed_on c \<longleftrightarrow> i \<in> set (queued c) \<or> i \<in> fst ` set (resumed c)"
  by (simp add: handed_on_def)

lemma handed_nothing [simp]: "handed [] r [] c"
  by (simp add: handed_def)

lemma handed_claim:
  assumes "once_inv c" "\<forall>e \<in> set (table c). P (snd e)"
  shows "handed (map snd (table c)) r (drop (length (claimed c)) (claimed (once_claim_all P r c))) (once_claim_all P r c)"
proof -
  have all: "filter (\<lambda>e. P (snd e)) (table c) = table c" using assms(2) by (simp add: filter_id_conv)
  have "distinct (map snd (table c))" using places_once [OF assms(1)] by simp
  then have "distinct (map (\<lambda>e. (snd e, r)) (table c))" by (auto simp: distinct_map inj_on_def)
  then show ?thesis by (auto simp: handed_def once_claim_all_def all)
qed

lemma handed_resolve:
  assumes "once_inv c" "handed ws r mine c" "e \<in> set mine"
  shows "handed ws r (remove1 e mine) (once_resolve lr e c)"
proof -
  have h: "distinct mine" "set mine \<subseteq> set (claimed c)" "\<forall>e \<in> set mine. snd e = r"
      "\<forall>i \<in> set ws. (i, r) \<in> set mine \<or> i < length (slots c) \<and> slots c ! i = Some r"
    using assms(2) by (simp_all add: handed_def)
  have e: "e \<in> set (claimed c)" "snd e = r" using h(2,3) assms(3) by auto
  then have at: "fst e < length (slots c)" "slots c ! fst e = None"
    using place_bounds(2) [OF assms(1)] assms(1) by (auto simp: once_inv_def)
  have new: "slots (once_resolve lr e c) = (slots c)[fst e := Some r]"
    using at e(2) by (simp add: once_resolve_def Let_def)
  have "set (remove1 e mine) \<subseteq> set (claimed (once_resolve lr e c))"
  proof
    fix x assume "x \<in> set (remove1 e mine)"
    then have "x \<noteq> e" "x \<in> set (claimed c)" using h(1,2) by (auto simp: set_remove1_eq)
    then show "x \<in> set (claimed (once_resolve lr e c))" by (simp add: once_resolve_frame(3) [OF e(1)])
  qed
  moreover obtain k where k: "e = (k, r)" using e(2) by (cases e) simp
  have "(i, r) \<in> set (remove1 e mine) \<or> i < length (slots (once_resolve lr e c)) \<and> slots (once_resolve lr e c) ! i = Some r"
    if "i \<in> set ws" for i
    using that h(1,4) at unfolding new by (cases "i = k") (auto simp: k set_remove1_eq nth_list_update)
  ultimately show ?thesis using h(1,3) by (auto simp: handed_def set_remove1_eq)
qed

lemma handed_kept:
  assumes "handed ws r mine c" "set mine \<subseteq> set (claimed c')"
    and "\<And>i x. i < length (slots c) \<Longrightarrow> slots c ! i = Some x \<Longrightarrow> i < length (slots c') \<and> slots c' ! i = Some x"
  shows "handed ws r mine c'"
  using assms unfolding handed_def by blast

lemma handed_over:
  assumes "once_inv c" "handed ws r [] c" "i \<in> set ws"
  shows "slots c ! i = Some r \<and> count (handed_on c) i = 1"
proof -
  have i: "i < length (slots c)" "slots c ! i = Some r" using assms(2,3) by (auto simp: handed_def)
  then have "i \<notin> snd ` set (table c)" "i \<notin> fst ` set (claimed c)" using assms(1) by (auto simp: once_inv_def)
  then have "count (mset (map snd (table c))) i = 0" "count (mset (map fst (claimed c))) i = 0"
    by (simp_all add: not_in_iff [symmetric])
  moreover have "count (places c) i = 1" using assms(1) i(1) by (simp add: once_inv_def)
  ultimately show ?thesis using i(2) by (simp add: places_def handed_on_def)
qed

lemma drained_place:
  assumes "once_inv c" "drained_below n c" "i < n"
  shows "i \<in># handed_on c \<or> i \<in> fst ` set (claimed c)"
proof -
  have "i \<in># places c" using assms by (simp add: once_inv_def drained_below_def)
  moreover have "i \<notin> snd ` set (table c)" using assms(2,3) by (auto simp: drained_below_def)
  ultimately show ?thesis unfolding handed_on_in by (auto simp: places_def)
qed

text \<open>No step of the bridge or of the tracker changes a result.\<close>

lemma resolve_slots: "slots c ! i = Some x \<Longrightarrow> slots (once_resolve lr e c) ! i = Some x"
  by (cases "fst e = i") (simp_all add: once_resolve_def Let_def)

lemma bstep_slots:
  "bstep b b' \<Longrightarrow> i < length (slots (b_once b)) \<Longrightarrow> slots (b_once b) ! i = Some x \<Longrightarrow>
     i < length (slots (b_once b')) \<and> slots (b_once b') ! i = Some x"
proof (induction rule: bstep.induct)
  case (step_suspend b now fn)
  then show ?case
    by (auto simp: await_suspend_def Let_def once_reject_def nth_append split: prod.split bool.split)
next
  case (step_receive b rid ob)
  then show ?case using claim_grows [of rid "(Fulfilled, Some ob)" "b_once b"] by (simp add: dispatch_claim_def)
next
  case (step_resolve e b lr)
  then show ?case by (simp add: Bridge.resolve_def resolve_grows resolve_slots)
next
  case (step_resume j b)
  then show ?case by (simp add: resume_grows)
qed (simp_all add: send_registered_def sendOneWay_def Let_def claimExpired_def once_claim_all_def)

lemma tstep_slots:
  "tstep t t' \<Longrightarrow> i < length (slots (t_once t)) \<Longrightarrow> slots (t_once t) ! i = Some x \<Longrightarrow>
     i < length (slots (t_once t')) \<and> slots (t_once t') ! i = Some x"
proof (induction rule: tstep.induct)
  case (t_suspend t mid)
  then show ?case
    by (auto simp: track_suspend_def Let_def once_reject_def nth_append split: prod.split bool.split)
next
  case (t_timer mid t)
  then show ?case using claim_grows [of mid None "t_once t"] by (simp add: timer_claim_def)
next
  case (t_outcome t mid out)
  then show ?case using claim_grows [of mid "Some out" "t_once t"] by (simp add: outcome_claim_def)
next
  case (t_resolve e t lr)
  then show ?case by (simp add: track_resolve_def resolve_grows resolve_slots)
next
  case (t_resume j t)
  then show ?case by (simp add: resume_grows)
qed (simp_all add: drain_claim_def once_claim_all_def)

section \<open>The invariant\<close>

definition signal_inv :: "signal_run \<Rightarrow> bool" where
  "signal_inv s \<longleftrightarrow> bridge_reachable (sg_bridge s) \<and> tracker_reachable (sg_tracker s)
     \<and> handed (sg_waiting s) shutdown_error (sg_mine s) (b_once (sg_bridge s))
     \<and> handed (sg_confirming s) None (sg_my_waits s) (t_once (sg_tracker s))
     \<and> (sg_stage s \<noteq> AwaitSignal \<longrightarrow> drained_below (sg_asked s) (b_once (sg_bridge s)))
     \<and> (sg_stage s \<in> {DrainTracker, QuitAsked} \<longrightarrow> sg_mine s = [] \<and> drained_below (sg_sends s) (t_once (sg_tracker s)))
     \<and> (sg_stage s = QuitAsked \<longrightarrow> sg_my_waits s = [])
     \<and> sg_calls s = (if sg_stage s = QuitAsked then [QueueQuit] else [])"

lemma signal_invD:
  assumes "signal_inv s"
  shows "once_inv (b_once (sg_bridge s))" "once_inv (t_once (sg_tracker s))"
  using assms reachable_inv tracker_invD(1) [OF tracker_reachable_inv] by (auto simp: signal_inv_def bridge_inv_def)

lemma signal_inv_requests:
  assumes inv: "signal_inv s" and b: "bstep (sg_bridge s) b" "set (sg_mine s) \<subseteq> set (claimed (b_once b))"
  shows "signal_inv (s\<lparr>sg_bridge := b\<rparr>)"
proof -
  have "handed (sg_waiting s) shutdown_error (sg_mine s) (b_once (sg_bridge s))"
    using inv by (simp add: signal_inv_def)
  then have "handed (sg_waiting s) shutdown_error (sg_mine s) (b_once b)"
    by (rule handed_kept [OF _ b(2)]) (rule bstep_slots [OF b(1)])
  then show ?thesis using inv drained_bstep [OF b(1)] reach_step [OF _ b(1)] by (simp add: signal_inv_def)
qed

lemma signal_inv_confirmations:
  assumes inv: "signal_inv s" and t: "tstep (sg_tracker s) t" "set (sg_my_waits s) \<subseteq> set (claimed (t_once t))"
  shows "signal_inv (s\<lparr>sg_tracker := t\<rparr>)"
proof -
  have "handed (sg_confirming s) None (sg_my_waits s) (t_once (sg_tracker s))"
    using inv by (simp add: signal_inv_def)
  then have "handed (sg_confirming s) None (sg_my_waits s) (t_once t)"
    by (rule handed_kept [OF _ t(2)]) (rule tstep_slots [OF t(1)])
  then show ?thesis using inv drained_tstep [OF t(1)] t_step [OF _ t(1)] by (simp add: signal_inv_def)
qed

lemma signal_inv_claim:
  assumes inv: "signal_inv s" and st: "sg_stage s = AwaitSignal"
  shows "signal_inv (signal_claim s)"
proof -
  let ?b = "sg_bridge s" and ?b' = "claimExpired time_max shutdown_error (sg_bridge s)"
  have "bridge_inv ?b" using inv reachable_inv by (simp add: signal_inv_def)
  then have due: "\<forall>e \<in> set (table (b_once ?b)). b_deadlines ?b ! snd e \<le> time_max"
    by (auto simp: bridge_inv_def ids_inv_def)
  have "handed (map snd (table (b_once ?b))) shutdown_error
      (drop (length (claimed (b_once ?b))) (claimed (b_once ?b'))) (b_once ?b')"
    using handed_claim [OF signal_invD(1) [OF inv] due] by (simp add: claimExpired_def)
  moreover have "drained_below (length (slots (b_once ?b))) (b_once ?b')"
    using due by (auto simp: drained_below_def claimExpired_def once_claim_all_def)
  moreover have "bstep ?b ?b'" unfolding shutdown_error_def by (rule step_drain)
  ultimately show ?thesis using inv st reach_step by (auto simp: signal_inv_def signal_claim_def Let_def)
qed

lemma signal_inv_resolve:
  assumes inv: "signal_inv s" and e: "e \<in> set (sg_mine s)"
  shows "signal_inv (signal_resolve lr e s)"
proof -
  have h: "handed (sg_waiting s) shutdown_error (sg_mine s) (b_once (sg_bridge s))"
    using inv by (simp add: signal_inv_def)
  then have "e \<in> set (claimed (b_once (sg_bridge s)))" using e by (auto simp: handed_def)
  then have b: "bstep (sg_bridge s) (Bridge.resolve lr e (sg_bridge s))" by (rule step_resolve)
  have "handed (sg_waiting s) shutdown_error (remove1 e (sg_mine s)) (b_once (Bridge.resolve lr e (sg_bridge s)))"
    using handed_resolve [OF signal_invD(1) [OF inv] h e] by (simp add: Bridge.resolve_def)
  then show ?thesis
    using inv e drained_bstep [OF b] reach_step [OF _ b] by (auto simp: signal_inv_def signal_resolve_def)
qed

lemma signal_inv_claim_waits:
  assumes inv: "signal_inv s" and st: "sg_stage s = DrainBridge" "sg_mine s = []"
  shows "signal_inv (signal_claim_waits s)"
proof -
  let ?t = "sg_tracker s"
  have "handed (map snd (table (t_once ?t))) None
      (drop (length (claimed (t_once ?t))) (claimed (t_once (drain_claim ?t)))) (t_once (drain_claim ?t))"
    using handed_claim [OF signal_invD(2) [OF inv], of "\<lambda>_. True"] by (simp add: drain_claim_def)
  moreover have "drained_below (length (slots (t_once ?t))) (t_once (drain_claim ?t))"
    by (simp add: drained_below_def drain_claim_def once_claim_all_def)
  ultimately show ?thesis
    using inv st t_step [OF _ t_drain] by (auto simp: signal_inv_def signal_claim_waits_def Let_def)
qed

lemma signal_inv_resolve_wait:
  assumes inv: "signal_inv s" and e: "e \<in> set (sg_my_waits s)"
  shows "signal_inv (signal_resolve_wait lr e s)"
proof -
  have h: "handed (sg_confirming s) None (sg_my_waits s) (t_once (sg_tracker s))"
    using inv by (simp add: signal_inv_def)
  then have "e \<in> set (claimed (t_once (sg_tracker s)))" using e by (auto simp: handed_def)
  then have t: "tstep (sg_tracker s) (track_resolve lr e (sg_tracker s))" by (rule t_resolve)
  have "handed (sg_confirming s) None (remove1 e (sg_my_waits s)) (t_once (track_resolve lr e (sg_tracker s)))"
    using handed_resolve [OF signal_invD(2) [OF inv] h e] by (simp add: track_resolve_def)
  then show ?thesis
    using inv e drained_tstep [OF t] t_step [OF _ t] by (auto simp: signal_inv_def signal_resolve_wait_def)
qed

lemma signal_inv_step: "sigstep s s' \<Longrightarrow> signal_inv s \<Longrightarrow> signal_inv s'"
proof (induction rule: sigstep.induct)
  case (quit s)
  then show ?case by (auto simp: signal_inv_def signal_quit_def)
qed (auto intro: signal_inv_requests signal_inv_confirmations signal_inv_claim signal_inv_resolve
    signal_inv_claim_waits signal_inv_resolve_wait)

lemma signal_inv_start:
  "bridge_reachable b \<Longrightarrow> tracker_reachable t \<Longrightarrow> signal_inv (signal_start b t)"
  by (simp add: signal_inv_def signal_start_def)

lemma signal_inv_reach:
  "sigreach s0 s \<Longrightarrow> signal_inv s0 \<Longrightarrow> signal_inv s"
  by (induction rule: sigreach.induct) (auto intro: signal_inv_step)

section \<open>The two moments\<close>

text \<open>The states in which the thread took the two tables.\<close>

definition claimed_from :: "signal_run \<Rightarrow> signal_run \<Rightarrow> signal_run \<Rightarrow> bool" where
  "claimed_from s0 s1 s \<longleftrightarrow> sigreach s0 s1 \<and> sg_stage s1 = AwaitSignal \<and> sigreach (signal_claim s1) s
     \<and> sg_waiting s = map snd (table (b_once (sg_bridge s1))) \<and> sg_asked s = length (slots (b_once (sg_bridge s1)))"

definition waits_claimed_from :: "signal_run \<Rightarrow> signal_run \<Rightarrow> signal_run \<Rightarrow> bool" where
  "waits_claimed_from s1 s2 s \<longleftrightarrow> sigreach (signal_claim s1) s2 \<and> sigreach (signal_claim_waits s2) s
     \<and> sg_confirming s = map snd (table (t_once (sg_tracker s2))) \<and> sg_sends s = length (slots (t_once (sg_tracker s2)))"

definition signal_past :: "signal_run \<Rightarrow> signal_run \<Rightarrow> bool" where
  "signal_past s0 s \<longleftrightarrow> (sg_stage s \<noteq> AwaitSignal \<longrightarrow> (\<exists>s1. claimed_from s0 s1 s
     \<and> (sg_stage s \<noteq> DrainBridge \<longrightarrow> (\<exists>s2. waits_claimed_from s1 s2 s))))"

lemma signal_past_keeps:
  assumes "sigstep s s'" "signal_past s0 s" "sg_stage s = AwaitSignal \<longrightarrow> sg_stage s' = AwaitSignal"
    "sg_stage s = DrainBridge \<longrightarrow> sg_stage s' = DrainBridge" "sg_waiting s' = sg_waiting s" "sg_asked s' = sg_asked s"
    "sg_confirming s' = sg_confirming s" "sg_sends s' = sg_sends s"
  shows "signal_past s0 s'"
proof -
  have "claimed_from s0 s1 s'" if "claimed_from s0 s1 s" for s1
    using that assms(1,5,6) by (auto simp: claimed_from_def intro: sigreach.step)
  moreover have "waits_claimed_from s1 s2 s'" if "waits_claimed_from s1 s2 s" for s1 s2
    using that assms(1,7,8) by (auto simp: waits_claimed_from_def intro: sigreach.step)
  ultimately show ?thesis using assms(2-4) unfolding signal_past_def by blast
qed

lemma signal_past_step:
  "sigstep s s' \<Longrightarrow> sigreach s0 s \<Longrightarrow> signal_past s0 s \<Longrightarrow> signal_past s0 s'"
proof (induction rule: sigstep.induct)
  case (claim s)
  have "sg_stage (signal_claim s) = DrainBridge" by (simp add: signal_claim_def Let_def)
  moreover have "claimed_from s0 s (signal_claim s)"
    using claim sigreach.start by (simp add: claimed_from_def signal_claim_def Let_def)
  ultimately show ?case unfolding signal_past_def by auto
next
  case (claim_waits s)
  then obtain s1 where s1: "claimed_from s0 s1 s" by (auto simp: signal_past_def)
  then have "claimed_from s0 s1 (signal_claim_waits s)"
    using sigreach.step [OF _ sigstep.claim_waits [OF claim_waits(1,2)], of "signal_claim s1"]
    by (simp add: claimed_from_def) (simp add: signal_claim_waits_def Let_def)
  moreover have "waits_claimed_from s1 s (signal_claim_waits s)"
    using s1 sigreach.start by (simp add: waits_claimed_from_def claimed_from_def) (simp add: signal_claim_waits_def Let_def)
  ultimately show ?case unfolding signal_past_def by blast
next
  case (requests s b)
  then show ?case by (intro signal_past_keeps [OF sigstep.requests]) simp_all
next
  case (confirmations s t)
  then show ?case by (intro signal_past_keeps [OF sigstep.confirmations]) simp_all
next
  case (resolve e s lr)
  then show ?case by (intro signal_past_keeps [OF sigstep.resolve]) (simp_all add: signal_resolve_def)
next
  case (resolve_wait e s lr)
  then show ?case by (intro signal_past_keeps [OF sigstep.resolve_wait]) (simp_all add: signal_resolve_wait_def)
next
  case (quit s)
  then show ?case by (intro signal_past_keeps [OF sigstep.quit]) (simp_all add: signal_quit_def)
qed

lemma signal_past_reach: "sigreach (signal_start b t) s \<Longrightarrow> signal_past (signal_start b t) s"
proof (induction rule: sigreach.induct)
  case start
  show ?case by (simp add: signal_past_def signal_start_def)
qed (rule signal_past_step)

section \<open>What a signal achieves\<close>

text \<open>C12: Whatever the other threads do meanwhile, the thread that waits for signals asks the server to quit once and last.
  Before it does, there was a moment \<open>s1\<close> at which it took the table of the bridge and a later one \<open>s2\<close> at which it took
  the tracker's; and when it asks, every coroutine that was in the bridge's table at \<open>s1\<close> has the error 503
  UPSTREAM_SHUTDOWN as its result, every one that was in the tracker's at \<open>s2\<close> has no outcome, and each of them stands
  exactly once among those queued on their event loop or already resumed. Any other that had asked before these
  moments has been handed over too, or another thread had taken its node before and is about to resolve it.
  Nothing is said of those that ask later: they stay in the tables for the drains at the end of main.\<close>

theorem signal_answers_waiting:
  assumes "bridge_reachable b" "tracker_reachable t" "sigreach (signal_start b t) s"
  shows "sg_calls s = (if sg_stage s = QuitAsked then [QueueQuit] else [])
    \<and> (sg_stage s = QuitAsked \<longrightarrow> (\<exists>s1 s2. sigreach (signal_start b t) s1 \<and> sg_stage s1 = AwaitSignal
        \<and> sigreach (signal_claim s1) s2 \<and> sigreach (signal_claim_waits s2) s
        \<and> (\<forall>i \<in> snd ` set (table (b_once (sg_bridge s1))). slots (b_once (sg_bridge s)) ! i = Some shutdown_error
             \<and> count (handed_on (b_once (sg_bridge s))) i = 1)
        \<and> (\<forall>i \<in> snd ` set (table (t_once (sg_tracker s2))). slots (t_once (sg_tracker s)) ! i = Some None
             \<and> count (handed_on (t_once (sg_tracker s))) i = 1)
        \<and> (\<forall>i < length (slots (b_once (sg_bridge s1))).
             i \<in># handed_on (b_once (sg_bridge s)) \<or> i \<in> fst ` set (claimed (b_once (sg_bridge s))))
        \<and> (\<forall>i < length (slots (t_once (sg_tracker s2))).
             i \<in># handed_on (t_once (sg_tracker s)) \<or> i \<in> fst ` set (claimed (t_once (sg_tracker s))))))"
proof (intro conjI impI)
  have inv: "signal_inv s" using signal_inv_reach [OF assms(3) signal_inv_start [OF assms(1,2)]] .
  then show "sg_calls s = (if sg_stage s = QuitAsked then [QueueQuit] else [])" by (simp add: signal_inv_def)
  assume q: "sg_stage s = QuitAsked"
  then obtain s1 s2 where s1: "claimed_from (signal_start b t) s1 s" and s2: "waits_claimed_from s1 s2 s"
    using signal_past_reach [OF assms(3)] by (auto simp: signal_past_def)
  have w: "set (sg_waiting s) = snd ` set (table (b_once (sg_bridge s1)))"
    "set (sg_confirming s) = snd ` set (table (t_once (sg_tracker s2)))"
    using s1 s2 by (simp_all add: claimed_from_def waits_claimed_from_def)
  have h: "handed (sg_waiting s) shutdown_error [] (b_once (sg_bridge s))"
    "handed (sg_confirming s) None [] (t_once (sg_tracker s))"
    "drained_below (length (slots (b_once (sg_bridge s1)))) (b_once (sg_bridge s))"
    "drained_below (length (slots (t_once (sg_tracker s2)))) (t_once (sg_tracker s))"
    using inv q s1 s2 by (auto simp: signal_inv_def claimed_from_def waits_claimed_from_def)
  note c = signal_invD [OF inv]
  show "\<exists>s1 s2. sigreach (signal_start b t) s1 \<and> sg_stage s1 = AwaitSignal
        \<and> sigreach (signal_claim s1) s2 \<and> sigreach (signal_claim_waits s2) s
        \<and> (\<forall>i \<in> snd ` set (table (b_once (sg_bridge s1))). slots (b_once (sg_bridge s)) ! i = Some shutdown_error
             \<and> count (handed_on (b_once (sg_bridge s))) i = 1)
        \<and> (\<forall>i \<in> snd ` set (table (t_once (sg_tracker s2))). slots (t_once (sg_tracker s)) ! i = Some None
             \<and> count (handed_on (t_once (sg_tracker s))) i = 1)
        \<and> (\<forall>i < length (slots (b_once (sg_bridge s1))).
             i \<in># handed_on (b_once (sg_bridge s)) \<or> i \<in> fst ` set (claimed (b_once (sg_bridge s))))
        \<and> (\<forall>i < length (slots (t_once (sg_tracker s2))).
             i \<in># handed_on (t_once (sg_tracker s)) \<or> i \<in> fst ` set (claimed (t_once (sg_tracker s))))"
  proof (rule exI [of _ s1], rule exI [of _ s2], intro conjI ballI allI impI)
    show "sigreach (signal_start b t) s1" "sg_stage s1 = AwaitSignal" "sigreach (signal_claim s1) s2"
      "sigreach (signal_claim_waits s2) s"
      using s1 s2 by (simp_all add: claimed_from_def waits_claimed_from_def)
  qed (use handed_over [OF c(1) h(1)] handed_over [OF c(2) h(2)] drained_place [OF c(1) h(3)] drained_place [OF c(2) h(4)]
      in \<open>simp_all only: w\<close>)
qed

section \<open>An instance\<close>

text \<open>One request waits when the signal comes; the coroutine, resumed by the drain, asks TDLib again before the thread
  has the server quit, and that request is left to the end of main.\<close>

definition sample_asked :: bridge where
  "sample_asked = await_suspend 0 GetMe (bridge_init 2000 30000 1000)"

definition sample_answered :: signal_run where
  "sample_answered = signal_resolve True (0, shutdown_error) (signal_claim (signal_start sample_asked tracker_init))"

definition sample_asks_again :: signal_run where
  "sample_asks_again = sample_answered\<lparr>sg_bridge := await_suspend 0 (GetChats 20)
     ((sg_bridge sample_answered)\<lparr>b_once := once_resume 0 (b_once (sg_bridge sample_answered))\<rparr>)\<rparr>"

definition sample_quit :: signal_run where
  "sample_quit = signal_quit (signal_claim_waits sample_asks_again)"

lemmas sample_signal_defs = sample_quit_def sample_asks_again_def sample_answered_def sample_asked_def signal_quit_def
  signal_claim_waits_def signal_resolve_def signal_claim_def signal_start_def Bridge.resolve_def claimExpired_def
  once_claim_all_def once_resolve_def once_resume_def await_suspend_def bridge_init_def once_empty_def next_id_def
  corr_tryInsert_def drain_claim_def tracker_init_def Let_def

lemma sample_quit_tables:
  "table (b_once (sg_bridge sample_quit)) = [(2, 1)]" "sg_stage sample_quit = QuitAsked"
  "resumed (b_once (sg_bridge sample_quit)) = [(0, shutdown_error)]"
  by (simp_all add: sample_signal_defs time_max_def)

lemma sample_asked_reach: "bridge_reachable sample_asked"
  unfolding sample_asked_def by (intro reach_step [OF reach_init step_suspend]) (simp_all add: bridge_init_def time_max_def)

lemma sample_quit_reach: "sigreach (signal_start sample_asked tracker_init) sample_quit"
proof -
  let ?s0 = "signal_start sample_asked tracker_init" and ?b = "sg_bridge sample_answered"
  let ?b1 = "?b\<lparr>b_once := once_resume 0 (b_once ?b)\<rparr>"
  have at: "sg_mine (signal_claim ?s0) = [(0, shutdown_error)]" "queued (b_once ?b) = [0]" "sg_mine sample_answered = []"
      "sg_stage sample_answered = DrainBridge" "b_counter ?b1 = 1" "b_ttl ?b1 = 30000"
    by (simp_all add: sample_signal_defs time_max_def)
  have "sigreach ?s0 (signal_claim ?s0)"
    by (rule sigreach.step [OF sigreach.start sigstep.claim]) (simp add: signal_start_def)
  then have a: "sigreach ?s0 sample_answered"
    unfolding sample_answered_def by (rule sigreach.step [OF _ sigstep.resolve]) (simp add: at(1))
  have "bstep ?b ?b1" by (rule step_resume) (simp add: at(2))
  from sigreach.step [OF a sigstep.requests [OF this]]
  have "sigreach ?s0 (sample_answered\<lparr>sg_bridge := ?b1\<rparr>)" (is "sigreach _ ?r") by (simp add: at(3))
  moreover have "bstep (sg_bridge ?r) (await_suspend 0 (GetChats 20) ?b1)"
    using at(5,6) step_suspend [of ?b1 0 "GetChats 20"] by (simp add: time_max_def)
  ultimately have "sigreach ?s0 sample_asks_again"
    using sigreach.step [OF _ sigstep.requests, of ?s0 ?r] by (simp add: at(3) sample_asks_again_def)
  then have "sigreach ?s0 (signal_claim_waits sample_asks_again)"
    by (rule sigreach.step [OF _ sigstep.claim_waits]) (simp_all add: sample_asks_again_def at(3,4))
  then show ?thesis unfolding sample_quit_def
    by (rule sigreach.step [OF _ sigstep.quit])
      (simp_all add: sample_signal_defs)
qed

theorem signal_answers_waiting_witness:
  "\<exists>s :: signal_run. sg_stage s = QuitAsked \<and> sg_calls s = [QueueQuit] \<and> resumed (b_once (sg_bridge s)) = [(0, shutdown_error)]
     \<and> table (b_once (sg_bridge s)) \<noteq> []"
proof -
  from signal_answers_waiting [OF sample_asked_reach t_init sample_quit_reach, THEN conjunct1] sample_quit_tables
  show ?thesis by (intro exI [of _ sample_quit]) simp
qed

end
