(* ===== verification/LoopThread.thy ===== *)
theory LoopThread
  imports Prelude
begin

text \<open>
  \<^verbatim>\<open>detail::LoopThread\<close> of \<^verbatim>\<open>src/src/webhook/webhook_dispatcher.cpp\<close>: an event loop in a thread of its own. The
  constructor starts the thread and waits under the mutex until it has published its loop; the destructor queues
  the loop's end and joins. Of trantor's loop only the order is used: what is queued runs in the order it was
  queued in, until the end among it has run.
\<close>

datatype loop_phase = NotYet | Looping | LoopEnded

datatype owner_phase = InConstructor | Owning | InDestructor | Destroyed

datatype 'f queued = Fun 'f | Quit

record 'f loop_object =
  lt_phase :: loop_phase
  lt_loop :: bool
  lt_owner :: owner_phase
  lt_queue :: "'f queued list"
  lt_posted :: "'f list"
  lt_ran :: "'f list"

text \<open>The thread has been started; \<^verbatim>\<open>loop_\<close> is still null.\<close>

definition constructor_begins :: "'f loop_object" where
  "constructor_begins = \<lparr>lt_phase = NotYet, lt_loop = False, lt_owner = InConstructor, lt_queue = [], lt_posted = [], lt_ran = []\<rparr>"

definition publish :: "'f loop_object \<Rightarrow> 'f loop_object" where
  "publish l = l\<lparr>lt_loop := True, lt_phase := Looping\<rparr>"

text \<open>The wait returns on its condition only, whatever wakes it.\<close>

definition constructor_wakes :: "'f loop_object \<Rightarrow> 'f loop_object" where
  "constructor_wakes l = (if lt_loop l then l\<lparr>lt_owner := Owning\<rparr> else l)"

definition queueInLoop :: "'f \<Rightarrow> 'f loop_object \<Rightarrow> 'f loop_object" where
  "queueInLoop f l = l\<lparr>lt_queue := lt_queue l @ [Fun f], lt_posted := lt_posted l @ [f]\<rparr>"

definition destructor_quits :: "'f loop_object \<Rightarrow> 'f loop_object" where
  "destructor_quits l = l\<lparr>lt_queue := lt_queue l @ [Quit], lt_owner := InDestructor\<rparr>"

definition destructor_joins :: "'f loop_object \<Rightarrow> 'f loop_object" where
  "destructor_joins l = (if lt_phase l = LoopEnded then l\<lparr>lt_owner := Destroyed\<rparr> else l)"

definition loop_turn :: "'f loop_object \<Rightarrow> 'f loop_object" where
  "loop_turn l = (case lt_queue l of
     [] \<Rightarrow> l
   | Fun f # fs \<Rightarrow> l\<lparr>lt_queue := fs, lt_ran := lt_ran l @ [f]\<rparr>
   | Quit # fs \<Rightarrow> l\<lparr>lt_queue := fs, lt_phase := LoopEnded\<rparr>)"

inductive lt_reach :: "'f loop_object \<Rightarrow> bool" where
  begins: "lt_reach constructor_begins"
| publishes: "lt_reach l \<Longrightarrow> lt_phase l = NotYet \<Longrightarrow> lt_reach (publish l)"
| wakes: "lt_reach l \<Longrightarrow> lt_owner l = InConstructor \<Longrightarrow> lt_reach (constructor_wakes l)"
| queues: "lt_reach l \<Longrightarrow> lt_owner l = Owning \<Longrightarrow> lt_reach (queueInLoop f l)"
| quits: "lt_reach l \<Longrightarrow> lt_owner l = Owning \<Longrightarrow> lt_reach (destructor_quits l)"
| joins: "lt_reach l \<Longrightarrow> lt_owner l = InDestructor \<Longrightarrow> lt_reach (destructor_joins l)"
| turns: "lt_reach l \<Longrightarrow> lt_phase l = Looping \<Longrightarrow> lt_reach (loop_turn l)"

fun funs :: "'f queued list \<Rightarrow> 'f list" where
  "funs [] = []"
| "funs (Fun f # qs) = f # funs qs"
| "funs (Quit # qs) = funs qs"

lemma funs_append [simp]: "funs (xs @ ys) = funs xs @ funs ys"
  by (induction xs rule: funs.induct) simp_all

definition lt_inv :: "'f loop_object \<Rightarrow> bool" where
  "lt_inv l \<longleftrightarrow> lt_loop l = (lt_phase l \<noteq> NotYet) \<and> (lt_owner l = InConstructor \<or> lt_loop l)
     \<and> lt_posted l = lt_ran l @ funs (lt_queue l)
     \<and> (case lt_owner l of
          InConstructor \<Rightarrow> lt_queue l = [] \<and> lt_phase l \<noteq> LoopEnded
        | Owning \<Rightarrow> Quit \<notin> set (lt_queue l) \<and> lt_phase l \<noteq> LoopEnded
        | InDestructor \<Rightarrow> (if lt_phase l = LoopEnded then lt_queue l = [] else \<exists>fs. lt_queue l = fs @ [Quit] \<and> Quit \<notin> set fs)
        | Destroyed \<Rightarrow> lt_phase l = LoopEnded \<and> lt_queue l = [])"

lemma loop_turn_inv: "lt_inv l \<Longrightarrow> lt_phase l = Looping \<Longrightarrow> lt_inv (loop_turn l)"
proof (cases "lt_queue l")
  case (Cons q qs)
  moreover assume "lt_inv l" "lt_phase l = Looping"
  ultimately show ?thesis
    by (cases q; cases "lt_owner l"; cases qs rule: rev_cases) (auto simp: lt_inv_def loop_turn_def Cons_eq_append_conv)
qed (simp add: loop_turn_def)

lemma lt_reach_inv: "lt_reach l \<Longrightarrow> lt_inv l"
proof (induction rule: lt_reach.induct)
  case begins
  then show ?case by (simp add: lt_inv_def constructor_begins_def)
next
  case (turns l)
  then show ?case by (simp add: loop_turn_inv)
qed (auto simp: lt_inv_def publish_def constructor_wakes_def queueInLoop_def destructor_quits_def destructor_joins_def
    split: owner_phase.splits if_splits)

text \<open>Whoever has the object has its loop: the pointer is never null outside the constructor, and the constructor
  goes on as soon as it is set. What was queued runs in its order, all of it before the destructor returns, and the
  join it waits for needs no more turns than the queue is long.\<close>

lemma destructor_ends:
  assumes "lt_queue l = fs @ [Quit]" "Quit \<notin> set fs" "lt_phase l = Looping"
  shows "lt_phase ((loop_turn ^^ length (lt_queue l)) l) = LoopEnded"
  using assms
proof (induction fs arbitrary: l)
  case Nil
  then show ?case by (simp add: loop_turn_def)
next
  case (Cons q fs)
  from Cons.prems obtain f where "q = Fun f" by (cases q) auto
  with Cons.prems have t: "lt_queue (loop_turn l) = fs @ [Quit]" "lt_phase (loop_turn l) = Looping"
    by (simp_all add: loop_turn_def)
  from Cons.IH [OF t(1) _ t(2)] Cons.prems(2) have "lt_phase ((loop_turn ^^ length (fs @ [Quit])) (loop_turn l)) = LoopEnded"
    by (simp add: t(1))
  moreover have "length (lt_queue l) = Suc (length (fs @ [Quit]))" using Cons.prems(1) by simp
  ultimately show ?case by (simp only: funpow_Suc_right comp_apply)
qed

theorem loop_thread_complete:
  assumes "lt_reach l"
  shows "(lt_owner l \<noteq> InConstructor \<longrightarrow> lt_loop l)
    \<and> (lt_owner l = InConstructor \<and> lt_loop l \<longrightarrow> lt_owner (constructor_wakes l) = Owning)
    \<and> (\<exists>waiting. lt_posted l = lt_ran l @ waiting)
    \<and> (lt_owner l = Destroyed \<longrightarrow> lt_ran l = lt_posted l)
    \<and> (lt_owner l = InDestructor \<longrightarrow>
        (\<exists>n \<le> length (lt_queue l). lt_owner (destructor_joins ((loop_turn ^^ n) l)) = Destroyed))"
proof -
  have i: "lt_inv l" using assms by (rule lt_reach_inv)
  have "\<exists>n \<le> length (lt_queue l). lt_owner (destructor_joins ((loop_turn ^^ n) l)) = Destroyed" if o: "lt_owner l = InDestructor"
  proof (cases "lt_phase l = LoopEnded")
    case True
    then show ?thesis by (intro exI [of _ 0]) (simp add: destructor_joins_def)
  next
    case False
    with i o obtain fs where q: "lt_queue l = fs @ [Quit]" "Quit \<notin> set fs" "lt_phase l = Looping"
      by (cases "lt_phase l") (auto simp: lt_inv_def)
    from destructor_ends [OF this] show ?thesis
      by (intro exI [of _ "length (lt_queue l)"]) (simp add: destructor_joins_def)
  qed
  with i show ?thesis by (auto simp: lt_inv_def constructor_wakes_def)
qed

theorem loop_thread_complete_witness:
  "\<exists>l :: nat loop_object. lt_reach l \<and> lt_owner l = Destroyed \<and> lt_ran l = [1, 2]"
proof -
  let ?l1 = "constructor_wakes (publish constructor_begins) :: nat loop_object"
  let ?l2 = "destructor_quits (queueInLoop 2 (queueInLoop 1 ?l1))"
  note defs = constructor_begins_def publish_def constructor_wakes_def queueInLoop_def destructor_quits_def
    destructor_joins_def loop_turn_def
  have "lt_reach ?l1" by (intro lt_reach.wakes lt_reach.publishes lt_reach.begins) (simp_all add: defs)
  then have "lt_reach ?l2" by (intro lt_reach.quits lt_reach.queues) (simp_all add: defs)
  then have r: "lt_reach (destructor_joins (loop_turn (loop_turn (loop_turn ?l2))))"
    by (intro lt_reach.joins lt_reach.turns) (simp_all add: defs)
  have "lt_owner (destructor_joins (loop_turn (loop_turn (loop_turn ?l2)))) = Destroyed"
      "lt_posted (destructor_joins (loop_turn (loop_turn (loop_turn ?l2)))) = [1, 2]"
    by (simp_all add: defs)
  with r loop_thread_complete [OF r] show ?thesis by metis
qed

end
