(* ===== verification/Authority.thy ===== *)
theory Authority
  imports Surface
begin

text \<open>
  Filter, routes and handlers together: what a request can do to the account, the session and the machine, against
  what the token it carries allows. Every call a handler makes of the rest of the program has the scope that it
  needs; the handlers are those of \<open>Endpoints\<close>, behind the registrations of \<open>Surface\<close>.
\<close>

section \<open>What an effect needs\<close>

definition function_scope :: "td_function \<Rightarrow> scope" where
  "function_scope f = (case f of
     GetOption _ \<Rightarrow> ScopeRead | GetMe \<Rightarrow> ScopeRead | LoadChats _ \<Rightarrow> ScopeRead | GetChats _ \<Rightarrow> ScopeRead | GetChat _ \<Rightarrow> ScopeRead
   | GetChatHistory _ _ _ _ _ \<Rightarrow> ScopeRead | GetMessage _ _ \<Rightarrow> ScopeRead | SearchChatMessages _ _ _ _ _ \<Rightarrow> ScopeRead
   | SearchMessages _ _ _ _ _ \<Rightarrow> ScopeRead | GetFile _ \<Rightarrow> ScopeRead | DownloadFile _ _ _ _ _ \<Rightarrow> ScopeRead
   | SearchPublicChat _ \<Rightarrow> ScopeRead | GetUser _ \<Rightarrow> ScopeRead | SearchChatMembers _ _ _ \<Rightarrow> ScopeRead | GetContacts \<Rightarrow> ScopeRead
   | SendMessage _ _ _ \<Rightarrow> ScopeWrite | SendChatActionTyping _ \<Rightarrow> ScopeWrite | EditMessageText _ _ _ \<Rightarrow> ScopeWrite
   | DeleteMessages _ _ _ \<Rightarrow> ScopeWrite | ForwardMessages _ _ _ _ _ \<Rightarrow> ScopeWrite | ViewMessages _ _ _ \<Rightarrow> ScopeWrite
   | AddMessageReaction _ _ _ _ _ \<Rightarrow> ScopeWrite | RemoveMessageReaction _ _ _ \<Rightarrow> ScopeWrite | JoinChatByInviteLink _ \<Rightarrow> ScopeWrite
   | _ \<Rightarrow> ScopeAdmin)"

text \<open>\<open>None\<close>: a pause, a look at the authorization state or at the rate limiter, the parsing of a text.\<close>

definition effect_scope :: "event \<Rightarrow> scope option" where
  "effect_scope ev = (case ev of
     EvInvoke f _ \<Rightarrow> Some (function_scope f) | EvOneWay f \<Rightarrow> Some (function_scope f)
   | EvClaim _ _ \<Rightarrow> Some ScopeWrite | EvStore _ _ _ \<Rightarrow> Some ScopeWrite | EvRelease _ \<Rightarrow> Some ScopeWrite
   | EvWait _ _ _ \<Rightarrow> Some ScopeWrite | EvUploadSeq _ \<Rightarrow> Some ScopeWrite | EvCreateDirs _ _ \<Rightarrow> Some ScopeWrite
   | EvWriteBody _ _ \<Rightarrow> Some ScopeWrite | EvCloseBody _ _ \<Rightarrow> Some ScopeWrite | EvRemoveAll _ \<Rightarrow> Some ScopeWrite | EvFileSize _ _ \<Rightarrow> Some ScopeRead
   | EvSetAuth _ \<Rightarrow> Some ScopeAdmin | EvDisableSync \<Rightarrow> Some ScopeAdmin | EvExport _ \<Rightarrow> Some ScopeAdmin
   | _ \<Rightarrow> None)"

primrec keeps_to :: "scope option \<Rightarrow> task \<Rightarrow> bool" where
  "keeps_to n (Respond r) = True"
| "keeps_to n Crash = True"
| "keeps_to n (Invoke f k) = (n = Some (function_scope f) \<and> (\<forall>ob. keeps_to n (k ob)))"
| "keeps_to n (OneWay f t) = (n = Some (function_scope f) \<and> keeps_to n t)"
| "keeps_to n (ParseEntities s m k) = (\<forall>x. keeps_to n (k x))"
| "keeps_to n (Sleep ms t) = keeps_to n t"
| "keeps_to n (Jitter k) = (\<forall>q. keeps_to n (k q))"
| "keeps_to n (IdemClaim key k) = (n = Some ScopeWrite \<and> (\<forall>c. keeps_to n (k c)))"
| "keeps_to n (IdemStore key s d t) = (n = Some ScopeWrite \<and> keeps_to n t)"
| "keeps_to n (IdemRelease key t) = (n = Some ScopeWrite \<and> keeps_to n t)"
| "keeps_to n (WaitFor i ms k) = (n = Some ScopeWrite \<and> (\<forall>x. keeps_to n (k x)))"
| "keeps_to n (ReadAuth k) = (\<forall>a. keeps_to n (k a))"
| "keeps_to n (SetAuth x t) = (n = Some ScopeAdmin \<and> keeps_to n t)"
| "keeps_to n (RateAllowed k) = (\<forall>b. keeps_to n (k b))"
| "keeps_to n (DisableSync t) = (n = Some ScopeAdmin \<and> keeps_to n t)"
| "keeps_to n (ExportSession k) = (n = Some ScopeAdmin \<and> (\<forall>x. keeps_to n (k x)))"
| "keeps_to n (FileSize p k) = (n = Some ScopeRead \<and> (\<forall>x. keeps_to n (k x)))"
| "keeps_to n (NextUpload k) = (n = Some ScopeWrite \<and> (\<forall>q. keeps_to n (k q)))"
| "keeps_to n (CreateDirs p k) = (n = Some ScopeWrite \<and> (\<forall>b. keeps_to n (k b)))"
| "keeps_to n (WriteBody p k) = (n = Some ScopeWrite \<and> (\<forall>b. keeps_to n (k b)))"
| "keeps_to n (CloseBody p t) = (n = Some ScopeWrite \<and> keeps_to n t)"
| "keeps_to n (RemoveAll p t) = (n = Some ScopeWrite \<and> keeps_to n t)"

lemma keeps_serve:
  "keeps_to n t \<Longrightarrow> ev \<in> set (fst (serve e t h)) \<Longrightarrow> effect_scope ev = None \<or> effect_scope ev = n"
  by (induction t arbitrary: h) (auto simp: effect_scope_def)

section \<open>What the handlers do\<close>

named_theorems keeps_handlers \<open>a handler's effects all need the scope of its route\<close>

lemma launchInvoke_keeps [simp]: "keeps_to n (launchInvoke f build) \<longleftrightarrow> n = Some (function_scope f)"
  by (auto simp: launchInvoke_def split: option.split)

lemma parse_keeps [simp]:
  "keeps_to n (case p of (False, _) \<Rightarrow> Respond r | (True, x) \<Rightarrow> t x) \<longleftrightarrow> (fst p \<longrightarrow> keeps_to n (t (snd p)))"
  by (cases p rule: prod.exhaust; cases "fst p") auto

lemma makeFormattedText_keeps: "(\<And>x. keeps_to n (k x)) \<Longrightarrow> keeps_to n (makeFormattedText txt mode k)"
  by (auto simp: makeFormattedText_def split: option.split sum.split)

lemma key_keeps [simp]:
  "keeps_to (Some ScopeWrite) (releaseKey key k) = keeps_to (Some ScopeWrite) k"
  "keeps_to (Some ScopeWrite) (storeKey key s d k) = keeps_to (Some ScopeWrite) k"
  by (simp_all add: releaseKey_def storeKey_def)

lemma chatCards_keeps: "(\<And>arr. keeps_to (Some ScopeRead) (k arr)) \<Longrightarrow> keeps_to (Some ScopeRead) (chatCards is arr k)"
  by (induction "is" arbitrary: arr) (auto simp: function_scope_def split: sum.split td_object.split)

lemma typingLoop_keeps: "keeps_to (Some ScopeWrite) k \<Longrightarrow> keeps_to (Some ScopeWrite) (typingLoop chat remaining k)"
proof (induction chat remaining k rule: typingLoop.induct)
  case (1 chat remaining k)
  then show ?case by (subst typingLoop.simps) (simp add: function_scope_def)
qed

lemma humanPause_keeps: "keeps_to (Some ScopeWrite) k \<Longrightarrow> keeps_to (Some ScopeWrite) (humanPause cfg chat n k)"
  by (auto simp: humanPause_def typingLoop_keeps split: option.split)

lemma awaitConfirmation_keeps [simp]: "keeps_to (Some ScopeWrite) (awaitConfirmation cfg key m)"
  by (auto simp: awaitConfirmation_def answerPending_def split: option.split send_outcome.split)

lemma sendCoroutine_keeps [simp]: "keeps_to (Some ScopeWrite) (sendCoroutine cfg chat reply formatted n key)"
  unfolding sendCoroutine_def
  by (rule humanPause_keeps) (auto simp: function_scope_def split: sum.split td_object.split)

lemma sendClaimed_keeps [simp]: "keeps_to (Some ScopeWrite) (sendClaimed cfg chat ms txt key)"
  unfolding sendClaimed_def by (rule makeFormattedText_keeps) (auto split: sum.split option.split)

lemma logoutPolls_keeps: "keeps_to n k \<Longrightarrow> keeps_to n (logoutPolls m k)"
  by (induction m) auto

lemma auth_keeps [simp]: "keeps_to n answerAuthState" "keeps_to (Some ScopeAdmin) (launchAuthMutation f) \<longleftrightarrow> function_scope f = ScopeAdmin"
  by (auto simp: answerAuthState_def authStateJson_def Let_def launchAuthMutation_def split: option.split td_object.split)

fun endpoint_scope :: "endpoint \<Rightarrow> scope option" where
  "endpoint_scope EpHealth = None"
| "endpoint_scope EpReady = None"
| "endpoint_scope EpChats = Some ScopeRead"
| "endpoint_scope (EpHistory c) = Some ScopeRead"
| "endpoint_scope (EpFile f) = Some ScopeRead"
| "endpoint_scope (EpSearch c) = Some ScopeRead"
| "endpoint_scope EpSearchAll = Some ScopeRead"
| "endpoint_scope EpResolve = Some ScopeRead"
| "endpoint_scope (EpChat c) = Some ScopeRead"
| "endpoint_scope (EpUser u) = Some ScopeRead"
| "endpoint_scope (EpMembers c) = Some ScopeRead"
| "endpoint_scope EpContacts = Some ScopeRead"
| "endpoint_scope EpMe = Some ScopeRead"
| "endpoint_scope (EpSend c) = Some ScopeWrite"
| "endpoint_scope (EpRead c) = Some ScopeWrite"
| "endpoint_scope (EpUpload c) = Some ScopeWrite"
| "endpoint_scope (EpEdit c m) = Some ScopeWrite"
| "endpoint_scope (EpDelete c) = Some ScopeWrite"
| "endpoint_scope (EpForward c) = Some ScopeWrite"
| "endpoint_scope (EpReact c m) = Some ScopeWrite"
| "endpoint_scope (EpUnreact c m) = Some ScopeWrite"
| "endpoint_scope EpJoin = Some ScopeWrite"
| "endpoint_scope _ = Some ScopeAdmin"

lemma read_handlers_keeps [keeps_handlers]:
  "keeps_to (Some ScopeRead) (h_chats req)" "keeps_to (Some ScopeRead) (h_history c req)"
  "keeps_to (Some ScopeRead) (h_search c req)" "keeps_to (Some ScopeRead) (h_search_all req)"
  "keeps_to (Some ScopeRead) (h_resolve req)" "keeps_to (Some ScopeRead) (h_chat c)" "keeps_to (Some ScopeRead) (h_user c)"
  "keeps_to (Some ScopeRead) (h_members c req)" "keeps_to (Some ScopeRead) h_contacts" "keeps_to (Some ScopeRead) h_me"
  by (auto simp: h_chats_def h_history_def h_search_def h_search_all_def h_resolve_def h_chat_def h_user_def h_members_def
      h_contacts_def h_me_def function_scope_def Let_def intro!: chatCards_keeps
      split: option.split sum.split td_object.split)

lemma h_file_keeps [keeps_handlers]: "keeps_to (Some ScopeRead) (h_file f req)"
  by (auto simp: h_file_def serveFile_def function_scope_def Let_def split: option.split sum.split td_object.split)

lemma h_send_keeps [keeps_handlers]: "keeps_to (Some ScopeWrite) (h_send cfg c req)"
  by (auto simp: h_send_def Let_def split: option.split claim_result.split)

lemma h_edit_keeps [keeps_handlers]: "keeps_to (Some ScopeWrite) (h_edit c m req)"
  by (auto simp: h_edit_def function_scope_def intro!: makeFormattedText_keeps split: option.split sum.split)

lemma write_handlers_keeps [keeps_handlers]:
  "keeps_to (Some ScopeWrite) (h_read c req)" "keeps_to (Some ScopeWrite) (h_delete c req)"
  "keeps_to (Some ScopeWrite) (h_forward c req)" "keeps_to (Some ScopeWrite) (h_react c m req)"
  "keeps_to (Some ScopeWrite) (h_unreact c m req)" "keeps_to (Some ScopeWrite) (h_join req)"
  by (auto simp: h_read_def h_delete_def h_forward_def h_react_def h_unreact_def h_join_def function_scope_def
      split: option.split json.split list.split)

lemma h_upload_keeps [keeps_handlers]: "keeps_to (Some ScopeWrite) (h_upload dir c req)"
  by (auto simp: h_upload_def uploadTask_def function_scope_def Let_def)

lemma admin_handlers_keeps [keeps_handlers]:
  "keeps_to (Some ScopeAdmin) h_export" "keeps_to (Some ScopeAdmin) h_auth_state" "keeps_to (Some ScopeAdmin) h_auth_session"
  "keeps_to (Some ScopeAdmin) (h_phone req)" "keeps_to (Some ScopeAdmin) h_qr" "keeps_to (Some ScopeAdmin) h_resend"
  "keeps_to (Some ScopeAdmin) (h_code req)" "keeps_to (Some ScopeAdmin) (h_password req)"
  by (auto simp: h_export_def h_auth_state_def h_auth_session_def h_phone_def h_qr_def h_resend_def h_code_def h_password_def
      function_scope_def split: option.split sum.split)

lemma h_logout_keeps [keeps_handlers]: "keeps_to (Some ScopeAdmin) h_logout"
  by (auto simp: h_logout_def logoutEnd_def function_scope_def intro!: logoutPolls_keeps split: option.split td_object.split)

lemma probes_keeps [keeps_handlers]: "keeps_to None h_health" "keeps_to None h_ready"
  by (simp_all add: h_health_def h_ready_def)

lemma handle_keeps: "keeps_to (endpoint_scope ep) (handle cfg dir ep req)"
  by (cases ep) (simp_all add: keeps_handlers)

section \<open>The routes and their handlers\<close>

definition serves_ok :: "string list \<Rightarrow> registration \<Rightarrow> bool" where
  "serves_ok args r \<longleftrightarrow> (case rg_serves r args of
     Api ep \<Rightarrow> endpoint_scope ep = (if rg_path r \<in> set open_paths then None else Some (needed r))
   | _ \<Rightarrow> True)"

lemma served_scopes:
  "list_all (serves_ok args) (registerRoutes True)" "list_all (serves_ok args) (registerRoutes False)"
  "list_all (serves_ok args) registerMessageRoutes" "list_all (serves_ok args) registerDirectoryRoutes"
  "list_all (serves_ok args) registerWebhookRoutes" "list_all (serves_ok args) registerLoginUi"
  "list_all (serves_ok args) registerMetricsRoutes"
  by (simp_all add: registerRoutes_def registerMessageRoutes_def registerDirectoryRoutes_def registerWebhookRoutes_def
      registerLoginUi_def registerMetricsRoutes_def serves_ok_def from_spec_def by_hand_def route_def constraintsFor_def
      routeEnabled_def kAuthSessionExportRoute_def needed_def open_paths_def)

lemma served_scope:
  assumes "r \<in> set (registrations x w)" "rg_serves r args = Api ep"
  shows "endpoint_scope ep = (if rg_path r \<in> set open_paths then None else Some (needed r))"
proof -
  have "list_all (serves_ok args) (registrations x w)"
    by (cases x) (simp_all add: registrations_def served_scopes)
  with assms show ?thesis by (auto simp: list_all_iff serves_ok_def)
qed

lemma reaches_guarded:
  assumes "router_law placed" "r \<in> set (registrations x w)" "reaches placed sha256 known r req" "rg_path r \<notin> set open_paths"
  shows "\<exists>tok scopes. rq_header req ''Authorization'' = ''Bearer '' @ tok \<and> tok \<noteq> []
    \<and> verify sha256 known tok = Some scopes \<and> scopeAllows scopes (needed r)"
  using guarded_or_open [OF assms(1-3)] assms(4) by blast

text \<open>C3: A token can have done with it what its scopes say and nothing else: whatever a request makes the gateway do, on any
  route, in any environment, and however its path is spelled. A call that reads needs the read scope of the token it
  came with; one that sends, changes, deletes, uploads, marks as read, reacts or joins needs the write scope; one that
  logs in or out, exports the session or stops its copy needs the admin scope. So a token with the read scope alone
  changes nothing, and without a known token nothing happens at all.\<close>

theorem effects_need_scope:
  assumes "router_law placed" "r \<in> set (registrations export_enabled webhooks_enabled)" "reaches placed sha256 known r req"
    and "rg_serves r args = Api ep" "ev \<in> set (fst (serve e (handle cfg dir ep req) h))" "effect_scope ev = Some sc"
  shows "\<exists>tok scopes. rq_header req ''Authorization'' = ''Bearer '' @ tok \<and> tok \<noteq> []
    \<and> verify sha256 known tok = Some scopes \<and> scopeAllows scopes sc"
proof -
  have "endpoint_scope ep = Some sc"
    using keeps_serve [OF handle_keeps assms(5)] assms(6) by simp
  with served_scope [OF assms(2,4)] have "rg_path r \<notin> set open_paths" "needed r = sc" by (simp_all split: if_splits)
  with reaches_guarded [OF assms(1-3)] show ?thesis by simp
qed

theorem effects_need_scope_witness:
  "\<exists>scopes. verify id (load id [''tok read'']) ''tok'' = Some scopes \<and> scopeAllows scopes ScopeRead
     \<and> \<not> scopeAllows scopes ScopeWrite"
proof -
  let ?r = "by_hand kDirectoryFilter ''/v1/contacts'' Get (\<lambda>_. EpContacts)"
  let ?req = "\<lparr>rq_method = Head, rq_path = ''/V1/Contacts'', rq_header = (\<lambda>_. ''Bearer tok''), rq_param = (\<lambda>_. []), rq_json = None\<rparr>"
  let ?e = "sample_env None ClaimFree"
  have r: "?r \<in> set (registrations False False)" by (simp add: registrations_def registerDirectoryRoutes_def)
  have reach: "reaches sample_placed id (load id [''tok read'']) ?r ?req" by (rule sample_reaches)
  have s: "rg_serves ?r [] = Api EpContacts" by (simp add: by_hand_def)
  have ev: "EvInvoke GetContacts (e_invoke ?e [] GetContacts) \<in> set (fst (serve ?e (handle cfg dir EpContacts ?req) []))" for cfg dir
    by (simp add: h_contacts_def serve_launchInvoke)
  have sc: "effect_scope (EvInvoke GetContacts (e_invoke ?e [] GetContacts)) = Some ScopeRead"
    by (simp add: effect_scope_def function_scope_def)
  from effects_need_scope [OF sample_placed_law r reach s ev sc]
  obtain scopes where v: "verify id (load id [''tok read'']) ''tok'' = Some scopes" "scopeAllows scopes ScopeRead" by auto
  moreover have "verify id (load id [''tok read'']) ''tok'' = Some 1" by code_simp
  moreover have "\<not> scopeAllows 1 ScopeWrite" by code_simp
  ultimately show ?thesis by simp
qed

end
