(* ===== verification/AuthAttempts.thy ===== *)
theory AuthAttempts
  imports Authority
begin

text \<open>
  The limit on guessing codes and passwords (\<^verbatim>\<open>authAttemptAllowed\<close> of \<^verbatim>\<open>src/src/http/routes.cpp\<close>) over all requests
  the process serves. The limiter is Drogon's; what is used of it is that it permits no more than its capacity in
  one of its units of time.
\<close>

section \<open>The limiter\<close>

definition kAttemptCapacity :: nat where
  "kAttemptCapacity = 10"

definition kAttemptUnit :: nat where
  "kAttemptUnit = 60"

text \<open>The seconds at which it permitted an attempt.\<close>

definition limiter_law :: "nat list \<Rightarrow> bool" where
  "limiter_law ts \<longleftrightarrow> (\<forall>k. length (filter (\<lambda>t. t div kAttemptUnit = k) ts) \<le> kAttemptCapacity)"

lemma limiter_total:
  assumes "\<forall>k. length (filter (\<lambda>t. f t = (k :: nat)) ts) \<le> m" "\<forall>t \<in> set ts. f t \<le> n"
  shows "length ts \<le> m * Suc n"
  using assms
proof (induction n arbitrary: ts)
  case 0
  then have "filter (\<lambda>t. f t = 0) ts = ts" by (simp add: filter_id_conv)
  with 0(1) show ?case by (metis mult.right_neutral One_nat_def)
next
  case (Suc n)
  let ?rest = "filter (\<lambda>t. f t \<noteq> Suc n) ts"
  have "\<forall>t \<in> set ?rest. f t \<le> n" using Suc.prems(2) by (auto simp: le_Suc_eq)
  moreover have "length (filter (\<lambda>t. f t = k) ?rest) \<le> m" for k
  proof -
    have "length (filter (\<lambda>t. f t = k) ?rest) \<le> length (filter (\<lambda>t. f t = k) ts)"
      by (induction ts) auto
    then show ?thesis using Suc.prems(1) le_trans by blast
  qed
  ultimately have "length ?rest \<le> m * Suc n" using Suc.IH by blast
  moreover have "length ts = length (filter (\<lambda>t. f t = Suc n) ts) + length ?rest"
    by (rule sum_length_filter_compl [symmetric])
  ultimately show ?case using Suc.prems(1) [rule_format, of "Suc n"] by simp
qed

section \<open>No guess without a permit\<close>

definition is_guess :: "td_function \<Rightarrow> bool" where
  "is_guess f \<longleftrightarrow> (case f of CheckAuthenticationCode _ \<Rightarrow> True | CheckAuthenticationPassword _ \<Rightarrow> True | _ \<Rightarrow> False)"

definition guess_event :: "event \<Rightarrow> bool" where
  "guess_event ev \<longleftrightarrow> (case ev of EvInvoke f _ \<Rightarrow> is_guess f | EvOneWay f \<Rightarrow> is_guess f | _ \<Rightarrow> False)"

definition guesses :: "event list \<Rightarrow> nat" where
  "guesses es = length (filter guess_event es)"

definition permits :: "event list \<Rightarrow> nat" where
  "permits es = length (filter (\<lambda>ev. ev = EvRate True) es)"

text \<open>A tree makes no more guesses on any branch than it has been permitted, at any point of it.\<close>

primrec gated :: "task \<Rightarrow> nat \<Rightarrow> bool" where
  "gated (Respond r) c = True"
| "gated Crash c = True"
| "gated (Invoke f k) c = (if is_guess f then 0 < c \<and> (\<forall>ob. gated (k ob) (c - 1)) else (\<forall>ob. gated (k ob) c))"
| "gated (OneWay f t) c = (\<not> is_guess f \<and> gated t c)"
| "gated (ParseEntities s m k) c = (\<forall>x. gated (k x) c)"
| "gated (Sleep ms t) c = gated t c"
| "gated (Jitter k) c = (\<forall>q. gated (k q) c)"
| "gated (IdemClaim key k) c = (\<forall>x. gated (k x) c)"
| "gated (IdemStore key s d t) c = gated t c"
| "gated (IdemRelease key t) c = gated t c"
| "gated (WaitFor i ms k) c = (\<forall>x. gated (k x) c)"
| "gated (ReadAuth k) c = (\<forall>a. gated (k a) c)"
| "gated (SetAuth x t) c = gated t c"
| "gated (RateAllowed k) c = (gated (k True) (Suc c) \<and> gated (k False) c)"
| "gated (DisableSync t) c = gated t c"
| "gated (ExportSession k) c = (\<forall>x. gated (k x) c)"
| "gated (FileSize p k) c = (\<forall>x. gated (k x) c)"
| "gated (NextUpload k) c = (\<forall>q. gated (k q) c)"
| "gated (CreateDirs p k) c = (\<forall>b. gated (k b) c)"
| "gated (WriteBody p k) c = (\<forall>b. gated (k b) c)"
| "gated (CloseBody p t) c = gated t c"
| "gated (RemoveAll p t) c = gated t c"

lemma counts_Nil [simp]: "guesses [] = 0" "permits [] = 0"
  by (simp_all add: guesses_def permits_def)

lemma counts_Cons [simp]:
  "guesses (ev # es) = (if guess_event ev then Suc (guesses es) else guesses es)"
  "permits (ev # es) = (if ev = EvRate True then Suc (permits es) else permits es)"
  by (simp_all add: guesses_def permits_def)

lemma guess_event_simps [simp]:
  "guess_event (EvInvoke f ob) = is_guess f" "guess_event (EvOneWay f) = is_guess f" "\<not> guess_event (EvParse s m x)"
  "\<not> guess_event (EvSleep n)" "\<not> guess_event (EvJitter q)" "\<not> guess_event (EvClaim k c)" "\<not> guess_event (EvStore k si d)"
  "\<not> guess_event (EvRelease k)" "\<not> guess_event (EvWait wi wn w)" "\<not> guess_event (EvReadAuth au)" "\<not> guess_event (EvSetAuth ae)"
  "\<not> guess_event (EvRate b)" "\<not> guess_event EvDisableSync" "\<not> guess_event (EvExport ex)" "\<not> guess_event (EvFileSize p sz)"
  "\<not> guess_event (EvUploadSeq sq)" "\<not> guess_event (EvCreateDirs p bb)" "\<not> guess_event (EvWriteBody p bb)" "\<not> guess_event (EvRemoveAll p)"
  "\<not> guess_event (EvCloseBody p bb)"
  by (simp_all add: guess_event_def)

definition so_far :: "nat \<Rightarrow> env \<Rightarrow> task \<Rightarrow> event list \<Rightarrow> event list" where
  "so_far n e t h = take n (fst (serve e t h))"

lemma step_counts:
  assumes "\<And>m. guesses (take m es) \<le> c + permits (take m es)" "\<not> guess_event ev"
  shows "guesses (take n (ev # es)) \<le> c + permits (take n (ev # es))"
proof (cases n)
  case (Suc m)
  with assms(1) [of m] assms(2) show ?thesis by simp
qed simp

lemma permit_counts:
  assumes "\<And>m. guesses (take m es) \<le> Suc c + permits (take m es)"
  shows "guesses (take n (EvRate True # es)) \<le> c + permits (take n (EvRate True # es))"
proof (cases n)
  case (Suc m)
  with assms [of m] show ?thesis by simp
qed simp

lemma guess_counts:
  assumes "\<And>m. guesses (take m es) \<le> c - 1 + permits (take m es)" "0 < c" "guess_event ev"
  shows "guesses (take n (ev # es)) \<le> c + permits (take n (ev # es))"
proof (cases n)
  case (Suc m)
  with assms(1) [of m] assms(2,3) show ?thesis by (auto simp: guess_event_def)
qed simp

lemma gated_take: "gated t c \<Longrightarrow> guesses (take n (fst (serve e t h))) \<le> c + permits (take n (fst (serve e t h)))"
proof (induction t arbitrary: c h n)
  case (Invoke f k)
  show ?case
  proof (cases "is_guess f")
    case True
    with Invoke.prems have g: "0 < c" "gated (k (e_invoke e h f)) (c - 1)" by simp_all
    show ?thesis unfolding serve.simps after_event_simps
      by (rule guess_counts [OF Invoke.IH [OF rangeI g(2)] g(1)]) (simp add: True)
  next
    case False
    with Invoke.prems have g: "gated (k (e_invoke e h f)) c" by simp
    show ?thesis unfolding serve.simps after_event_simps
      by (rule step_counts [OF Invoke.IH [OF rangeI g]]) (simp add: False)
  qed
next
  case (RateAllowed k)
  show ?case
  proof (cases "e_rate e h")
    case True
    with RateAllowed.prems have g: "gated (k True) (Suc c)" by simp
    have r: "e_rate e h = True" using True by simp
    show ?thesis unfolding serve.simps after_event_simps r by (rule permit_counts [OF RateAllowed.IH [OF rangeI g]])
  next
    case False
    with RateAllowed.prems have g: "gated (k False) c" by simp
    have r: "e_rate e h = False" using False by simp
    show ?thesis unfolding serve.simps after_event_simps r
      by (rule step_counts [OF RateAllowed.IH [OF rangeI g]]) simp
  qed
next
  case (OneWay f t)
  then show ?case unfolding serve.simps after_event_simps by (intro step_counts OneWay.IH) simp_all
next
  case (ParseEntities s md k)
  then show ?case unfolding serve.simps after_event_simps by (intro step_counts ParseEntities.IH [OF rangeI]) simp_all
next
  case (Sleep ms t)
  then show ?case unfolding serve.simps after_event_simps by (intro step_counts Sleep.IH) simp_all
next
  case (Jitter k)
  then show ?case unfolding serve.simps after_event_simps by (intro step_counts Jitter.IH [OF rangeI]) simp_all
next
  case (IdemClaim key k)
  then show ?case unfolding serve.simps after_event_simps by (intro step_counts IdemClaim.IH [OF rangeI]) simp_all
next
  case (IdemStore key st d t)
  then show ?case unfolding serve.simps after_event_simps by (intro step_counts IdemStore.IH) simp_all
next
  case (IdemRelease key t)
  then show ?case unfolding serve.simps after_event_simps by (intro step_counts IdemRelease.IH) simp_all
next
  case (WaitFor i ms k)
  then show ?case unfolding serve.simps after_event_simps by (intro step_counts WaitFor.IH [OF rangeI]) simp_all
next
  case (ReadAuth k)
  then show ?case unfolding serve.simps after_event_simps by (intro step_counts ReadAuth.IH [OF rangeI]) simp_all
next
  case (SetAuth x t)
  then show ?case unfolding serve.simps after_event_simps by (intro step_counts SetAuth.IH) simp_all
next
  case (DisableSync t)
  then show ?case unfolding serve.simps after_event_simps by (intro step_counts DisableSync.IH) simp_all
next
  case (ExportSession k)
  then show ?case unfolding serve.simps after_event_simps by (intro step_counts ExportSession.IH [OF rangeI]) simp_all
next
  case (FileSize p k)
  then show ?case unfolding serve.simps after_event_simps by (intro step_counts FileSize.IH [OF rangeI]) simp_all
next
  case (NextUpload k)
  then show ?case unfolding serve.simps after_event_simps by (intro step_counts NextUpload.IH [OF rangeI]) simp_all
next
  case (CreateDirs p k)
  then show ?case unfolding serve.simps after_event_simps by (intro step_counts CreateDirs.IH [OF rangeI]) simp_all
next
  case (WriteBody p k)
  then show ?case unfolding serve.simps after_event_simps by (intro step_counts WriteBody.IH [OF rangeI]) simp_all
next
  case (CloseBody p t)
  then show ?case unfolding serve.simps after_event_simps by (intro step_counts CloseBody.IH) simp_all
next
  case (RemoveAll p t)
  then show ?case unfolding serve.simps after_event_simps by (intro step_counts RemoveAll.IH) simp_all
qed simp_all

lemma gated_counts: "gated t c \<Longrightarrow> guesses (so_far n e t h) \<le> c + permits (so_far n e t h)"
  unfolding so_far_def by (rule gated_take)

section \<open>The handlers\<close>

lemma gated_more: "gated t c \<Longrightarrow> gated t (Suc c)"
proof (induction t arbitrary: c)
  case (Invoke f k)
  show ?case
  proof (cases "is_guess f")
    case True
    with Invoke.prems obtain d where "c = Suc d" by (cases c) simp_all
    with True Invoke show ?thesis by simp
  qed (use Invoke in simp)
qed simp_all

text \<open>A guess needs the admin scope, so a handler of any other route makes none.\<close>

lemma keeps_gated: "keeps_to n t \<Longrightarrow> n \<noteq> Some ScopeAdmin \<Longrightarrow> gated t 0"
proof (induction t)
  case (Invoke f k)
  then have "\<not> is_guess f" by (cases f) (auto simp: is_guess_def function_scope_def)
  with Invoke show ?case by auto
next
  case (OneWay f t)
  then have "\<not> is_guess f" by (cases f) (auto simp: is_guess_def function_scope_def)
  with OneWay show ?case by auto
next
  case (RateAllowed k)
  then have "gated (k True) 0" "gated (k False) 0" by auto
  then show ?case by (simp add: gated_more [of "k True" 0])
qed auto

lemma answerAuthState_gated [simp]: "gated answerAuthState c"
  by (auto simp: answerAuthState_def authStateJson_def Let_def)

lemma launchAuthMutation_gated [simp]: "gated (launchAuthMutation f) c \<longleftrightarrow> (is_guess f \<longrightarrow> 0 < c)"
  by (auto simp: launchAuthMutation_def split: option.split td_object.split)

lemma logoutPolls_gated: "gated k c \<Longrightarrow> gated (logoutPolls m k) c"
  by (induction m) auto

lemma admin_gated:
  "gated h_export 0" "gated h_auth_state 0" "gated h_auth_session 0" "gated (h_phone req) 0" "gated h_qr 0" "gated h_resend 0"
  "gated (h_code req) 0" "gated (h_password req) 0" "gated h_logout 0"
  by (auto simp: h_export_def h_auth_state_def h_auth_session_def h_phone_def h_qr_def h_resend_def h_code_def h_password_def
      h_logout_def logoutEnd_def is_guess_def intro!: logoutPolls_gated split: option.split sum.split td_object.split)

lemma handle_gated: "gated (handle cfg dir ep req) 0"
proof (cases "endpoint_scope ep = Some ScopeAdmin")
  case True
  then show ?thesis by (cases ep) (simp_all add: admin_gated)
next
  case False
  then show ?thesis using keeps_gated [OF handle_keeps] by blast
qed

section \<open>All requests together\<close>

text \<open>What a request has done when \<open>n\<close> of its steps are over.\<close>

definition request_so_far :: "send_config \<Rightarrow> string \<Rightarrow> event list \<Rightarrow> bool" where
  "request_so_far cfg dir es \<longleftrightarrow> (\<exists>e ep req h n. es = so_far n e (handle cfg dir ep req) h)"

lemma request_guesses: "request_so_far cfg dir es \<Longrightarrow> guesses es \<le> permits es"
  using gated_counts [OF handle_gated] by (fastforce simp: request_so_far_def)

text \<open>C31: Codes and passwords cannot be tried out: of all the requests the process has served or is serving, in whatever
  interleaving and however far each has got, no more than ten for each minute begun have made TDLib check a code
  or a password.\<close>

theorem guesses_limited:
  assumes "\<forall>es \<in> set served_requests. request_so_far cfg dir es"
    and "limiter_law permitted_at" "length permitted_at = sum_list (map permits served_requests)"
    and "\<forall>t \<in> set permitted_at. t \<le> now"
  shows "sum_list (map guesses served_requests) \<le> kAttemptCapacity * Suc (now div kAttemptUnit)"
proof -
  have "sum_list (map guesses served_requests) \<le> sum_list (map permits served_requests)"
    using assms(1) request_guesses by (intro sum_list_mono) blast
  also have "\<dots> \<le> kAttemptCapacity * Suc (now div kAttemptUnit)"
    unfolding assms(3) [symmetric]
    by (rule limiter_total [of "\<lambda>t. t div kAttemptUnit"])
      (use assms(2,4) in \<open>auto simp: limiter_law_def intro: div_le_mono\<close>)
  finally show ?thesis .
qed

theorem guesses_limited_witness:
  "\<exists>es :: event list. guesses es = 1 \<and> sum_list (map guesses [es, []]) \<le> 10"
proof -
  let ?req = "\<lparr>rq_method = Post, rq_path = [], rq_header = (\<lambda>_. []), rq_param = (\<lambda>_. []),
    rq_json = Some (JObj [(''code'', JStr ''1'')])\<rparr>"
  let ?e = "(sample_env None ClaimFree)\<lparr>e_rate := (\<lambda>_. True)\<rparr>"
  define es where "es = so_far 2 ?e (handle sample_config [] EpCode ?req) []"
  have run: "fst (serve ?e (handle sample_config [] EpCode ?req) []) =
      EvRate True # EvInvoke (CheckAuthenticationCode ''1'') (e_invoke ?e [EvRate True] (CheckAuthenticationCode ''1'')) # more" 
    if "more = fst (serve ?e (case e_invoke ?e [EvRate True] (CheckAuthenticationCode ''1'') of
        Some (ObjError err) \<Rightarrow> Respond (telegramError err) | _ \<Rightarrow> answerAuthState)
        [EvRate True, EvInvoke (CheckAuthenticationCode ''1'') (e_invoke ?e [EvRate True] (CheckAuthenticationCode ''1''))])" for more
    using that by (simp add: h_code_def jsonString_def bodyObject_def launchAuthMutation_def)
  have es: "guesses es = 1" "permits es = 1"
    unfolding es_def so_far_def run [OF refl] by (simp_all add: is_guess_def)
  have "request_so_far sample_config [] es" "request_so_far sample_config [] []"
    unfolding request_so_far_def es_def so_far_def by (blast, metis take0)
  then have "\<forall>x \<in> set [es, []]. request_so_far sample_config [] x" by simp
  moreover have "limiter_law [30]" by (simp add: limiter_law_def kAttemptCapacity_def)
  ultimately have "sum_list (map guesses [es, []]) \<le> kAttemptCapacity * Suc (40 div kAttemptUnit)"
    by (rule guesses_limited [where permitted_at = "[30]"]) (simp_all add: es)
  then show ?thesis using es(1) by (intro exI [of _ es]) (simp add: kAttemptCapacity_def kAttemptUnit_def)
qed

end
