(* ===== verification/SessionSync.thy ===== *)
theory SessionSync
  imports MainWiring
begin

text \<open>
  What the synchronisation of the session with S3 (\<open>SessionStore\<close>) is for: a login outlives the process. Between the
  push that main asks for when the account becomes ready, or a tick of the timer, and the moment the gate is idle
  again lie any of the steps of the synchronisation; here those in which nothing fails: the file can be read, S3
  takes every PUT at the first attempt, nobody logs out, and TDLib writes nothing more.
\<close>

text \<open>\<^verbatim>\<open>push_now\<close> of the handle that \<^verbatim>\<open>startS3Sync\<close> returns, once the main loop runs it; without S3 it does nothing.\<close>

definition push_now :: "config \<Rightarrow> sync_state \<Rightarrow> sync_state" where
  "push_now c s = (if s3_enabled (cf_s3 c) then sync_tick s else s)"

inductive calm_step :: "(string \<Rightarrow> string) \<Rightarrow> sync_state \<Rightarrow> sync_state \<Rightarrow> bool" for sha where
  tick: "calm_step sha s (sync_tick s)"
| check: "sy_thread s = Starting \<Longrightarrow> calm_step sha s (sync_check s)"
| read: "sy_thread s = Checked \<Longrightarrow> os_readable o1 \<Longrightarrow> calm_step sha s (sync_read sha o1 s)"
| put: "sy_thread s = Putting bytes hash \<Longrightarrow> s3_ok r \<Longrightarrow> calm_step sha s (sync_put r False s)"
| finish: "sy_thread s = Finishing \<Longrightarrow> calm_step sha s (sync_finish s)"

inductive calm_run :: "(string \<Rightarrow> string) \<Rightarrow> sync_state \<Rightarrow> sync_state \<Rightarrow> bool" for sha s0 where
  here: "calm_run sha s0 s0"
| more: "calm_run sha s0 s \<Longrightarrow> calm_step sha s s' \<Longrightarrow> calm_run sha s0 s'"

definition idle :: "sync_state \<Rightarrow> bool" where
  "idle s \<longleftrightarrow> \<not> sg_in_flight (sy_gate s)"

lemma calm_is_sync: "calm_step sha s s' \<Longrightarrow> sync_step sha s s'"
  by (induction rule: calm_step.induct) (auto intro: sync_step.intros)

lemma calm_frame:
  "calm_step sha s s' \<Longrightarrow> sy_file s' = sy_file s \<and> sy_disabled s' = sy_disabled s \<and> sy_loose s' = sy_loose s"
  by (induction rule: calm_step.induct)
    (auto simp: sync_tick_def tryStart_def sync_check_def sync_read_def sync_put_def sync_finish_def finishStep_def Let_def
       split: option.split)

text \<open>Either a step is still to begin after the last request, or the bytes are read next, on their way, or there.\<close>

definition saved_inv :: "(string \<Rightarrow> string) \<Rightarrow> string \<Rightarrow> sync_state \<Rightarrow> bool" where
  "saved_inv sha bytes s \<longleftrightarrow> sy_owed s \<or> (case sy_thread s of
      Checked \<Rightarrow> True
    | Putting b h \<Rightarrow> b = bytes \<and> h = sha bytes
    | _ \<Rightarrow> sy_remote s = Some bytes \<and> sy_last_hash s = sha bytes)"

definition file_holds :: "string \<Rightarrow> sync_state \<Rightarrow> bool" where
  "file_holds bytes s \<longleftrightarrow> \<not> sy_disabled s \<and> bytes \<noteq> [] \<and> sy_loose s = [] \<and> (\<exists>m. sy_file s = Some (bytes, m))"

text \<open>The contents the comparison of hashes can mistake for the file's: the object in S3 and the one on its way to it.\<close>

definition in_play :: "sync_state \<Rightarrow> string set" where
  "in_play s = set_option (sy_remote s) \<union> (case sy_thread s of Putting b h \<Rightarrow> {b} | _ \<Rightarrow> {})"

definition no_clash :: "(string \<Rightarrow> string) \<Rightarrow> string \<Rightarrow> sync_state \<Rightarrow> bool" where
  "no_clash sha bytes s \<longleftrightarrow> (\<forall>b \<in> in_play s. sha b = sha bytes \<longrightarrow> b = bytes)"

lemma in_play_step: "calm_step sha s s' \<Longrightarrow> file_holds bytes s \<Longrightarrow> in_play s' \<subseteq> insert bytes (in_play s)"
proof (induction rule: calm_step.induct)
  case (tick s)
  then show ?case by (auto simp: in_play_def sync_tick_def Let_def split: prod.split)
next
  case (check s)
  then show ?case by (auto simp: in_play_def sync_check_def)
next
  case (read s o1)
  then show ?case by (auto simp: in_play_def sync_read_def file_holds_def readBinlog_def split: if_splits)
next
  case (put s b h r)
  then show ?case by (auto simp: in_play_def sync_put_def Let_def)
next
  case (finish s)
  then show ?case by (auto simp: in_play_def sync_finish_def finishStep_def Let_def)
qed

lemma saved_step:
  assumes "calm_step sha s s'" "saved_inv sha bytes s" "sync_inv sha s" "file_holds bytes s" "no_clash sha bytes s"
    and "sha bytes \<noteq> []"
  shows "saved_inv sha bytes s'"
  using assms
proof (induction rule: calm_step.induct)
  case (tick s)
  then show ?case by (simp add: saved_inv_def sync_tick_def Let_def split: prod.split)
next
  case (check s)
  then show ?case by (simp add: saved_inv_def sync_check_def file_holds_def)
next
  case (read s o1)
  then have f: "readBinlog o1 (sy_file s) = Some bytes" by (auto simp: file_holds_def readBinlog_def)
  from read.prems(2,3) have h: "sy_last_hash s = [] \<or> (\<exists>b. sy_remote s = Some b \<and> sha b = sy_last_hash s)"
    by (simp add: sync_inv_def file_holds_def)
  show ?case
  proof (cases "sha bytes = sy_last_hash s")
    case True
    with h read.prems(5) obtain b where b: "sy_remote s = Some b" "sha b = sha bytes" by auto
    then have "b = bytes" using read.prems(4) by (auto simp: no_clash_def in_play_def)
    with b show ?thesis using f True by (simp add: saved_inv_def sync_read_def)
  next
    case False
    with f show ?thesis by (simp add: saved_inv_def sync_read_def)
  qed
next
  case (put s b h r)
  then show ?case by (simp add: saved_inv_def sync_put_def Let_def)
next
  case (finish s)
  then show ?case by (simp add: saved_inv_def sync_finish_def finishStep_def Let_def)
qed

lemma saved_run:
  assumes "calm_run sha s0 s" "saved_inv sha bytes s0" "sync_inv sha s0" "file_holds bytes s0" "no_clash sha bytes s0"
    and "sha bytes \<noteq> []"
  shows "saved_inv sha bytes s \<and> sync_inv sha s \<and> file_holds bytes s \<and> no_clash sha bytes s"
  using assms(1)
proof (induction rule: calm_run.induct)
  case here
  show ?case using assms by simp
next
  case (more s s')
  then have "no_clash sha bytes s'"
    using in_play_step [OF more(2), of bytes] by (fastforce simp: no_clash_def)
  then show ?case
    using more saved_step [OF more(2) _ _ _ _ assms(6)] sync_step_inv [OF calm_is_sync [OF more(2)]] calm_frame [OF more(2)]
    by (simp add: file_holds_def)
qed

lemma saved_at_rest:
  assumes "saved_inv sha bytes s" "sync_inv sha s" "idle s"
  shows "sy_remote s = Some bytes"
proof -
  have "sy_thread s = NoThread" "\<not> sg_pending (sy_gate s)" using assms(2,3) by (auto simp: sync_inv_def idle_def)
  moreover from this have "\<not> sy_owed s" using assms(2) by (auto simp: sync_inv_def)
  ultimately show ?thesis using assms(1) by (simp add: saved_inv_def)
qed

section \<open>The work ends\<close>

text \<open>Without further requests the thread ends: what is left of the step it is in, and one more for a request put off.\<close>

definition left_over :: "sync_state \<Rightarrow> nat" where
  "left_over s = (case sy_thread s of NoThread \<Rightarrow> 0 | Starting \<Rightarrow> 4 | Checked \<Rightarrow> 3 | Putting _ _ \<Rightarrow> 2 | Finishing \<Rightarrow> 1)
     + (if sg_pending (sy_gate s) then 4 else 0)"

lemma work_goes_on:
  assumes "sync_inv sha s" "\<not> idle s" "\<not> sy_disabled s"
  shows "\<exists>s'. calm_step sha s s' \<and> left_over s' < left_over s"
proof (cases "sy_thread s")
  case NoThread
  with assms show ?thesis by (simp add: sync_inv_def idle_def)
next
  case Starting
  from calm_step.check [OF Starting, of sha] Starting show ?thesis
    by (intro exI conjI) (auto simp: left_over_def sync_check_def)
next
  case Checked
  have "os_readable (sample_calls [])" by (simp add: sample_calls_def)
  from calm_step.read [OF Checked this, of sha] Checked show ?thesis
    by (intro exI conjI) (auto simp: left_over_def sync_read_def split: option.splits if_splits)
next
  case (Putting b h)
  have "s3_ok \<lparr>sr_http_status = 200, sr_body = []\<rparr>" by (simp add: s3_ok_def)
  from calm_step.put [OF Putting this, of sha] Putting show ?thesis
    by (intro exI conjI) (auto simp: left_over_def sync_put_def Let_def split: if_splits)
next
  case Finishing
  from calm_step.finish [OF this, of sha] Finishing show ?thesis
    by (intro exI conjI) (auto simp: left_over_def sync_finish_def finishStep_def Let_def split: if_splits)
qed

lemma calm_run_front: "calm_step sha s s' \<Longrightarrow> calm_run sha s' t \<Longrightarrow> calm_run sha s t"
proof (rotate_tac 1, induction rule: calm_run.induct)
  case here
  then show ?case by (intro calm_run.more [OF calm_run.here])
next
  case (more t t')
  then show ?case by (intro calm_run.more [of sha s t t']) simp_all
qed

lemma work_ends:
  assumes "sync_inv sha s" "\<not> sy_disabled s"
  shows "\<exists>t. calm_run sha s t \<and> idle t"
  using assms
proof (induction "left_over s" arbitrary: s rule: less_induct)
  case less
  show ?case
  proof (cases "idle s")
    case True
    then show ?thesis using calm_run.here by blast
  next
    case False
    from work_goes_on [OF less.prems(1) False less.prems(2)] obtain s' where s': "calm_step sha s s'" "left_over s' < left_over s"
      by blast
    have "sync_inv sha s'" "\<not> sy_disabled s'"
      using sync_step_inv [OF calm_is_sync [OF s'(1)]] calm_frame [OF s'(1)] less.prems by simp_all
    from less.hyps [OF s'(2) this] calm_run_front [OF s'(1)] show ?thesis by blast
  qed
qed

section \<open>A login outlives the process\<close>

text \<open>C25: A login outlives the process, even one that is killed without its shutdown, when nothing fails meanwhile: let the
  file hold the session when main asks for a push, as it does when the account becomes ready, in whatever state the
  synchronisation is then, provided no attempt at a PUT has failed before, nobody has logged out, and the object
  in S3 and the content on its way there do not have the file's hash by collision. Then the work can come to an end;
  and whenever it is at rest after steps in which the file can be read and does not change, nobody logs out and S3
  takes every PUT at the first attempt, the object in S3 is the session file, byte for byte, and a start on a
  machine without one that gets this object from S3 goes on with exactly that session, if it goes on at all.\<close>

theorem login_outlives_process:
  assumes "sync_reach sha (sync_init f0 remote0) s0" "\<not> sy_disabled s0" "sy_file s0 = Some (bytes, m)" "bytes \<noteq> []"
    and "sy_loose s0 = []" "\<forall>b \<in> in_play s0. sha b = sha bytes \<longrightarrow> b = bytes" "sha bytes \<noteq> []" "s3_enabled (cf_s3 c)"
  shows "(\<exists>s. calm_run sha (push_now c s0) s \<and> idle s)
    \<and> (\<forall>s o1 o2 got f'. calm_run sha (push_now c s0) s \<and> idle s \<and> s3_ok got \<and> Some (sr_body got) = sy_remote s
         \<and> os_exists o2 \<and> prepareSession o1 o2 c got None = Some (Inr f') \<longrightarrow>
         sy_remote s = Some bytes \<and> f' = Some (bytes, kSecretMode))"
proof -
  let ?s1 = "push_now c s0"
  have i: "sync_inv sha ?s1"
    using sync_step_inv [OF sync_step.tick sync_reach_inv [OF assms(1)]] assms(8) by (simp add: push_now_def)
  have s1: "sy_owed ?s1" "sy_file ?s1 = sy_file s0" "sy_disabled ?s1 = sy_disabled s0"
    "sy_loose ?s1 = sy_loose s0"
    using assms(8) by (simp_all add: push_now_def sync_tick_def Let_def split: prod.split)
  have "in_play ?s1 \<subseteq> in_play s0"
    using assms(8) by (auto simp: push_now_def in_play_def sync_tick_def tryStart_def Let_def)
  then have nc: "no_clash sha bytes ?s1" using assms(6) by (auto simp: no_clash_def)
  have "\<exists>s. calm_run sha ?s1 s \<and> idle s" using work_ends [OF i] s1(3) assms(2) by simp
  moreover have "sy_remote s = Some bytes \<and> f' = Some (bytes, kSecretMode)"
    if r: "calm_run sha ?s1 s" "idle s" and got: "s3_ok got" "Some (sr_body got) = sy_remote s" and o2: "os_exists o2"
      and p: "prepareSession o1 o2 c got None = Some (Inr f')" for s o1 o2 got f'
  proof -
    have "saved_inv sha bytes ?s1" "file_holds bytes ?s1" using s1 assms(2-5) by (simp_all add: saved_inv_def file_holds_def)
    from saved_run [OF r(1) this(1) i this(2) nc assms(7)] have remote: "sy_remote s = Some bytes"
      using saved_at_rest r(2) by blast
    from p obtain r1 f1 r2 where q: "restoreFromS3 o1 (cf_s3 c) got None = Some (r1, f1)" "r1 \<noteq> RestoreError"
        "restoreSession o2 (cf_session_b64 c) f1 = Some (r2, f')" "r2 \<noteq> RestoreError"
      by (auto simp: prepareSession_def split: option.splits if_splits prod.splits)
    have "f1 = Some (bytes, kSecretMode)"
      using restoreFromS3_ok [OF q(1,2)] assms(8) got remote by (simp add: file_exists_def)
    then have "f' = Some (bytes, kSecretMode)"
      using restoreSession_ok [OF q(3,4)] o2 by (auto simp: file_exists_def split: if_splits)
    with remote show ?thesis by simp
  qed
  ultimately show ?thesis by blast
qed

definition stored_login :: config where
  "stored_login = (sample_accepted ''default'')\<lparr>cf_s3 := \<lparr>s3_endpoint = ''e'', s3_region = ''r'', s3_bucket = ''b'', s3_key = ''k'',
     s3_access_key = ''a'', s3_secret_key = ''s'', s3_path_style = True\<rparr>\<rparr>"

definition sample_logged_in :: sync_state where
  "sample_logged_in = sync_init (Some (''abc'', 384)) None"

theorem login_outlives_process_witness:
  "\<exists>s :: sync_state. idle s \<and> sy_remote s = Some ''abc''
     \<and> prepareSession (sample_calls [Wrote 3]) (sample_calls []) stored_login \<lparr>sr_http_status = 200, sr_body = ''abc''\<rparr> None =
         Some (Inr (Some (''abc'', kSecretMode)))"
proof -
  let ?got = "\<lparr>sr_http_status = 200, sr_body = ''abc''\<rparr>" and ?sha = "\<lambda>_ :: string. ''h''"
  have p: "prepareSession (sample_calls [Wrote 3]) (sample_calls []) stored_login ?got None = Some (Inr (Some (''abc'', 384)))"
    by code_simp
  have e: "s3_enabled (cf_s3 stored_login)" by code_simp
  have s0: "\<not> sy_disabled sample_logged_in" "sy_file sample_logged_in = Some (''abc'', 384)" "sy_loose sample_logged_in = []"
      "\<forall>b \<in> in_play sample_logged_in. ?sha b = ?sha ''abc'' \<longrightarrow> b = ''abc''"
    by (simp_all add: sample_logged_in_def sync_init_def in_play_def)
  have r: "sync_reach ?sha (sync_init (Some (''abc'', 384)) None) sample_logged_in"
    unfolding sample_logged_in_def by (rule sync_reach.here)
  note w = login_outlives_process [OF r s0(1,2) _ s0(3,4) _ e]
  let ?s1 = "sync_tick sample_logged_in"
  let ?s2 = "sync_check ?s1"
  let ?s3 = "sync_read ?sha (sample_calls []) ?s2"
  let ?s4 = "sync_put ?got False ?s3"
  let ?s5 = "sync_finish ?s4"
  note defs = sample_logged_in_def sync_init_def gate_init_def sync_tick_def tryStart_def sync_check_def sync_read_def
    sync_put_def sync_finish_def finishStep_def readBinlog_def sample_calls_def s3_ok_def Let_def
  have "calm_step ?sha ?s1 ?s2" by (rule calm_step.check) (simp add: defs)
  moreover have "calm_step ?sha ?s2 ?s3" by (rule calm_step.read) (simp_all add: defs)
  moreover have "calm_step ?sha ?s3 ?s4" by (rule calm_step.put [of _ "''abc''" "''h''"]) (simp_all add: defs)
  moreover have "calm_step ?sha ?s4 ?s5" by (rule calm_step.finish) (simp add: defs)
  ultimately have run: "calm_run ?sha ?s1 ?s5"
    by (intro calm_run.more [OF calm_run.more [OF calm_run.more [OF calm_run.more [OF calm_run.here]]]])
  have "idle ?s5" "sy_remote ?s5 = Some ''abc''" by (simp_all add: defs idle_def)
  moreover have n: "push_now stored_login sample_logged_in = ?s1" using e by (simp add: push_now_def)
  moreover have "s3_ok ?got" "os_exists (sample_calls [])" by (simp_all add: s3_ok_def sample_calls_def)
  ultimately have "sy_remote ?s5 = Some ''abc'' \<and> Some (''abc'', 384) = Some (''abc'', kSecretMode)"
    using w [THEN conjunct2, rule_format, of ?s5 ?got "sample_calls []" "sample_calls [Wrote 3]" "Some (''abc'', 384)"] run p
    unfolding n by simp
  then show ?thesis using p \<open>idle ?s5\<close> by (intro exI [of _ ?s5]) (simp add: kSecretMode_def)
qed

end
