(* ===== verification/Gateway.thy ===== *)
theory Gateway
  imports RouteProps Process
begin

text \<open>
  The bridge under the handlers: what a handler's \<^verbatim>\<open>co_await\<close> returns, in any interleaving, is an answer
  that the theorems about the handlers ask for, and what becomes of the gateway's own errors on their way to
  the client.
\<close>

lemma gateway_error_status:
  "rs_status (telegramError (TdError 504 ''UPSTREAM_TIMEOUT'')) = 502"
  "rs_status (telegramError (TdError 503 ''SERVICE_BUSY'')) = 502"
  "rs_status (telegramError (TdError 503 ''UPSTREAM_SHUTDOWN'')) = 502"
  by (simp_all add: telegramError_def httpStatusForTdError_def containsNoCase_def startsWithNoCase_def findNoCase_def
      jsonResponse_def ascii_lower_def)

lemma gateway_error_body:
  "c = 503 \<or> c = 504 \<Longrightarrow> msg \<in> {''UPSTREAM_TIMEOUT'', ''SERVICE_BUSY'', ''UPSTREAM_SHUTDOWN''} \<Longrightarrow>
   rs_body (telegramError (TdError c msg)) = JsonBody (JObj [(''ok'', JBool False),
     (''error'', JObj [(''code'', JStr ''TELEGRAM_ERROR''), (''message'', JStr msg), (''tdlib_code'', JInt c),
        (''tdlib_message'', JStr msg)])])"
  by (auto simp: telegramError_def jsonResponse_def Let_def split: option.split)

text \<open>C7: the bridge keeps the handlers' conditions: if TDLib answers the request sent under an id with an error or
  the class it documents, then what the handler that made the request is resumed with is such an answer too, in
  every interleaving with the sweeps, the drains and the other requests; and one of the gateway's own errors,
  for a full table, an expired request or a shutdown, becomes a response with the status 502, whatever code it
  carries, with that code in the body.\<close>

theorem bridge_answers_handlers:
  assumes "bridge_reachable b" "(Some i, rid, fn) \<in> set (b_sent b)" "(i, ph, ob) \<in> set (resumed (b_once b))"
    and "\<forall>w. (rid, w) \<in> set (b_received b) \<longrightarrow> answer_ok fn (Some w)"
  shows "answer_ok fn ob
    \<and> (ph \<noteq> Fulfilled \<longrightarrow> (\<exists>c msg. expect ob = Inl (TdError c msg) \<and> (c = 503 \<or> c = 504)
          \<and> rs_status (telegramError (TdError c msg)) = 502
          \<and> rs_body (telegramError (TdError c msg)) = JsonBody (JObj [(''ok'', JBool False),
              (''error'', JObj [(''code'', JStr ''TELEGRAM_ERROR''), (''message'', JStr msg), (''tdlib_code'', JInt c),
                 (''tdlib_message'', JStr msg)])])))"
proof -
  have "good_result b i (ph, ob)" using assms(1,3) by (rule resumed_good)
  then consider (own) w where "ph = Fulfilled" "ob = Some w" "(rid, w) \<in> set (b_received b)"
    | (gateway) c msg where "ph \<noteq> Fulfilled" "ob = Some (ObjError (TdError c msg))" "c = 503 \<or> c = 504"
        "msg \<in> {''UPSTREAM_TIMEOUT'', ''SERVICE_BUSY'', ''UPSTREAM_SHUTDOWN''}"
        "rs_status (telegramError (TdError c msg)) = 502"
    using sent_id [OF assms(1,2)] gateway_error_status
    by (fastforce simp: good_result_def makeError_def)
  then show ?thesis
  proof cases
    case own
    then show ?thesis using assms(4) by simp
  next
    case gateway
    then show ?thesis using gateway_error_body [OF gateway(3,4)]
      by (intro conjI impI exI [of _ c] exI [of _ msg]) (simp_all add: answer_ok_def)
  qed
qed

theorem bridge_answers_handlers_witness:
  "\<exists>b :: bridge. (Some 0, 1, GetMe) \<in> set (b_sent b) \<and> (\<exists>ph ob c msg. (0, ph, ob) \<in> set (resumed (b_once b))
     \<and> ph \<noteq> Fulfilled \<and> expect ob = Inl (TdError c msg) \<and> rs_status (telegramError (TdError c msg)) = 502)"
proof -
  let ?a = "await_suspend 0 GetMe (bridge_init 2000 30000 1000)"
  let ?m = "send_registered (0, GetMe) ?a"
  let ?b = "drainPending False ?m"
  let ?ob = "Some (makeError 503 ''UPSTREAM_SHUTDOWN'')"
  note ev = await_suspend_def next_id_def bridge_init_def once_empty_def corr_tryInsert_def send_registered_def
    drainPending_def resolve_claimed_def claimExpired_def once_claim_all_def resolve_def once_resolve_def Let_def time_max_def
  have a: "bridge_reachable ?a"
    by (intro reach_step [OF reach_init step_suspend]) (simp_all add: bridge_init_def time_max_def)
  have "bridge_reachable ?m" by (rule reach_step [OF a step_send]) (simp add: ev)
  then have r: "bridge_reachable ?b" by (rule drainPending_reach)
  have s: "(Some 0, 1, GetMe) \<in> set (b_sent ?b)" by (simp add: ev)
  have m: "(0, Rejected, ?ob) \<in> set (resumed (b_once ?b))" by (simp add: ev)
  have "\<forall>w. (1, w) \<in> set (b_received ?b) \<longrightarrow> answer_ok GetMe (Some w)" by (simp add: ev)
  from bridge_answers_handlers [OF r s m this] s m show ?thesis
    by (intro exI [of _ ?b] conjI) (assumption, blast)
qed

end
