(* ===== verification/WebhookPipeline.thy ===== *)
theory WebhookPipeline
  imports Process
begin

text \<open>
  The way of a webhook through the process: TDLib's update, the router, the hook of \<^verbatim>\<open>src/src/main.cpp\<close> with its
  coroutine, the dispatcher and its receivers. The routes change the registry, TDLib answers the coroutines, and
  the dispatcher's threads run, all in any order; a run records the operations on the registry. Two fields record the
  past for the statements only: \<open>pw_trace\<close> the updates and the answers to \<^verbatim>\<open>getMe\<close> in their order, \<open>pw_built\<close> the
  coroutines that ended, each with its message, the owner's id it was started with and TDLib's answers to it.
\<close>

datatype hook_input = GotUpdate "td_object option" | GotOwner "td_object option"

record pipeline =
  pw_router :: router
  pw_owner :: int
  pw_running :: "(message \<times> int) list"
  pw_registry :: registry
  pw_dispatcher :: dispatcher
  pw_trace :: "hook_input list"
  pw_built :: "(message \<times> int \<times> (int \<Rightarrow> int \<Rightarrow> message option)) list"

definition pipeline_init :: "config \<Rightarrow> bool \<Rightarrow> registry \<Rightarrow> nat \<Rightarrow> bool \<Rightarrow> pipeline" where
  "pipeline_init c kafka_made r mx g = \<lparr>pw_router = mainRouter c kafka_made, pw_owner = 0, pw_running = [],
     pw_registry = r, pw_dispatcher = dispatcher_start (dispatcher_init mx g), pw_trace = [], pw_built = []\<rparr>"

text \<open>The messages the router gives to the hook; each starts a coroutine with the owner's id of that moment.\<close>

definition hooked :: "router_effect list \<Rightarrow> message list" where
  "hooked es = List.map_filter (\<lambda>e. case e of WebhookHook m \<Rightarrow> Some m | _ \<Rightarrow> None) es"

definition run_update :: "(json \<Rightarrow> string) \<Rightarrow> td_object option \<Rightarrow> pipeline \<Rightarrow> pipeline" where
  "run_update writer u s =
     (let (ro, es) = onUpdate writer u (pw_router s)
      in s\<lparr>pw_router := ro, pw_running := pw_running s @ map (\<lambda>m. (m, pw_owner s)) (hooked es),
           pw_trace := pw_trace s @ [GotUpdate u]\<rparr>)"

text \<open>The answer to \<^verbatim>\<open>getMe\<close> sets the cell the hook reads.\<close>

definition run_owner :: "td_object option \<Rightarrow> pipeline \<Rightarrow> pipeline" where
  "run_owner ob s = s\<lparr>pw_owner := storeOwner ob (pw_owner s), pw_trace := pw_trace s @ [GotOwner ob]\<rparr>"

text \<open>The end of a coroutine; \<open>get\<close> is what TDLib answered it.\<close>

definition finish_hook ::
  "dispatch_env \<Rightarrow> (int \<Rightarrow> int \<Rightarrow> message option) \<Rightarrow> string \<Rightarrow> nat \<Rightarrow> pipeline \<Rightarrow> pipeline" where
  "finish_hook v get session n s =
     (let (m, owner) = pw_running s ! n;
          s1 = s\<lparr>pw_running := take n (pw_running s) @ drop (Suc n) (pw_running s),
                 pw_built := pw_built s @ [(m, owner, get)]\<rparr>
      in case messageHook get owner session m of
           None \<Rightarrow> s1
         | Some ev \<Rightarrow> s1\<lparr>pw_dispatcher := WebhookDispatcher.dispatch v ev (pw_dispatcher s1)\<rparr>)"

inductive wrun :: "dispatch_env \<Rightarrow> registry_env \<Rightarrow> (json \<Rightarrow> string) \<Rightarrow> string \<Rightarrow> pipeline \<Rightarrow> registry_op list \<Rightarrow> pipeline \<Rightarrow> bool"
  for v rv writer session s0 where
  start: "wrun v rv writer session s0 [] s0"
| update: "wrun v rv writer session s0 ops s \<Longrightarrow> wrun v rv writer session s0 ops (run_update writer u s)"
| owner: "wrun v rv writer session s0 ops s \<Longrightarrow>
    wrun v rv writer session s0 ops (run_owner ob s)"
| build: "wrun v rv writer session s0 ops s \<Longrightarrow> n < length (pw_running s) \<Longrightarrow>
    wrun v rv writer session s0 ops (finish_hook v get session n s)"
| route: "wrun v rv writer session s0 ops s \<Longrightarrow>
    wrun v rv writer session s0 (ops @ [op]) (s\<lparr>pw_registry := registry_step rv op (pw_registry s)\<rparr>)"
| snapshot: "wrun v rv writer session s0 ops s \<Longrightarrow> dp_worker (pw_dispatcher s) = Holding batch \<Longrightarrow>
    wrun v rv writer session s0 ops
      (s\<lparr>pw_dispatcher := worker_snapshot (wr_hooks (pw_registry s)) (pw_dispatcher s)\<rparr>)"
| thread: "wrun v rv writer session s0 ops s \<Longrightarrow> hook_thread v (pw_dispatcher s) d \<Longrightarrow>
    dp_batches d = dp_batches (pw_dispatcher s) \<Longrightarrow> wrun v rv writer session s0 ops (s\<lparr>pw_dispatcher := d\<rparr>)"

section \<open>The hook and its events\<close>

text \<open>The new messages among the updates.\<close>

definition newMessages :: "td_object option list \<Rightarrow> message list" where
  "newMessages us = List.map_filter (\<lambda>u. case u of Some (UpdateNewMessage (Some m)) \<Rightarrow> Some m | _ \<Rightarrow> None) us"

lemma newMessages_append [simp]: "newMessages (xs @ ys) = newMessages xs @ newMessages ys"
  by (simp add: newMessages_def List.map_filter_def)

lemma newMessages_one:
  "newMessages [u] = (case u of Some (UpdateNewMessage (Some m)) \<Rightarrow> [m] | _ \<Rightarrow> [])"
  by (simp add: newMessages_def List.map_filter_def split: option.split td_object.split)

lemma hooked_append: "hooked (xs @ ys) = hooked xs @ hooked ys"
  by (simp add: hooked_def List.map_filter_def)

lemma hooked_parts:
  "hooked (resolveEffects ro u) = []" "hooked [FanOut ty members frame] = []" "hooked (if b then [Publish key frame] else []) = []"
  "hooked (webhookEffects ro u) = [] \<or> hooked (webhookEffects ro u) = newMessages [Some u]"
  by (simp_all add: hooked_def List.map_filter_def resolveEffects_def webhookEffects_def newMessages_one
      split: option.split td_object.split)

lemma forward_hooked:
  "hooked (snd (forwardUpdate writer u ro)) = [] \<or> hooked (snd (forwardUpdate writer u ro)) = newMessages [Some u]"
proof (cases "buildForwardable u")
  case None
  then show ?thesis by (simp add: forwardUpdate_def hooked_parts)
next
  case (Some x)
  obtain ty data where "x = (ty, data)" by (rule prod.exhaust)
  with Some show ?thesis using hooked_parts(4) [of ro u]
    by (simp only: forwardUpdate_def option.case prod.case Let_def snd_conv hooked_append hooked_parts(1-3) append_Nil)
qed

lemma update_hooked:
  "hooked (snd (onUpdate writer u ro)) = [] \<or> hooked (snd (onUpdate writer u ro)) = newMessages [u]"
proof (cases rule: onUpdate_cases [of writer u ro])
  case (forward x)
  then show ?thesis using forward_hooked [of writer x ro] by simp
qed (simp_all add: hooked_def List.map_filter_def)

text \<open>
  What the hook should be started for, read off the trace alone: the message of every new-message update, with the
  owner's id as the last answer to \<^verbatim>\<open>getMe\<close> before the update has it, 0 before the first.
\<close>

definition knownOwner :: "int \<Rightarrow> hook_input list \<Rightarrow> int" where
  "knownOwner owner es = foldl (\<lambda>owner e. case e of GotOwner ob \<Rightarrow> storeOwner ob owner | GotUpdate u \<Rightarrow> owner) owner es"

fun hook_inputs :: "int \<Rightarrow> hook_input list \<Rightarrow> (message \<times> int) list" where
  "hook_inputs owner [] = []"
| "hook_inputs owner (GotUpdate u # es) = map (\<lambda>m. (m, owner)) (newMessages [u]) @ hook_inputs owner es"
| "hook_inputs owner (GotOwner ob # es) = hook_inputs (storeOwner ob owner) es"

lemma knownOwner_simps [simp]:
  "knownOwner owner [] = owner" "knownOwner owner (GotUpdate u # es) = knownOwner owner es"
  "knownOwner owner (GotOwner ob # es) = knownOwner (storeOwner ob owner) es"
  "knownOwner owner (es @ [GotUpdate u]) = knownOwner owner es"
  "knownOwner owner (es @ [GotOwner ob]) = storeOwner ob (knownOwner owner es)"
  by (simp_all add: knownOwner_def)

lemma hook_inputs_snoc [simp]:
  "hook_inputs owner (es @ [GotUpdate u]) = hook_inputs owner es @ map (\<lambda>m. (m, knownOwner owner es)) (newMessages [u])"
  "hook_inputs owner (es @ [GotOwner ob]) = hook_inputs owner es"
  by (induction owner es rule: hook_inputs.induct) simp_all

lemma hook_inputs_at:
  "(m, now) \<in> set (hook_inputs owner es) \<Longrightarrow>
   \<exists>pre post. es = pre @ GotUpdate (Some (UpdateNewMessage (Some m))) # post \<and> now = knownOwner owner pre"
proof (induction owner es rule: hook_inputs.induct)
  case (2 owner u es)
  show ?case
  proof (cases "(m, now) \<in> set (hook_inputs owner es)")
    case True
    with 2(1) obtain pre post where "es = pre @ GotUpdate (Some (UpdateNewMessage (Some m))) # post"
        "now = knownOwner owner pre" by blast
    then show ?thesis by (intro exI [of _ "GotUpdate u # pre"] exI [of _ post]) simp
  next
    case False
    then have "u = Some (UpdateNewMessage (Some m))" "now = owner"
      using 2(2) by (auto simp: newMessages_one split: option.splits td_object.splits)
    then show ?thesis by (intro exI [of _ "[]"] exI [of _ es]) simp
  qed
next
  case (3 owner ob es)
  then obtain pre post where "es = pre @ GotUpdate (Some (UpdateNewMessage (Some m))) # post"
      "now = knownOwner (storeOwner ob owner) pre" by auto
  then show ?case by (intro exI [of _ "GotOwner ob # pre"] exI [of _ post]) simp
qed simp

lemma run_update_fields [simp]:
  "pw_dispatcher (run_update writer u s) = pw_dispatcher s" "pw_registry (run_update writer u s) = pw_registry s"
  "pw_trace (run_update writer u s) = pw_trace s @ [GotUpdate u]" "pw_built (run_update writer u s) = pw_built s"
  "pw_owner (run_update writer u s) = pw_owner s"
  "pw_running (run_update writer u s) =
     pw_running s @ map (\<lambda>m. (m, pw_owner s)) (hooked (snd (onUpdate writer u (pw_router s))))"
  by (simp_all add: run_update_def split: prod.split)

lemma run_owner_fields [simp]:
  "pw_dispatcher (run_owner ob s) = pw_dispatcher s" "pw_registry (run_owner ob s) = pw_registry s"
  "pw_trace (run_owner ob s) = pw_trace s @ [GotOwner ob]" "pw_built (run_owner ob s) = pw_built s"
  "pw_owner (run_owner ob s) = storeOwner ob (pw_owner s)" "pw_running (run_owner ob s) = pw_running s"
  by (simp_all add: run_owner_def)

text \<open>The event of a coroutine that ended, and what of it the dispatcher is given.\<close>

definition builtEvent ::
  "dispatch_env \<Rightarrow> string \<Rightarrow> message \<times> int \<times> (int \<Rightarrow> int \<Rightarrow> message option) \<Rightarrow> payload option" where
  "builtEvent v session b = (case b of (m, owner, get) \<Rightarrow> map_option (eventPayload v) (messageHook get owner session m))"

definition builtFor :: "message \<times> int \<times> (int \<Rightarrow> int \<Rightarrow> message option) \<Rightarrow> message \<times> int" where
  "builtFor b = (case b of (m, owner, get) \<Rightarrow> (m, owner))"

text \<open>A receiver that was there at the start or was registered since.\<close>

definition registered :: "registry_env \<Rightarrow> webhook list \<Rightarrow> registry_op list \<Rightarrow> webhook \<Rightarrow> bool" where
  "registered rv hooks0 ops h \<longleftrightarrow> h \<in> set hooks0 \<or> (\<exists>url secret active ok. OpAdd url secret active ok \<in> set ops
     \<and> h = \<lparr>wh_id = hookId (re_sha256Hex rv) url, wh_url = url, wh_secret = secret, wh_active = active\<rparr>)"

lemma registered_more: "registered rv hooks0 ops h \<Longrightarrow> registered rv hooks0 (ops @ ops') h"
  by (auto simp: registered_def)

lemma upsert_members: "set (upsertHook w hs) \<subseteq> insert w (set hs)"
  by (induction hs) auto

lemma erase_members: "eraseHook i hs = Some gs \<Longrightarrow> set gs \<subseteq> set hs"
  by (induction hs arbitrary: gs) (auto split: if_splits)

lemma registry_step_members:
  assumes "\<forall>h \<in> set (wr_hooks r). registered rv hooks0 ops h"
  shows "\<forall>h \<in> set (wr_hooks (registry_step rv op r)). registered rv hooks0 (ops @ [op]) h"
proof (cases op)
  case (OpAdd url secret active ok)
  let ?w = "\<lparr>wh_id = hookId (re_sha256Hex rv) url, wh_url = url, wh_secret = secret, wh_active = active\<rparr>"
  have "registered rv hooks0 (ops @ [op]) ?w"
    unfolding registered_def OpAdd by (intro disjI2 exI [of _ url] exI [of _ secret] exI [of _ active] exI [of _ ok]) simp
  moreover have "wr_hooks (registry_step rv op r) = upsertHook ?w (wr_hooks r)"
    by (simp add: OpAdd registry_add_def Let_def)
  ultimately show ?thesis
    using upsert_members [of ?w "wr_hooks r"] assms registered_more by (metis insertE subsetD)
next
  case (OpRemove i ok)
  show ?thesis
  proof (cases "eraseHook i (wr_hooks r)")
    case None
    then show ?thesis using assms registered_more by (simp add: OpRemove registry_remove_def)
  next
    case (Some gs)
    then show ?thesis using assms registered_more erase_members [OF Some] by (auto simp: OpRemove registry_remove_def)
  qed
next
  case (OpSaveEnds n ok)
  then show ?thesis using assms registered_more by simp
qed

section \<open>The invariant\<close>

definition pipeline_inv ::
  "dispatch_env \<Rightarrow> registry_env \<Rightarrow> string \<Rightarrow> nat \<Rightarrow> bool \<Rightarrow> webhook list \<Rightarrow> registry_op list \<Rightarrow> pipeline \<Rightarrow> bool" where
  "pipeline_inv v rv session mx g hooks0 ops s \<longleftrightarrow> dreach v mx g (pw_dispatcher s)
     \<and> pw_owner s = knownOwner 0 (pw_trace s)
     \<and> mset (pw_running s) + mset (map builtFor (pw_built s)) \<subseteq># mset (hook_inputs 0 (pw_trace s))
     \<and> subseq (dp_accepted (pw_dispatcher s)) (List.map_filter (builtEvent v session) (pw_built s))
     \<and> (\<forall>h \<in> set (wr_hooks (pw_registry s)). registered rv hooks0 ops h)
     \<and> (\<forall>(batch, hs) \<in> set (dp_batches (pw_dispatcher s)). \<forall>h \<in> set hs. registered rv hooks0 ops h)"

lemma dispatch_frame [simp]:
  "dp_batches (WebhookDispatcher.dispatch v ev d) = dp_batches d"
  by (simp add: WebhookDispatcher.dispatch_def dispatch_payload_def)

lemma dispatch_accepted:
  "dp_accepted (WebhookDispatcher.dispatch v ev d) = dp_accepted d
   \<or> dp_accepted (WebhookDispatcher.dispatch v ev d) = dp_accepted d @ [eventPayload v ev]"
  by (simp add: WebhookDispatcher.dispatch_def dispatch_payload_def eventPayload_def)

lemma mset_nth_out: "n < length xs \<Longrightarrow> mset xs = add_mset (xs ! n) (mset (take n xs @ drop (Suc n) xs))"
  by (metis id_take_nth_drop mset_append mset.simps(2) union_mset_add_mset_right)

lemma finish_hook_fields [simp]:
  "pw_trace (finish_hook v get session n s) = pw_trace s" "pw_owner (finish_hook v get session n s) = pw_owner s"
  "pw_registry (finish_hook v get session n s) = pw_registry s"
  "pw_running (finish_hook v get session n s) = take n (pw_running s) @ drop (Suc n) (pw_running s)"
  "pw_built (finish_hook v get session n s) = pw_built s @ [(fst (pw_running s ! n), snd (pw_running s ! n), get)]"
  by (simp_all add: finish_hook_def Let_def split: prod.split option.split)

lemma finish_hook_dispatcher:
  "pw_dispatcher (finish_hook v get session n s) =
     (case messageHook get (snd (pw_running s ! n)) session (fst (pw_running s ! n)) of
        None \<Rightarrow> pw_dispatcher s | Some ev \<Rightarrow> WebhookDispatcher.dispatch v ev (pw_dispatcher s))"
  by (simp add: finish_hook_def Let_def split: prod.split option.split)

lemma map_filter_append: "List.map_filter f (xs @ ys) = List.map_filter f xs @ List.map_filter f ys"
  by (simp add: List.map_filter_def)

lemma finish_hook_accepted:
  assumes "subseq (dp_accepted (pw_dispatcher s)) (List.map_filter (builtEvent v session) (pw_built s))"
  shows "subseq (dp_accepted (pw_dispatcher (finish_hook v get session n s)))
    (List.map_filter (builtEvent v session) (pw_built (finish_hook v get session n s)))"
proof -
  let ?old = "List.map_filter (builtEvent v session) (pw_built s)"
  obtain m owner where mo: "pw_running s ! n = (m, owner)" by (rule prod.exhaust)
  have new: "List.map_filter (builtEvent v session) (pw_built (finish_hook v get session n s)) = ?old
      @ (case messageHook get owner session m of None \<Rightarrow> [] | Some ev \<Rightarrow> [eventPayload v ev])"
    by (simp add: mo map_filter_append) (simp add: List.map_filter_def builtEvent_def split: option.split)
  show ?thesis
  proof (cases "messageHook get owner session m")
    case None
    then show ?thesis using assms new by (simp add: finish_hook_dispatcher mo)
  next
    case (Some ev)
    have "subseq (dp_accepted (pw_dispatcher s)) (?old @ [eventPayload v ev])"
      "subseq (dp_accepted (pw_dispatcher s) @ [eventPayload v ev]) (?old @ [eventPayload v ev])"
      using assms by (auto intro: subseq_rev_drop_many list_emb_append_mono)
    then show ?thesis
      using new Some dispatch_accepted [of v ev "pw_dispatcher s"] by (auto simp: finish_hook_dispatcher mo)
  qed
qed

lemma finish_hook_inv:
  assumes inv: "pipeline_inv v rv session mx g hooks0 ops s" and n: "n < length (pw_running s)"
  shows "pipeline_inv v rv session mx g hooks0 ops (finish_hook v get session n s)"
proof -
  let ?s = "finish_hook v get session n s"
  have "dreach v mx g (pw_dispatcher ?s)"
    using inv by (auto simp: pipeline_inv_def finish_hook_dispatcher intro: dreach.step dstep.dispatch split: option.split)
  moreover have eq: "mset (pw_running ?s) + mset (map builtFor (pw_built ?s)) = mset (pw_running s) + mset (map builtFor (pw_built s))"
    using mset_nth_out [OF n] by (simp add: builtFor_def)
  have "mset (pw_running ?s) + mset (map builtFor (pw_built ?s)) \<subseteq># mset (hook_inputs 0 (pw_trace ?s))"
    using inv by (simp only: eq) (simp add: pipeline_inv_def)
  moreover have "dp_batches (pw_dispatcher ?s) = dp_batches (pw_dispatcher s)"
    by (simp add: finish_hook_dispatcher split: option.split)
  ultimately show ?thesis
    using inv finish_hook_accepted [of s v session get n] by (simp add: pipeline_inv_def del: finish_hook_fields(4,5) mset_map)
qed

lemma run_update_inv:
  assumes inv: "pipeline_inv v rv session mx g hooks0 ops s"
  shows "pipeline_inv v rv session mx g hooks0 ops (run_update writer u s)"
proof -
  let ?new = "map (\<lambda>m. (m, pw_owner s)) (hooked (snd (onUpdate writer u (pw_router s))))"
  have "mset ?new \<subseteq># mset (map (\<lambda>m. (m, knownOwner 0 (pw_trace s))) (newMessages [u]))"
    using update_hooked [of writer u "pw_router s"] inv by (auto simp: pipeline_inv_def)
  from subset_mset.add_mono [OF _ this]
  have "mset (pw_running s) + mset (map builtFor (pw_built s)) + mset ?new \<subseteq># mset (hook_inputs 0 (pw_trace s @ [GotUpdate u]))"
    using inv by (simp add: pipeline_inv_def)
  then show ?thesis using inv by (simp add: pipeline_inv_def ac_simps)
qed

lemma run_owner_inv:
  "pipeline_inv v rv session mx g hooks0 ops s \<Longrightarrow> pipeline_inv v rv session mx g hooks0 ops (run_owner ob s)"
  by (simp add: pipeline_inv_def)

lemma wrun_inv:
  "wrun v rv writer session s0 ops s \<Longrightarrow> s0 = pipeline_init c k r mx g \<Longrightarrow>
   pipeline_inv v rv session mx g (wr_hooks r) ops s"
proof (induction rule: wrun.induct)
  case start
  have "dreach v mx g (dispatcher_start (dispatcher_init mx g))"
    by (rule dreach.step [OF dreach.init dstep.start]) (simp add: dispatcher_init_def)
  then show ?case using start
    by (simp add: pipeline_inv_def pipeline_init_def registered_def dispatcher_start_def dispatcher_init_def)
next
  case (update ops s u)
  then show ?case by (simp add: run_update_inv)
next
  case (owner ops s ob)
  then show ?case by (simp add: run_owner_inv)
next
  case (build ops s n get)
  then show ?case by (simp add: finish_hook_inv)
next
  case (route ops s op)
  then show ?case
    using registry_step_members [of "pw_registry s" rv "wr_hooks r" ops op]
    by (auto simp: pipeline_inv_def registered_more)
next
  case (snapshot ops s batch)
  let ?d = "worker_snapshot (wr_hooks (pw_registry s)) (pw_dispatcher s)"
  have d: "dp_batches ?d = dp_batches (pw_dispatcher s) @ [(batch, activeSnapshot (wr_hooks (pw_registry s)))]"
    "dp_accepted ?d = dp_accepted (pw_dispatcher s)"
    using snapshot(2) by (simp_all add: worker_snapshot_def)
  have "dreach v mx g ?d" using snapshot by (auto simp: pipeline_inv_def intro: dreach.step dstep.snapshot)
  then show ?case using snapshot d by (auto simp: pipeline_inv_def activeSnapshot_def)
next
  case (thread ops s d)
  then have "dreach v mx g d" by (auto simp: pipeline_inv_def intro: dreach.step hook_thread_step)
  then show ?case using thread hook_thread_frame [OF thread(2)] by (simp add: pipeline_inv_def)
qed

section \<open>Every request, from the message to the receiver\<close>

lemma messageHook_conditions:
  "messageHook get owner session m = Some ev \<Longrightarrow>
     \<not> m_is_channel_post m \<and> \<not> m_is_outgoing m \<and> \<not> senderIsOwner m owner"
  using messageHook_iff [of get owner session m] by blast

lemma built_inputs:
  assumes "pipeline_inv v rv session mx g hooks0 ops s"
  shows "mset (map builtFor (pw_built s)) \<subseteq># mset (hook_inputs 0 (pw_trace s))"
proof (rule subset_mset.order_trans)
  show "mset (map builtFor (pw_built s)) \<subseteq># mset (pw_running s) + mset (map builtFor (pw_built s))" by simp
  show "mset (pw_running s) + mset (map builtFor (pw_built s)) \<subseteq># mset (hook_inputs 0 (pw_trace s))"
    using assms by (simp add: pipeline_inv_def)
qed

lemma accepted_origin:
  assumes inv: "pipeline_inv v rv session mx g hooks0 ops s" and p: "p \<in> set (dp_accepted (pw_dispatcher s))"
  shows "\<exists>m get ev pre post. (m, knownOwner 0 pre, get) \<in> set (pw_built s)
    \<and> pw_trace s = pre @ GotUpdate (Some (UpdateNewMessage (Some m))) # post
    \<and> messageHook get (knownOwner 0 pre) session m = Some ev \<and> p = eventPayload v ev"
proof -
  have "p \<in> set (List.map_filter (builtEvent v session) (pw_built s))"
  proof -
    have "subseq (dp_accepted (pw_dispatcher s)) (List.map_filter (builtEvent v session) (pw_built s))"
      using inv by (simp add: pipeline_inv_def)
    then show ?thesis by (rule list_emb_set [OF _ p]) simp
  qed
  then obtain m owner get ev where b: "(m, owner, get) \<in> set (pw_built s)" "messageHook get owner session m = Some ev"
      "p = eventPayload v ev"
    by (auto simp: map_filter_def builtEvent_def)
  then have "(m, owner) \<in># mset (map builtFor (pw_built s))" by (force simp: builtFor_def)
  moreover have "mset (map builtFor (pw_built s)) \<subseteq># mset (hook_inputs 0 (pw_trace s))"
    by (rule built_inputs [OF inv])
  ultimately have "(m, owner) \<in> set (hook_inputs 0 (pw_trace s))" by (metis mset_subset_eqD set_mset_mset)
  with b hook_inputs_at show ?thesis by blast
qed

text \<open>C13: Every webhook request that leaves the process is the event of a new-message update: the event the hook makes of
  that update's message with the owner's id as the last answer to getMe before that update has it (0 before the
  first) and with what TDLib answered that coroutine; the message is incoming, not posted by a channel and not
  sent by that owner. The request goes to an active receiver that was loaded at the start or registered since,
  carries that event's document and, in its headers, the event's id and the signature of the document under
  the receiver's secret; its host is no private one while the guard is on. The events the dispatcher accepts
  are, in order, events of coroutines that ended, and those have as many messages, with the owner's id, as new-message updates
  came with them at most: no message makes two events.\<close>

theorem webhook_requests_explained:
  assumes "wrun v rv writer session (pipeline_init c kafka_made r mx g) ops s" "(h, p, q) \<in> set (dp_log (pw_dispatcher s))"
  shows "(\<exists>m get ev pre post. (m, knownOwner 0 pre, get) \<in> set (pw_built s)
       \<and> pw_trace s = pre @ GotUpdate (Some (UpdateNewMessage (Some m))) # post
       \<and> \<not> m_is_channel_post m \<and> \<not> m_is_outgoing m \<and> \<not> senderIsOwner m (knownOwner 0 pre)
       \<and> messageHook get (knownOwner 0 pre) session m = Some ev \<and> hp_body q = serializeEvent v ev
       \<and> hp_headers q = [(''X-TGW-Signature'', signBody v (wh_secret h) (serializeEvent v ev)), (''X-TGW-Event-Id'', ev_id ev)])
    \<and> wh_active h \<and> registered rv (wr_hooks r) ops h
    \<and> (\<exists>url. parseUrl (wh_url h) = Some url \<and> hp_base q = pu_base url
        \<and> (\<not> g \<or> \<not> isPrivateHost (de_inet_pton6 v) (pu_host url)))
    \<and> subseq (dp_accepted (pw_dispatcher s)) (List.map_filter (builtEvent v session) (pw_built s))
    \<and> mset (map builtFor (pw_built s)) \<subseteq># mset (hook_inputs 0 (pw_trace s))"
proof -
  have inv: "pipeline_inv v rv session mx g (wr_hooks r) ops s" using wrun_inv [OF assms(1) refl] .
  then have d: "dreach v mx g (pw_dispatcher s)" by (simp add: pipeline_inv_def)
  note del = logged_delivery [OF d assms(2)]
  have sent: "deliverOnLoop v g h p = Some q" by (rule logged_request [OF d assms(2)])
  have "p \<in> set (dp_accepted (pw_dispatcher s))" using del by simp
  from accepted_origin [OF inv this] obtain m get ev pre post where m: "(m, knownOwner 0 pre, get) \<in> set (pw_built s)"
      "pw_trace s = pre @ GotUpdate (Some (UpdateNewMessage (Some m))) # post"
      "messageHook get (knownOwner 0 pre) session m = Some ev" "p = eventPayload v ev"
    by blast
  have reg: "registered rv (wr_hooks r) ops h" using inv del by (fastforce simp: pipeline_inv_def)
  have q: "hp_body q = serializeEvent v ev"
      "hp_headers q = [(''X-TGW-Signature'', signBody v (wh_secret h) (serializeEvent v ev)), (''X-TGW-Event-Id'', ev_id ev)]"
      "\<exists>url. parseUrl (wh_url h) = Some url \<and> hp_base q = pu_base url
        \<and> (\<not> g \<or> \<not> isPrivateHost (de_inet_pton6 v) (pu_host url))"
    using sent m(4) by (auto simp: deliverOnLoop_def eventPayload_def split: option.splits if_splits)
  have counts: "subseq (dp_accepted (pw_dispatcher s)) (List.map_filter (builtEvent v session) (pw_built s))"
      "mset (map builtFor (pw_built s)) \<subseteq># mset (hook_inputs 0 (pw_trace s))"
    using inv built_inputs [OF inv] by (simp_all add: pipeline_inv_def)
  show ?thesis using m q reg counts messageHook_conditions [OF m(3)] del by blast
qed

section \<open>Removing a receiver\<close>

definition readds :: "registry_env \<Rightarrow> string \<Rightarrow> registry_op \<Rightarrow> bool" where
  "readds rv i op = (case op of OpAdd url _ _ _ \<Rightarrow> hookId (re_sha256Hex rv) url = i | _ \<Rightarrow> False)"

lemma stays_removed:
  assumes "i \<notin> wh_id ` set (wr_hooks r)" "\<not> readds rv i op"
  shows "i \<notin> wh_id ` set (wr_hooks (registry_step rv op r))"
proof (cases op)
  case (OpAdd url secret active ok)
  let ?w = "\<lparr>wh_id = hookId (re_sha256Hex rv) url, wh_url = url, wh_secret = secret, wh_active = active\<rparr>"
  have "wr_hooks (registry_step rv op r) = upsertHook ?w (wr_hooks r)"
    by (simp add: OpAdd registry_add_def Let_def)
  moreover have "i \<noteq> wh_id ?w" using assms(2) by (auto simp: readds_def OpAdd)
  ultimately show ?thesis using upsert_members [of ?w "wr_hooks r"] assms(1) by auto
next
  case (OpRemove j ok)
  show ?thesis
  proof (cases "eraseHook j (wr_hooks r)")
    case (Some gs)
    with erase_members [OF Some] assms(1) OpRemove show ?thesis by (auto simp: registry_remove_def)
  qed (use assms(1) OpRemove in \<open>simp add: registry_remove_def\<close>)
qed (use assms(1) in simp)

lemma dispatcher_only_snapshots:
  "dp_batches (pw_dispatcher (finish_hook v get session n s)) = dp_batches (pw_dispatcher s)"
  by (simp add: finish_hook_dispatcher split: option.split)

lemma removed_run:
  assumes "wrun v rv writer session s0 ops s" "i \<notin> wh_id ` set (wr_hooks (pw_registry s0))"
  shows "list_all (\<lambda>op. \<not> readds rv i op) ops \<Longrightarrow> i \<notin> wh_id ` set (wr_hooks (pw_registry s))
    \<and> (\<exists>new. dp_batches (pw_dispatcher s) = dp_batches (pw_dispatcher s0) @ new
         \<and> list_all (\<lambda>(batch, hs). i \<notin> wh_id ` set hs) new)"
  using assms(1)
proof (induction rule: wrun.induct)
  case start
  then show ?case using assms(2) by simp
next
  case (update ops s u)
  then show ?case by simp
next
  case (owner ops s ob)
  then show ?case by simp
next
  case (build ops s n get)
  then show ?case by (simp add: dispatcher_only_snapshots)
next
  case (route ops s op)
  then show ?case using stays_removed [of i "pw_registry s" rv op] by simp
next
  case (snapshot ops s batch)
  then obtain new where new: "dp_batches (pw_dispatcher s) = dp_batches (pw_dispatcher s0) @ new"
      "list_all (\<lambda>(batch, hs). i \<notin> wh_id ` set hs) new" "i \<notin> wh_id ` set (wr_hooks (pw_registry s))"
    by blast
  let ?b = "(batch, activeSnapshot (wr_hooks (pw_registry s)))"
  have "dp_batches (worker_snapshot (wr_hooks (pw_registry s)) (pw_dispatcher s)) = dp_batches (pw_dispatcher s0) @ new @ [?b]"
    using new(1) snapshot(2) by (simp add: worker_snapshot_def)
  moreover have "list_all (\<lambda>(batch, hs). i \<notin> wh_id ` set hs) (new @ [?b])"
    using new(2,3) by (auto simp: activeSnapshot_def)
  ultimately show ?case using new(3) by (intro conjI exI [of _ "new @ [?b]"]) simp_all
next
  case (thread ops s d)
  then show ?case by simp
qed

text \<open>C14: A receiver whose removal the gateway has confirmed is in no snapshot the dispatcher's worker takes from then on,
  until its URL is registered again: the only events still sent to it are those of batches that were already
  bound for it.\<close>

theorem removed_receiver_left_alone:
  assumes "handleWebhookDelete rv i ok r = (jsonResponse (okBody []) 200, pw_registry s)" "distinct (map wh_id (wr_hooks r))"
    and "wrun v rv writer session s ops s'" "list_all (\<lambda>op. \<not> readds rv i op) ops"
  shows "\<exists>new. dp_batches (pw_dispatcher s') = dp_batches (pw_dispatcher s) @ new
    \<and> list_all (\<lambda>(batch, hs). i \<notin> wh_id ` set hs) new"
proof -
  have found: "fst (registry_remove rv i ok r)" and now: "snd (registry_remove rv i ok r) = pw_registry s"
    using assms(1) by (auto simp: handleWebhookDelete_def Let_def serviceError_def jsonResponse_def split: prod.splits if_splits)
  obtain gs where gs: "eraseHook i (wr_hooks r) = Some gs"
    using found by (cases "eraseHook i (wr_hooks r)") (simp_all add: registry_remove_def)
  have "wr_hooks (snd (registry_remove rv i ok r)) = gs" by (simp add: registry_remove_def gs)
  then have after: "wr_hooks (pw_registry s) = gs" by (simp only: now)
  have "hook_map gs i = None" using hooks.erase_Some [OF assms(2) gs] by (simp add: hook_map_view)
  then have "i \<notin> wh_id ` set (wr_hooks (pw_registry s))"
    using after by (simp add: hook_map_view hooks.view_None)
  from removed_run [OF assms(3) this assms(4)] show ?thesis by blast
qed

section \<open>Instances\<close>

definition sample_private :: message where
  "sample_private = (sample_message 3 8 0)\<lparr>m_reply_to := None\<rparr>"

definition sample_start :: pipeline where
  "sample_start = pipeline_init (default_config\<lparr>cf_webhooks_enabled := True\<rparr>) False
     \<lparr>wr_hooks = [sample_receiver], wr_store = None, wr_pending = []\<rparr> 1 True"

definition sample_queued :: pipeline where
  "sample_queued = finish_hook sample_dispatch_env (\<lambda>_ _. None) ''s'' 0
     (run_update (\<lambda>_. []) (Some (UpdateNewMessage (Some sample_private))) sample_start)"

definition sample_taken :: dispatcher where
  "sample_taken = worker_take (pw_dispatcher sample_queued)"

definition sample_posted :: dispatcher where
  "sample_posted = worker_post (worker_snapshot [sample_receiver] sample_taken)"

definition sample_made :: webhook_event where
  "sample_made = mk_event sample_private 0 ''s'' 0 [] False ''dm''"

definition sample_payload :: payload where
  "sample_payload = \<lparr>pl_event_id = ''s:5:3'', pl_body = ''doc''\<rparr>"

lemma sample_hook: "messageHook (\<lambda>_ _. None) 0 ''s'' sample_private = Some sample_made"
  by (simp add: messageHook_def detect_def sample_private_def sample_message_def sample_made_def Let_def buildEvent_def
      replyParentId_def reasonName_def)

lemma sample_made_payload: "eventPayload sample_dispatch_env sample_made = sample_payload"
proof -
  have "ev_id sample_made = ''s:5:3''"
    by (simp add: sample_made_def mk_event_def sample_private_def sample_message_def) code_simp
  then show ?thesis by (simp add: eventPayload_def sample_payload_def serializeEvent_def sample_dispatch_env_def)
qed

lemma sample_running:
  "pw_running (run_update (\<lambda>_. []) (Some (UpdateNewMessage (Some sample_private))) sample_start) = [(sample_private, 0)]"
  by (simp add: onUpdate_def forwardUpdate_def buildForwardable_def Let_def hooked_append hooked_parts(1-3) sample_start_def
      pipeline_init_def mainRouter_def webhookEffects_def) (simp add: hooked_def List.map_filter_def)

lemma sample_queued_state:
  "dp_queue (pw_dispatcher sample_queued) = [sample_payload]" "dp_worker (pw_dispatcher sample_queued) = Waiting"
  "dp_loop (pw_dispatcher sample_queued) = LoopUp" "dp_log (pw_dispatcher sample_queued) = []"
  "dp_posted (pw_dispatcher sample_queued) = []" "dp_ssrf_guard (pw_dispatcher sample_queued) = True"
proof -
  let ?s = "run_update (\<lambda>_. []) (Some (UpdateNewMessage (Some sample_private))) sample_start"
  have at: "pw_running ?s ! 0 = (sample_private, 0)" unfolding sample_running by simp
  have "pw_dispatcher sample_queued = dispatch_payload sample_payload (pw_dispatcher ?s)"
    using sample_made_payload sample_hook
    by (simp only: sample_queued_def finish_hook_dispatcher at sample_hook fst_conv snd_conv option.case)
      (simp add: WebhookDispatcher.dispatch_def eventPayload_def)
  then have "pw_dispatcher sample_queued = dispatch_payload sample_payload (dispatcher_start (dispatcher_init 1 True))"
    by (simp add: sample_start_def pipeline_init_def)
  then show "dp_queue (pw_dispatcher sample_queued) = [sample_payload]" "dp_worker (pw_dispatcher sample_queued) = Waiting"
    "dp_loop (pw_dispatcher sample_queued) = LoopUp" "dp_log (pw_dispatcher sample_queued) = []"
    "dp_posted (pw_dispatcher sample_queued) = []" "dp_ssrf_guard (pw_dispatcher sample_queued) = True"
    by (simp_all add: dispatch_payload_def dispatcher_start_def dispatcher_init_def)
qed

lemma sample_taken_state:
  "dp_worker sample_taken = Holding [sample_payload]" "dp_loop sample_taken = LoopUp" "dp_log sample_taken = []"
  "dp_posted sample_taken = []" "dp_ssrf_guard sample_taken = True"
  by (simp_all add: sample_taken_def worker_take_def swap_queue_def sample_queued_state)

lemma sample_posted_state:
  "dp_posted sample_posted = [(sample_receiver, sample_payload)]" "dp_loop sample_posted = LoopUp" "dp_log sample_posted = []"
  "dp_ssrf_guard sample_posted = True"
  by (simp_all add: sample_posted_def worker_snapshot_def worker_post_def sample_taken_state deliveries_def activeSnapshot_def
      sample_receiver_def)

lemma sample_sent: "map fst (dp_log (loop_run sample_dispatch_env sample_posted)) = [sample_receiver]"
proof -
  have "deliverOnLoop sample_dispatch_env True sample_receiver sample_payload \<noteq> None" by code_simp
  then show ?thesis by (auto simp: loop_run_def sample_posted_state)
qed

lemma sample_posted_up: "loop_alive sample_posted \<and> dp_posted sample_posted \<noteq> []"
  by (simp add: loop_alive_def sample_posted_state)

lemma sample_receivers: "wr_hooks (pw_registry sample_queued) = [sample_receiver]"
  by (simp add: sample_queued_def dispatcher_only_snapshots sample_start_def pipeline_init_def)

lemma sample_run_taken:
  "wrun sample_dispatch_env sample_registry_env (\<lambda>_. []) ''s'' sample_start [] (sample_queued\<lparr>pw_dispatcher := sample_taken\<rparr>)"
proof -
  have "wrun sample_dispatch_env sample_registry_env (\<lambda>_. []) ''s'' sample_start []
      (run_update (\<lambda>_. []) (Some (UpdateNewMessage (Some sample_private))) sample_start)"
    by (rule wrun.update [OF wrun.start])
  then have "wrun sample_dispatch_env sample_registry_env (\<lambda>_. []) ''s'' sample_start [] sample_queued"
    unfolding sample_queued_def by (rule wrun.build) (simp only: sample_running, simp)
  then show ?thesis
  proof (rule wrun.thread)
    show "hook_thread sample_dispatch_env (pw_dispatcher sample_queued) sample_taken"
      unfolding sample_taken_def by (rule hook_thread.take) (simp_all add: sample_queued_state)
  qed (simp add: sample_taken_def worker_take_def swap_queue_def)
qed

lemma sample_run:
  "wrun sample_dispatch_env sample_registry_env (\<lambda>_. []) ''s'' sample_start []
     (sample_queued\<lparr>pw_dispatcher := loop_run sample_dispatch_env sample_posted\<rparr>)"
proof -
  let ?snap = "worker_snapshot [sample_receiver] sample_taken"
  let ?run = "wrun sample_dispatch_env sample_registry_env (\<lambda>_. []) ''s'' sample_start []"
  have "?run (sample_queued\<lparr>pw_dispatcher := ?snap\<rparr>)"
    using wrun.snapshot [OF sample_run_taken] sample_taken_state(1) by (simp add: sample_receivers)
  from wrun.thread [OF this, of sample_posted]
  have "?run (sample_queued\<lparr>pw_dispatcher := sample_posted\<rparr>)"
    using hook_thread.post [of ?snap] sample_taken_state(1)
    by (simp add: sample_posted_def worker_snapshot_def worker_post_def split: list.split)
  from wrun.thread [OF this, of "loop_run sample_dispatch_env sample_posted"]
  show ?thesis
    using hook_thread.run [of sample_posted sample_dispatch_env] sample_posted_up
    by (simp add: loop_run_def Let_def split: list.split option.split)
qed

theorem webhook_requests_explained_witness:
  "\<exists>p q m get ev pre. (sample_receiver, p, q) \<in> set (dp_log (loop_run sample_dispatch_env sample_posted))
     \<and> messageHook get (knownOwner 0 pre) ''s'' m = Some ev \<and> \<not> m_is_outgoing m \<and> hp_body q = serializeEvent sample_dispatch_env ev"
proof -
  obtain p q where l: "(sample_receiver, p, q) \<in> set (dp_log (loop_run sample_dispatch_env sample_posted))"
    using sample_sent by (cases "dp_log (loop_run sample_dispatch_env sample_posted)") auto
  then have "(sample_receiver, p, q) \<in> set (dp_log (pw_dispatcher
      (sample_queued\<lparr>pw_dispatcher := loop_run sample_dispatch_env sample_posted\<rparr>)))" by simp
  from webhook_requests_explained [OF sample_run [unfolded sample_start_def] this] l show ?thesis by blast
qed

theorem removed_receiver_left_alone_witness:
  "\<exists>(s' :: pipeline) new. dp_batches (pw_dispatcher s') = dp_batches sample_taken @ new \<and> new \<noteq> []
     \<and> list_all (\<lambda>(batch, hs). ''i'' \<notin> wh_id ` set hs) new"
proof -
  let ?r = "\<lparr>wr_hooks = [sample_receiver], wr_store = None, wr_pending = []\<rparr>"
  let ?s = "sample_queued\<lparr>pw_dispatcher := sample_taken, pw_registry := ?r\<lparr>wr_hooks := [], wr_pending := [re_writer sample_registry_env (JArr [])]\<rparr>\<rparr>"
  let ?s' = "?s\<lparr>pw_dispatcher := worker_snapshot (wr_hooks (pw_registry ?s)) (pw_dispatcher ?s)\<rparr>"
  have del: "handleWebhookDelete sample_registry_env ''i'' True ?r = (jsonResponse (okBody []) 200, pw_registry ?s)"
    by (simp add: handleWebhookDelete_def registry_remove_def sample_receiver_def persist_def serializeHooks_def
        sample_registry_env_def)
  have run: "wrun sample_dispatch_env sample_registry_env (\<lambda>_. []) ''s'' ?s [] ?s'"
    by (rule wrun.snapshot [OF wrun.start]) (simp add: sample_taken_state(1))
  have b: "dp_batches (pw_dispatcher ?s') = dp_batches sample_taken @ [([sample_payload], [])]"
    by (simp add: worker_snapshot_def sample_taken_state(1) activeSnapshot_def)
  obtain new where new: "dp_batches (pw_dispatcher ?s') = dp_batches (pw_dispatcher ?s) @ new"
      "list_all (\<lambda>(batch, hs). ''i'' \<notin> wh_id ` set hs) new"
    using removed_receiver_left_alone [OF del _ run] by (auto simp: sample_receiver_def)
  have old: "dp_batches (pw_dispatcher ?s) = dp_batches sample_taken" by simp
  show ?thesis
  proof (rule exI [of _ ?s'], rule exI [of _ new], intro conjI)
    show "dp_batches (pw_dispatcher ?s') = dp_batches sample_taken @ new" using new(1) unfolding old .
    then show "new \<noteq> []" using b by force
    show "list_all (\<lambda>(batch, hs). ''i'' \<notin> wh_id ` set hs) new" by (rule new(2))
  qed
qed

end
