(* ===== verification/WsRegistry.thy ===== *)
theory WsRegistry
  imports Tokens
begin

text \<open>
  \<^verbatim>\<open>src/src/ws/ws_registry.{hpp,cpp}\<close> and \<^verbatim>\<open>updates_ws.cpp\<close>: the subscribers of the WebSocket stream. A
  connection is its identity; whether it is still connected is what Drogon answers at the time of the
  fan-out, the parameter \<open>online\<close>. Methods run under one mutex. What is sent and closed after the
  mutex is released is returned, in order. JSON reading and writing are the parameters \<open>parse\<close> and
  \<open>writer\<close>.
\<close>

type_synonym conn = nat

record subscriber =
  sb_conn :: conn
  sb_bytes :: u64
  sb_filter :: "string set"

record registry =
  rg_connections :: "subscriber list"
  rg_max_pending :: u64

definition registry_init :: registry where
  "registry_init = \<lparr>rg_connections = [], rg_max_pending = 8 * 1024 * 1024\<rparr>"

section \<open>The registry\<close>

definition rg_connect :: "conn \<Rightarrow> registry \<Rightarrow> registry" where
  "rg_connect c r =
     r\<lparr>rg_connections := rg_connections r @ [\<lparr>sb_conn = c, sb_bytes = 0, sb_filter = {}\<rparr>]\<rparr>"

definition rg_disconnect :: "conn \<Rightarrow> registry \<Rightarrow> registry" where
  "rg_disconnect c r = r\<lparr>rg_connections := filter (\<lambda>s. sb_conn s \<noteq> c) (rg_connections r)\<rparr>"

text \<open>The loops of \<^verbatim>\<open>notePong\<close> and \<^verbatim>\<open>setFilter\<close> change the first subscriber of the connection and return.\<close>

fun change_first :: "conn \<Rightarrow> (subscriber \<Rightarrow> subscriber) \<Rightarrow> subscriber list \<Rightarrow> subscriber list" where
  "change_first c f [] = []"
| "change_first c f (s # ss) = (if sb_conn s = c then f s # ss else s # change_first c f ss)"

definition notePong :: "conn \<Rightarrow> registry \<Rightarrow> registry" where
  "notePong c r = r\<lparr>rg_connections := change_first c (\<lambda>s. s\<lparr>sb_bytes := 0\<rparr>) (rg_connections r)\<rparr>"

definition setFilter :: "conn \<Rightarrow> string set \<Rightarrow> registry \<Rightarrow> registry" where
  "setFilter c types r =
     r\<lparr>rg_connections := change_first c (\<lambda>s. s\<lparr>sb_filter := types\<rparr>) (rg_connections r)\<rparr>"

definition setMaxPendingBytes :: "u64 \<Rightarrow> registry \<Rightarrow> registry" where
  "setMaxPendingBytes bytes r = r\<lparr>rg_max_pending := bytes\<rparr>"

definition wanted :: "(conn \<Rightarrow> bool) \<Rightarrow> string \<Rightarrow> subscriber \<Rightarrow> bool" where
  "wanted online ty s \<longleftrightarrow> online (sb_conn s) \<and> (sb_filter s = {} \<or> ty \<in> sb_filter s)"

text \<open>The loop of \<^verbatim>\<open>fanOut\<close>: the subscribers with their new counts, the live and the slow connections.\<close>

fun fanOut_loop ::
  "(conn \<Rightarrow> bool) \<Rightarrow> string \<Rightarrow> u64 \<Rightarrow> u64 \<Rightarrow> subscriber list \<Rightarrow> subscriber list \<times> conn list \<times> conn list" where
  "fanOut_loop online ty len mx [] = ([], [], [])"
| "fanOut_loop online ty len mx (s # ss) =
     (let (rest, alive, slow) = fanOut_loop online ty len mx ss
      in if \<not> online (sb_conn s) then (s # rest, alive, slow)
         else if sb_filter s \<noteq> {} \<and> ty \<notin> sb_filter s then (s # rest, alive, slow)
         else let s' = s\<lparr>sb_bytes := sb_bytes s + len\<rparr>
              in if mx \<noteq> 0 \<and> mx < sb_bytes s' then (s' # rest, alive, sb_conn s # slow)
                 else (s' # rest, sb_conn s # alive, slow))"

definition fanOut ::
  "(conn \<Rightarrow> bool) \<Rightarrow> string \<Rightarrow> string \<Rightarrow> registry \<Rightarrow> registry \<times> conn list \<times> (conn \<times> string) list" where
  "fanOut online ty payload r =
     (let (ss, alive, slow) = fanOut_loop online ty (of_nat (length payload)) (rg_max_pending r) (rg_connections r)
      in (r\<lparr>rg_connections := (if slow \<noteq> [] then filter (\<lambda>s. sb_conn s \<notin> set slow) ss else ss)\<rparr>,
          slow, map (\<lambda>c. (c, payload)) alive))"

section \<open>The endpoint\<close>

definition extractBearer :: "request \<Rightarrow> string" where
  "extractBearer req =
     (let authz = rq_header req ''Authorization''; proto = rq_header req ''Sec-WebSocket-Protocol''
      in if length ''Bearer '' < length authz \<and> take (length ''Bearer '') authz = ''Bearer ''
         then drop (length ''Bearer '') authz
         else if length ''bearer.'' < length proto \<and> take (length ''bearer.'') proto = ''bearer.''
         then drop (length ''bearer.'') proto
         else [])"

definition helloFrame :: "string \<Rightarrow> json" where
  "helloFrame session_id = JObj [(''type'', JStr ''hello''), (''session_id'', JStr session_id)]"

datatype ws_effect = WsForceClose conn | WsSend conn json | WsPing conn nat

definition handleNewConnection ::
  "(string \<Rightarrow> string) \<Rightarrow> token_entry list \<Rightarrow> string \<Rightarrow> request \<Rightarrow> conn \<Rightarrow> registry \<Rightarrow> registry \<times> ws_effect list" where
  "handleNewConnection sha256 store session_id req c r =
     (case verify sha256 store (extractBearer req) of
        None \<Rightarrow> (r, [WsForceClose c])
      | Some scopes \<Rightarrow>
          if \<not> scopeAllows scopes ScopeRead then (r, [WsForceClose c])
          else (rg_connect c r, [WsPing c 15, WsSend c (helloFrame session_id)]))"

datatype ws_message = Text string | Pong | WsOther

definition handleNewMessage ::
  "(string \<Rightarrow> json option) \<Rightarrow> conn \<Rightarrow> ws_message \<Rightarrow> registry \<Rightarrow> registry \<times> ws_effect list" where
  "handleNewMessage parse c msg r = (case msg of
     Pong \<Rightarrow> (notePong c r, [])
   | WsOther \<Rightarrow> (r, [])
   | Text txt \<Rightarrow>
       (case parse txt of
          Some (JObj frame) \<Rightarrow>
            (case (jmember frame ''type'', jmember frame ''update_types'') of
               (JStr ty, JArr types) \<Rightarrow>
                 if ty \<noteq> ''subscribe'' then (r, [])
                 else (setFilter c (set (List.map_filter str_of types)) r,
                       [WsSend c (JObj [(''type'', JStr ''subscribed''), (''update_types'', JArr types)])])
             | _ \<Rightarrow> (r, []))
        | _ \<Rightarrow> (r, [])))"

definition handleConnectionClosed :: "conn \<Rightarrow> registry \<Rightarrow> registry" where
  "handleConnectionClosed c r = rg_disconnect c r"

section \<open>Facts\<close>

lemma fanOut_loop_parts:
  "fanOut_loop online ty len mx ss =
     (map (\<lambda>s. if wanted online ty s then s\<lparr>sb_bytes := sb_bytes s + len\<rparr> else s) ss,
      map sb_conn (filter (\<lambda>s. wanted online ty s \<and> \<not> (mx \<noteq> 0 \<and> mx < sb_bytes s + len)) ss),
      map sb_conn (filter (\<lambda>s. wanted online ty s \<and> mx \<noteq> 0 \<and> mx < sb_bytes s + len) ss))"
  by (induction ss) (auto simp: Let_def wanted_def)

lemma change_first_conns [simp]:
  "(\<And>s. sb_conn (f s) = sb_conn s) \<Longrightarrow> map sb_conn (change_first c f ss) = map sb_conn ss"
  by (induction ss) auto

text \<open>The invariant: one subscriber per connection, and with back-pressure on no count above the limit.\<close>

definition registry_ok :: "registry \<Rightarrow> bool" where
  "registry_ok r \<longleftrightarrow> distinct (map sb_conn (rg_connections r))
     \<and> (rg_max_pending r \<noteq> 0 \<longrightarrow> (\<forall>s \<in> set (rg_connections r). sb_bytes s \<le> rg_max_pending r))"

lemma registry_init_ok: "registry_ok registry_init"
  by (simp add: registry_ok_def registry_init_def)

lemma rg_connect_ok: "registry_ok r \<Longrightarrow> c \<notin> sb_conn ` set (rg_connections r) \<Longrightarrow> registry_ok (rg_connect c r)"
  by (auto simp: registry_ok_def rg_connect_def)

lemma rg_disconnect_ok: "registry_ok r \<Longrightarrow> registry_ok (rg_disconnect c r)"
  by (auto simp: registry_ok_def rg_disconnect_def distinct_map_filter)

lemma change_first_set: "x \<in> set (change_first c f ss) \<Longrightarrow> x \<in> set ss \<or> (\<exists>s \<in> set ss. x = f s)"
  by (induction ss) (auto split: if_splits)

lemma notePong_ok: "registry_ok r \<Longrightarrow> registry_ok (notePong c r)"
  by (auto simp: registry_ok_def notePong_def dest!: change_first_set)

lemma setFilter_ok: "registry_ok r \<Longrightarrow> registry_ok (setFilter c types r)"
  by (auto simp: registry_ok_def setFilter_def dest!: change_first_set)

lemma fanOut_connections:
  assumes "fanOut online ty payload r = (r', slow, sent)"
  shows "rg_max_pending r' = rg_max_pending r"
    and "rg_connections r' = filter (\<lambda>s. sb_conn s \<notin> set slow)
      (map (\<lambda>s. if wanted online ty s then s\<lparr>sb_bytes := sb_bytes s + of_nat (length payload)\<rparr> else s) (rg_connections r))"
  using assms by (auto simp: fanOut_def fanOut_loop_parts Let_def split: if_splits)

lemma fanOut_slow:
  "fanOut online ty payload r = (r', slow, sent) \<Longrightarrow>
   slow = map sb_conn (filter (\<lambda>s. wanted online ty s \<and> rg_max_pending r \<noteq> 0
            \<and> rg_max_pending r < sb_bytes s + of_nat (length payload)) (rg_connections r))"
  by (auto simp: fanOut_def fanOut_loop_parts Let_def)

lemma fanOut_sent:
  "fanOut online ty payload r = (r', slow, sent) \<Longrightarrow>
   sent = map (\<lambda>s. (sb_conn s, payload)) (filter (\<lambda>s. wanted online ty s
            \<and> \<not> (rg_max_pending r \<noteq> 0 \<and> rg_max_pending r < sb_bytes s + of_nat (length payload))) (rg_connections r))"
  by (auto simp: fanOut_def fanOut_loop_parts Let_def)

lemma fanOut_ok:
  assumes "registry_ok r" "fanOut online ty payload r = (r', slow, sent)"
  shows "registry_ok r'"
proof -
  let ?f = "\<lambda>s. if wanted online ty s then s\<lparr>sb_bytes := sb_bytes s + of_nat (length payload)\<rparr> else s"
  note c = fanOut_connections [OF assms(2)] and sl = fanOut_slow [OF assms(2)]
  have mp: "map sb_conn (map ?f xs) = map sb_conn xs" for xs by (induction xs) auto
  have "distinct (map sb_conn (map ?f (rg_connections r)))"
    unfolding mp using assms(1) by (simp add: registry_ok_def)
  then have d: "distinct (map sb_conn (rg_connections r'))" unfolding c(2) by (rule distinct_map_filter)
  have "sb_bytes x \<le> rg_max_pending r" if m: "rg_max_pending r \<noteq> 0" and x: "x \<in> set (rg_connections r')" for x
  proof -
    from x obtain s where s: "s \<in> set (rg_connections r)" "x = ?f s" "sb_conn s \<notin> set slow"
      unfolding c(2) by (auto split: if_splits)
    then show ?thesis
      using m assms(1) sl by (auto simp: registry_ok_def not_less split: if_splits)
  qed
  with d c(1) show ?thesis by (simp add: registry_ok_def)
qed

lemma filter_map_conns:
  "(\<And>s. sb_conn (f s) = sb_conn s) \<Longrightarrow>
   sb_conn ` set (filter (\<lambda>s. sb_conn s \<notin> S) (map f xs)) = sb_conn ` set xs - S"
  by (induction xs) auto

lemma conns_after_fanOut:
  assumes "fanOut online ty payload r = (r', slow, sent)"
  shows "sb_conn ` set (rg_connections r') = sb_conn ` set (rg_connections r) - set slow"
  unfolding fanOut_connections(2) [OF assms] by (rule filter_map_conns) simp

lemma change_first_other:
  "(\<And>s. sb_conn (f s) = sb_conn s) \<Longrightarrow> x \<noteq> c \<Longrightarrow>
   (\<exists>s \<in> set (change_first c f ss). sb_conn s = x \<and> P s) \<longleftrightarrow> (\<exists>s \<in> set ss. sb_conn s = x \<and> P s)"
  by (induction ss) auto

lemma sent_member:
  "(x, p) \<in> set (map (\<lambda>s. (sb_conn s, p)) (filter P ss)) \<longleftrightarrow> (\<exists>s \<in> set ss. sb_conn s = x \<and> P s)"
  by (induction ss) auto

lemma change_first_member:
  "distinct (map sb_conn ss) \<Longrightarrow> (\<And>s. sb_conn (f s) = sb_conn s) \<Longrightarrow>
   x \<in> set (change_first c f ss) \<longleftrightarrow> (if sb_conn x = c then (\<exists>s \<in> set ss. sb_conn s = c \<and> x = f s) else x \<in> set ss)"
  by (induction ss) (auto simp: image_iff)

lemma str_of_mem: "ty \<in> set (List.map_filter str_of types) \<longleftrightarrow> JStr ty \<in> set types"
proof (induction types)
  case (Cons t ts)
  then show ?case by (cases t) (auto simp: List.map_filter_def str_of_def)
qed (simp add: List.map_filter_def)

section \<open>What the registry promises\<close>

text \<open>one update goes to every subscriber that is connected, subscribed to its type and within the backlog
  limit, once, in the order of subscription, and to nobody else; a subscriber over the limit is closed
  and removed instead; all others stay, and no count is above the limit afterwards.\<close>

theorem fan_out_delivery:
  assumes ok: "registry_ok r" and fo: "fanOut online ty payload r = (r', slow, sent)"
  shows "registry_ok r'
    \<and> map fst sent = map sb_conn (filter (\<lambda>s. wanted online ty s \<and> sb_conn s \<notin> set slow) (rg_connections r))
    \<and> (\<forall>x \<in> set sent. snd x = payload) \<and> distinct (map fst sent)
    \<and> sb_conn ` set (rg_connections r') = sb_conn ` set (rg_connections r) - set slow
    \<and> (rg_max_pending r = 0 \<longrightarrow> slow = [])
    \<and> (\<forall>s \<in> set (rg_connections r). sb_conn s \<in> set slow \<longrightarrow>
          wanted online ty s \<and> rg_max_pending r < sb_bytes s + of_nat (length payload))"
proof -
  let ?over = "\<lambda>s. rg_max_pending r \<noteq> 0 \<and> rg_max_pending r < sb_bytes s + of_nat (length payload)"
  have d: "distinct (map sb_conn (rg_connections r))" using ok by (simp add: registry_ok_def)
  note sl = fanOut_slow [OF fo] and se = fanOut_sent [OF fo]
  have slow: "sb_conn s \<in> set slow \<longleftrightarrow> wanted online ty s \<and> ?over s" if "s \<in> set (rg_connections r)" for s
  proof
    assume "sb_conn s \<in> set slow"
    then obtain s' where s': "s' \<in> set (rg_connections r)" "sb_conn s' = sb_conn s" "wanted online ty s' \<and> ?over s'"
      unfolding sl by auto
    moreover have "s' = s" using d s'(1,2) that by (meson distinct_map inj_onD)
    ultimately show "wanted online ty s \<and> ?over s" by simp
  next
    assume "wanted online ty s \<and> ?over s"
    with that show "sb_conn s \<in> set slow" unfolding sl by auto
  qed
  then have f: "filter (\<lambda>s. wanted online ty s \<and> sb_conn s \<notin> set slow) (rg_connections r) =
      filter (\<lambda>s. wanted online ty s \<and> \<not> ?over s) (rg_connections r)"
    by (intro filter_cong) auto
  have "map fst sent = map sb_conn (filter (\<lambda>s. wanted online ty s \<and> \<not> ?over s) (rg_connections r))"
    unfolding se by simp
  moreover from this have "distinct (map fst sent)" using d by (simp add: distinct_map_filter)
  moreover have "\<forall>x \<in> set sent. snd x = payload" unfolding se by auto
  ultimately show ?thesis
    using fanOut_ok [OF ok fo] conns_after_fanOut [OF fo] f slow by (auto simp: sl)
qed

theorem fan_out_delivery_witness:
  "map fst (snd (snd (fanOut (\<lambda>_. True) ''u'' ''abc'' (rg_connect 2 (rg_connect 1 registry_init))))) = [1, 2]"
proof -
  let ?r = "rg_connect 2 (rg_connect 1 registry_init)"
  have ok: "registry_ok ?r" by (intro rg_connect_ok registry_init_ok) (simp_all add: registry_init_def rg_connect_def)
  obtain r' slow sent where fo: "fanOut (\<lambda>_. True) ''u'' ''abc'' ?r = (r', slow, sent)" by (metis prod_cases3)
  have "slow = []" using fanOut_slow [OF fo] by (simp add: wanted_def rg_connect_def registry_init_def)
  then show ?thesis
    using fan_out_delivery [OF ok fo] fo by (simp add: wanted_def rg_connect_def registry_init_def)
qed

text \<open>a subscription narrows the stream: after a client's \<^verbatim>\<open>subscribe\<close> frame an update reaches it only if its
  type is among the strings of the frame's list, or the list holds no string at all (an empty list, but
  also one of other values only, which the source does not tell apart). Other subscribers are not affected.\<close>

theorem subscription_narrows:
  assumes "registry_ok r" "parse txt = Some (JObj frame)"
    and "jmember frame ''type'' = JStr ''subscribe''" "jmember frame ''update_types'' = JArr types"
    and "fanOut online ty payload (fst (handleNewMessage parse c (Text txt) r)) = (r', slow, sent)"
  shows "((c, payload) \<in> set sent \<longrightarrow> List.map_filter str_of types = [] \<or> JStr ty \<in> set types)
    \<and> (\<forall>d. d \<noteq> c \<longrightarrow> ((d, payload) \<in> set sent \<longleftrightarrow> (d, payload) \<in> set (snd (snd (fanOut online ty payload r)))))"
proof -
  let ?F = "set (List.map_filter str_of types)"
  have h: "fst (handleNewMessage parse c (Text txt) r) = setFilter c ?F r"
    using assms(2-4) by (simp add: handleNewMessage_def)
  have d: "distinct (map sb_conn (rg_connections r))" using assms(1) by (simp add: registry_ok_def)
  have conns: "rg_connections (setFilter c ?F r) = change_first c (\<lambda>s. s\<lparr>sb_filter := ?F\<rparr>) (rg_connections r)"
    by (simp add: setFilter_def)
  have mx: "rg_max_pending (setFilter c ?F r) = rg_max_pending r" by (simp add: setFilter_def)
  have same: "sb_conn (s\<lparr>sb_filter := ?F\<rparr>) = sb_conn s" for s by simp
  note mem = change_first_member [OF d, of "\<lambda>s. s\<lparr>sb_filter := ?F\<rparr>", OF same]
  note se = fanOut_sent [OF assms(5) [unfolded h], unfolded conns mx]
  have str: "ty \<in> ?F \<longleftrightarrow> JStr ty \<in> set types"
    by (rule str_of_mem)
  have "List.map_filter str_of types = [] \<or> ty \<in> ?F" if got: "(c, payload) \<in> set sent"
  proof -
    obtain s where s: "s \<in> set (change_first c (\<lambda>s. s\<lparr>sb_filter := ?F\<rparr>) (rg_connections r))"
      "sb_conn s = c" "wanted online ty s"
      using got unfolding se sent_member by blast
    have "\<exists>s' \<in> set (rg_connections r). sb_conn s' = c \<and> s = s'\<lparr>sb_filter := ?F\<rparr>"
      using iffD1 [OF mem [of s c] s(1)] s(2) by simp
    then have "sb_filter s = ?F" by auto
    then show ?thesis using s(3) by (auto simp: wanted_def)
  qed
  moreover have "(x, payload) \<in> set sent \<longleftrightarrow> (x, payload) \<in> set (snd (snd (fanOut online ty payload r)))"
    if x: "x \<noteq> c" for x
  proof -
    obtain r2 slow2 sent2 where f2: "fanOut online ty payload r = (r2, slow2, sent2)" by (metis prod_cases3)
    show ?thesis
      unfolding f2 snd_conv fanOut_sent [OF f2] se sent_member
      using x by (intro change_first_other) simp_all
  qed
  ultimately show ?thesis unfolding str by blast
qed

theorem subscription_narrows_witness:
  "\<exists>sent. (1, ''p'') \<notin> set sent \<and> (\<exists>r' slow. fanOut (\<lambda>_. True) ''updateNewChat'' ''p''
     (fst (handleNewMessage (\<lambda>_. Some (JObj [(''type'', JStr ''subscribe''),
        (''update_types'', JArr [JStr ''updateNewMessage''])])) 1 (Text ''x'') (rg_connect 1 registry_init))) = (r', slow, sent))"
proof -
  let ?parse = "\<lambda>_ :: string. Some (JObj [(''type'', JStr ''subscribe''), (''update_types'', JArr [JStr ''updateNewMessage''])])"
  let ?r = "rg_connect 1 registry_init"
  obtain r' slow sent where fo: "fanOut (\<lambda>_. True) ''updateNewChat'' ''p'' (fst (handleNewMessage ?parse 1 (Text ''x'') ?r)) = (r', slow, sent)"
    by (metis prod_cases3)
  have ok: "registry_ok ?r" by (intro rg_connect_ok registry_init_ok) (simp add: registry_init_def)
  have "(1, ''p'') \<notin> set sent"
    using subscription_narrows [where parse = ?parse, OF ok refl _ _ fo, of "[JStr ''updateNewMessage'']"]
    by (simp add: List.map_filter_def)
  with fo show ?thesis by blast
qed

end
