(* ===== verification/Metrics.thy ===== *)
theory Metrics
  imports CppStrings AuthFsm Bridge WsRegistry
begin

text \<open>
  The counters of the process and the page a Prometheus server reads:
  \<^verbatim>\<open>src/src/util/metrics.{hpp,cpp}\<close> and \<^verbatim>\<open>src/src/http/metrics_routes.cpp\<close>. Each counter is an atomic
  64-bit word that starts at 0. The gauges are read from their owners when the page is rendered.
\<close>

section \<open>The counters\<close>

record counters =
  http_requests_total :: u64
  http_responses_4xx_total :: u64
  http_responses_5xx_total :: u64
  updates_forwarded_total :: u64
  ws_slow_disconnects_total :: u64
  kafka_produced_total :: u64
  kafka_failed_total :: u64
  kafka_dropped_total :: u64
  webhook_delivered_total :: u64
  webhook_failed_total :: u64
  webhook_dropped_total :: u64

definition counters_init :: counters where
  "counters_init = \<lparr>http_requests_total = 0, http_responses_4xx_total = 0, http_responses_5xx_total = 0,
     updates_forwarded_total = 0, ws_slow_disconnects_total = 0, kafka_produced_total = 0,
     kafka_failed_total = 0, kafka_dropped_total = 0, webhook_delivered_total = 0,
     webhook_failed_total = 0, webhook_dropped_total = 0\<rparr>"

text \<open>The advice that runs after every response, with its status.\<close>

definition countResponse :: "nat \<Rightarrow> counters \<Rightarrow> counters" where
  "countResponse code c =
     (let c1 = c\<lparr>http_requests_total := http_requests_total c + 1\<rparr>
      in if 500 \<le> code then c1\<lparr>http_responses_5xx_total := http_responses_5xx_total c1 + 1\<rparr>
         else if 400 \<le> code then c1\<lparr>http_responses_4xx_total := http_responses_4xx_total c1 + 1\<rparr>
         else c1)"

text \<open>\<^verbatim>\<open>fanOut\<close> counts each subscriber it drops.\<close>

definition countSlow :: "conn list \<Rightarrow> counters \<Rightarrow> counters" where
  "countSlow slow c = fold (\<lambda>_ d. d\<lparr>ws_slow_disconnects_total := ws_slow_disconnects_total d + 1\<rparr>) slow c"

section \<open>The page\<close>

definition newline :: string where
  "newline = [CHR 0x0A]"

text \<open>A metric writes three lines: its help, its type, its one sample. The page is a literal in the code, one
  metric after the other, which is here the list of its variable parts.\<close>

record metric =
  mt_name :: string
  mt_help :: string
  mt_kind :: string
  mt_labels :: string
  mt_value :: string

definition metricText :: "metric \<Rightarrow> string" where
  "metricText m =
     (''# HELP '' @ mt_name m @ '' '' @ mt_help m) @ newline @ (''# TYPE '' @ mt_name m @ '' '' @ mt_kind m) @ newline
       @ (mt_name m @ mt_labels m @ '' '' @ mt_value m) @ newline"

definition gauge :: "string \<Rightarrow> string \<Rightarrow> string \<Rightarrow> string \<Rightarrow> metric" where
  "gauge name help labels v =
     \<lparr>mt_name = name, mt_help = help, mt_kind = ''gauge'', mt_labels = labels, mt_value = v\<rparr>"

definition total_counter :: "string \<Rightarrow> string \<Rightarrow> u64 \<Rightarrow> metric" where
  "total_counter name help w =
     \<lparr>mt_name = name, mt_help = help, mt_kind = ''counter'', mt_labels = [], mt_value = nat_to_string (unat w)\<rparr>"

definition stateLabel :: "auth_state \<Rightarrow> string" where
  "stateLabel s = ''{state='' @ [CHR 0x22] @ authStateName s @ [CHR 0x22] @ ''}''"

definition gatewayMetrics :: "bridge \<Rightarrow> auth \<Rightarrow> registry \<Rightarrow> counters \<Rightarrow> metric list" where
  "gatewayMetrics b a r c =
    [gauge ''tgw_ready'' ''1 if authorized in Telegram (authorizationStateReady)'' []
       (if au_state a = Ready then ''1'' else ''0''),
     gauge ''tgw_auth_state'' ''Current auth FSM state (one-hot)'' (stateLabel (au_state a)) ''1'',
     gauge ''tgw_ws_subscribers'' ''Connected WebSocket subscribers'' [] (nat_to_string (length (rg_connections r))),
     gauge ''tgw_bridge_inflight'' ''In-flight TDLib requests (correlation map size)'' []
       (nat_to_string (length (table (b_once b)))),
     total_counter ''tgw_updates_forwarded_total'' ''Updates fanned out to WebSocket clients'' (updates_forwarded_total c),
     total_counter ''tgw_http_requests_total'' ''HTTP requests handled'' (http_requests_total c),
     total_counter ''tgw_http_responses_4xx_total'' ''HTTP 4xx responses'' (http_responses_4xx_total c),
     total_counter ''tgw_http_responses_5xx_total'' ''HTTP 5xx responses'' (http_responses_5xx_total c),
     total_counter ''tgw_ws_slow_disconnects_total'' ''WS clients dropped by back-pressure'' (ws_slow_disconnects_total c),
     total_counter ''tgw_kafka_produced_total'' ''Events acknowledged by Kafka'' (kafka_produced_total c),
     total_counter ''tgw_kafka_failed_total'' ''Events failed after librdkafka retries'' (kafka_failed_total c),
     total_counter ''tgw_kafka_dropped_total'' ''Events dropped on full producer queue'' (kafka_dropped_total c),
     total_counter ''tgw_webhook_delivered_total'' ''Webhook POSTs acknowledged with 2xx'' (webhook_delivered_total c),
     total_counter ''tgw_webhook_failed_total'' ''Webhook POSTs failed (non-2xx or transport)'' (webhook_failed_total c),
     total_counter ''tgw_webhook_dropped_total'' ''Webhook events dropped on full dispatch queue'' (webhook_dropped_total c)]"

definition renderMetrics :: "bridge \<Rightarrow> auth \<Rightarrow> registry \<Rightarrow> counters \<Rightarrow> string" where
  "renderMetrics b a r c = concat (map metricText (gatewayMetrics b a r c))"

section \<open>What a scraper reads\<close>

text \<open>The text format as its readers take it: a line that starts with \<open>#\<close> is a comment, another one is a
  sample, its name with the labels as far as the first blank and its value after it.\<close>

definition scrape :: "string \<Rightarrow> (string \<times> string) list" where
  "scrape page = map (\<lambda>l. (takeWhile (\<lambda>x. x \<noteq> CHR '' '') l, drop 1 (dropWhile (\<lambda>x. x \<noteq> CHR '' '') l)))
     (filter (\<lambda>l. l \<noteq> [] \<and> hd l \<noteq> CHR ''#'') (getlines (CHR 0x0A) page))"

definition plain :: "string \<Rightarrow> bool" where
  "plain s \<longleftrightarrow> CHR 0x0A \<notin> set s"

lemma plain_simps [simp]:
  "plain []"
  "plain (c # s) \<longleftrightarrow> c \<noteq> CHR 0x0A \<and> plain s"
  "plain (s @ t) \<longleftrightarrow> plain s \<and> plain t"
  by (auto simp: plain_def)

definition readable :: "metric \<Rightarrow> bool" where
  "readable m \<longleftrightarrow> plain (mt_help m) \<and> plain (mt_name m) \<and> plain (mt_kind m) \<and> plain (mt_labels m) \<and> plain (mt_value m)
     \<and> mt_name m \<noteq> [] \<and> hd (mt_name m) \<noteq> CHR ''#'' \<and> CHR '' '' \<notin> set (mt_name m @ mt_labels m)"

lemma getlines_line: "plain l \<Longrightarrow> getlines (CHR 0x0A) (l @ newline @ s) = l # getlines (CHR 0x0A) s"
  by (simp add: newline_def getlines_item plain_def)

definition sampleLine :: "string \<Rightarrow> (string \<times> string) list" where
  "sampleLine l = (if l \<noteq> [] \<and> hd l \<noteq> CHR ''#''
     then [(takeWhile (\<lambda>x. x \<noteq> CHR '' '') l, drop 1 (dropWhile (\<lambda>x. x \<noteq> CHR '' '') l))] else [])"

lemma scrape_line: "plain l \<Longrightarrow> scrape (l @ newline @ s) = sampleLine l @ scrape s"
  by (simp add: scrape_def getlines_line sampleLine_def)

lemma sampleLine_comment: "sampleLine (CHR ''#'' # l) = []"
  by (simp add: sampleLine_def)

lemma sampleLine_sample:
  assumes "n \<noteq> []" "hd n \<noteq> CHR ''#''" "CHR '' '' \<notin> set n"
  shows "sampleLine (n @ '' '' @ v) = [(n, v)]"
proof -
  have "takeWhile (\<lambda>x. x \<noteq> CHR '' '') (n @ '' '' @ v) = n" "dropWhile (\<lambda>x. x \<noteq> CHR '' '') (n @ '' '' @ v) = '' '' @ v"
    using assms(3) by (subst takeWhile_append2 dropWhile_append2; auto)+
  with assms(1,2) show ?thesis by (simp add: sampleLine_def)
qed

lemma scrape_metric:
  assumes "readable m"
  shows "scrape (metricText m @ page) = (mt_name m @ mt_labels m, mt_value m) # scrape page"
proof -
  let ?n = "mt_name m @ mt_labels m"
  have p: "plain (''# HELP '' @ mt_name m @ '' '' @ mt_help m)" "plain (''# TYPE '' @ mt_name m @ '' '' @ mt_kind m)"
      "plain (?n @ '' '' @ mt_value m)"
    using assms by (simp_all add: readable_def)
  have s: "sampleLine (?n @ '' '' @ mt_value m) = [(?n, mt_value m)]"
    using assms by (intro sampleLine_sample) (auto simp: readable_def hd_append)
  have c: "sampleLine (''# HELP '' @ mt_name m @ '' '' @ mt_help m) = []"
      "sampleLine (''# TYPE '' @ mt_name m @ '' '' @ mt_kind m) = []"
    by (simp_all add: sampleLine_comment)
  have "metricText m @ page = (''# HELP '' @ mt_name m @ '' '' @ mt_help m) @ newline
      @ (''# TYPE '' @ mt_name m @ '' '' @ mt_kind m) @ newline @ (?n @ '' '' @ mt_value m) @ newline @ page"
    unfolding metricText_def append.assoc ..
  then have "scrape (metricText m @ page) = [] @ [] @ [(?n, mt_value m)] @ scrape page"
    by (simp only: scrape_line [OF p(1)] scrape_line [OF p(2)] scrape_line [OF p(3)] s c)
  then show ?thesis by simp
qed

lemma scrape_metrics:
  "list_all readable ms \<Longrightarrow> scrape (concat (map metricText ms)) = map (\<lambda>m. (mt_name m @ mt_labels m, mt_value m)) ms"
  by (induction ms) (simp_all add: scrape_metric, simp add: scrape_def getlines_def)

lemma digits_plain: "plain (nat_to_string n)"
  using nat_to_string_digits [of n] by (auto simp: plain_def list_all_iff is_digit_def)

lemma label_plain: "plain (stateLabel s)" and label_blank: "CHR '' '' \<notin> set (stateLabel s)"
  by (cases s; simp add: stateLabel_def authStateName_def)+

lemma gateway_readable: "list_all readable (gatewayMetrics b a r c)"
  by (simp add: gatewayMetrics_def gauge_def total_counter_def readable_def digits_plain label_plain label_blank)

text \<open>the page can be read back: a reader of the text format finds exactly the fifteen metrics, each once and in
  this order, with the state of the authorization as label, the sizes of the registry and of the table of
  requests in flight, and every counter in full, as decimal text.\<close>

theorem metrics_scraped:
  "scrape (renderMetrics b a r c) =
     (''tgw_ready'', if au_state a = Ready then ''1'' else ''0'')
     # (''tgw_auth_state'' @ stateLabel (au_state a), ''1'')
     # map (\<lambda>(name, n). (name, nat_to_string n))
      [(''tgw_ws_subscribers'', length (rg_connections r)),
       (''tgw_bridge_inflight'', length (table (b_once b))),
       (''tgw_updates_forwarded_total'', unat (updates_forwarded_total c)),
       (''tgw_http_requests_total'', unat (http_requests_total c)),
       (''tgw_http_responses_4xx_total'', unat (http_responses_4xx_total c)),
       (''tgw_http_responses_5xx_total'', unat (http_responses_5xx_total c)),
       (''tgw_ws_slow_disconnects_total'', unat (ws_slow_disconnects_total c)),
       (''tgw_kafka_produced_total'', unat (kafka_produced_total c)),
       (''tgw_kafka_failed_total'', unat (kafka_failed_total c)),
       (''tgw_kafka_dropped_total'', unat (kafka_dropped_total c)),
       (''tgw_webhook_delivered_total'', unat (webhook_delivered_total c)),
       (''tgw_webhook_failed_total'', unat (webhook_failed_total c)),
       (''tgw_webhook_dropped_total'', unat (webhook_dropped_total c))]"
  unfolding renderMetrics_def scrape_metrics [OF gateway_readable]
  by (simp add: gatewayMetrics_def gauge_def total_counter_def)

section \<open>The counts\<close>

text \<open>after any responses the counters hold, modulo the width of the word, how many there were, how many with a
  status from 400 to 499, and how many with a greater one; no other counter is touched.\<close>

theorem responses_counted:
  "fold countResponse codes c = c\<lparr>http_requests_total := http_requests_total c + of_nat (length codes),
     http_responses_4xx_total := http_responses_4xx_total c + of_nat (length (filter (\<lambda>s. 400 \<le> s \<and> s < 500) codes)),
     http_responses_5xx_total := http_responses_5xx_total c + of_nat (length (filter (\<lambda>s. 500 \<le> s) codes))\<rparr>"
  by (induction codes arbitrary: c) (auto simp: countResponse_def Let_def)

lemma slow_counted:
  "countSlow slow c = c\<lparr>ws_slow_disconnects_total := ws_slow_disconnects_total c + of_nat (length slow)\<rparr>"
  unfolding countSlow_def by (induction slow arbitrary: c) auto

end
