(* ===== verification/Spec2Isabelle.thy ===== *)
theory Spec2Isabelle
  imports MainStart SignalDrain LoopThread AuthAttempts SessionSync Gateway WebhookPipeline LoginPage Metrics UploadCleanup Base64 ByteRange Dto Tokens Idempotency Bridge SendTracker AuthFsm WsRegistry UpdateRouter
    WebhookContext RouteProps Startup KafkaSink WebhookDispatcher S3Client
begin

text \<open>
  A verification development for the Telegram REST gateway, a C++ service that puts an HTTP and WebSocket
  interface in front of TDLib. The paths of this header are relative to \<^verbatim>\<open>src/src/\<close>. The definitions are
  translations of the sources, executable where the code is; what is not under \<^verbatim>\<open>src/\<close> (TDLib, Drogon,
  librdkafka, OpenSSL, jsoncpp's text form, the file system, \<^verbatim>\<open>inet_pton\<close>) is a parameter or an answer of an
  environment, and what is assumed of it stands in the hypotheses.

  How the program works. TDLib's receiver thread hands every object to \<^verbatim>\<open>TdBridge\<close>: a response resumes the
  coroutine that waits under its request id, an update goes to \<^verbatim>\<open>UpdateRouter\<close>, which feeds the authorization
  state, the send tracker, the WebSocket subscribers, Kafka and the webhooks. HTTP requests pass the bearer
  filter and run as handlers that suspend in the bridge. Timers sweep expired requests; a shutdown drains what
  waits. The configuration is read once at the start.

  The theories, each with the sources it models and what its lemmas show.

  \<^descr> \<open>Prelude\<close>, \<open>CppStrings\<close>, \<open>Json\<close>, \<open>TdApi\<close>: machine words, results of code that throws, the string and number
    functions of the C++ library, JSON documents, and the part of TDLib's object model the code reads.
  \<^descr> \<open>Base64\<close> (\<^verbatim>\<open>util/base64.cpp\<close>): encoder and table-driven decoder over 32-bit words; round trip, accepted texts.
  \<^descr> \<open>ByteRange\<close> (\<^verbatim>\<open>http/byte_range.hpp\<close>): the three forms of a range on every branch, inside the file.
  \<^descr> \<open>HttpHelpers\<close> (\<^verbatim>\<open>http/http_helpers.hpp\<close>): responses, TDLib errors as HTTP statuses, \<^verbatim>\<open>parseId\<close>.
  \<^descr> \<open>Dto\<close> (\<^verbatim>\<open>dto/\<close>): the projections of TDLib objects into JSON.
  \<^descr> \<open>Tokens\<close> (\<^verbatim>\<open>auth/token_store\<close>, \<^verbatim>\<open>http/bearer_*\<close>, \<^verbatim>\<open>scope_policy\<close>, \<^verbatim>\<open>route_table\<close>): tokens, scopes as bits of an
    8-bit word, the filter; no path of administration passes without the admin scope.
  \<^descr> \<open>Idempotency\<close> (\<^verbatim>\<open>http/idempotency_cache.hpp\<close>): the cache as a state transformer with its invariant.
  \<^descr> \<open>ResolveOnce\<close>: the discipline bridge and tracker share (one state per waiter, claimed by whoever takes it out
    of the table) as atomic actions on one record, with the locale of the table both interpret; \<open>Bridge\<close>
    (\<^verbatim>\<open>bridge/td_bridge.cpp\<close>, \<^verbatim>\<open>correlation_map\<close>) and \<open>SendTracker\<close> (\<^verbatim>\<open>bridge/message_send_tracker.cpp\<close>) as step
    relations: every waiter is resumed exactly once with its own result, in every interleaving.
  \<^descr> \<open>AuthFsm\<close> (\<^verbatim>\<open>auth/auth_state*\<close>): the authorization state, its generation, the two callbacks.
  \<^descr> \<open>WsRegistry\<close>, \<open>UpdateRouter\<close> (\<^verbatim>\<open>ws/\<close>): subscribers, filters, back-pressure; projection, numbering and routing.
  \<^descr> \<open>WebhookContext\<close> (\<^verbatim>\<open>ws/owner_mention_detector.hpp\<close>, \<^verbatim>\<open>webhook/context_builder.cpp\<close>): when an event is sent and
    the loop over the answered messages; \<open>WebhookRegistry\<close> (\<^verbatim>\<open>webhook/webhook_registry.cpp\<close>,
    \<^verbatim>\<open>http/webhook_routes.cpp\<close>): the receivers as a map, what a restart finds; \<open>WebhookUrl\<close> and
    \<open>WebhookDispatcher\<close> (\<^verbatim>\<open>webhook/webhook_dispatcher.cpp\<close>): URL parser, address guard, and queue, worker, loop
    and shutdown as a step relation.
  \<^descr> \<open>BoundedQueue\<close>: the locale of a bounded queue and its refinement of a list, interpreted by the dispatcher and by
    \<open>KafkaSink\<close> (\<^verbatim>\<open>events/kafka_sink.cpp\<close>).
  \<^descr> \<open>Tasks\<close>: handlers as trees of their effects (an upload's write and the close that flushes it are two) and \<open>serve\<close>, which runs a tree against any environment;
    \<open>RouteHelpers\<close>, \<open>TypingDelay\<close> (\<^verbatim>\<open>http/typing_delay.hpp\<close>), \<open>MessageRoutes\<close>, \<open>DirectoryRoutes\<close>, \<open>AuthRoutes\<close>
    (\<^verbatim>\<open>http/message_routes.cpp\<close>, \<^verbatim>\<open>directory_routes.cpp\<close>, \<^verbatim>\<open>routes.cpp\<close>) hold one definition per handler,
    \<open>Endpoints\<close> all of them with the proof that none crashes, \<open>SendText\<close> and \<open>RouteProps\<close> the theorems about
    what a request does.
  \<^descr> \<open>SessionStore\<close> (\<^verbatim>\<open>auth/session_io.cpp\<close>, \<^verbatim>\<open>auth/s3_session.cpp\<close>): the session file through its system calls,
    restore and export, and the synchronisation with S3 as a step relation (the parts of one synchronisation, and
    a PUT that was given up and takes effect later, are steps of their own); \<open>S3Client\<close> (\<^verbatim>\<open>util/s3_client.cpp\<close>,
    \<^verbatim>\<open>util/aws_sigv4.cpp\<close>): the signed request, its retry, and the life of the shared loop thread; \<open>SessionSync\<close>: the
    synchronisation comes to rest with the file in S3 while no PUT fails, so that a login then outlives a process
    that is killed.
  \<^descr> \<open>Config\<close> (\<^verbatim>\<open>config/config.cpp\<close>): the settings in their order, the first error decides; \<open>Startup\<close>: the bring-up of
    the session (\<^verbatim>\<open>auth/startup_bootstrapper.cpp\<close>) and the configuration against the send route.
  \<^descr> \<open>Metrics\<close> (\<^verbatim>\<open>util/metrics\<close>, \<^verbatim>\<open>http/metrics_routes.cpp\<close>): the counters and the page, read back line by line;
    \<open>UploadCleanup\<close> (\<^verbatim>\<open>http/upload_cleanup.cpp\<close>): a sweep over a directory that may refuse, and the life of an upload.
  \<^descr> \<open>MainWiring\<close>, \<open>Shutdown\<close>, \<open>Process\<close> (\<^verbatim>\<open>main.cpp\<close>): the health probe, which session a start goes on with, the
    hooks and callbacks that join the parts, and the exit code; how long the end takes and what session it leaves
    behind; the parts side by side as one step relation while the main thread stops them, which composes the
    models of the bridge, the tracker, the dispatcher and the Kafka sink.
  \<^descr> \<open>WebhookPipeline\<close>: the way of a webhook through router, hook, dispatcher and registry as one step relation:
    what stands behind every request that leaves, with the account known when the update was taken as its owner,
    and what a removal means.
  \<^descr> \<open>LoginPage\<close> (\<^verbatim>\<open>http/login_ui.cpp\<close>): the script of the page as a machine of clicks, ticks and answers, what it
    shows for each state the gateway reports, and that the gateway accepts what it sends.
  \<^descr> \<open>Gateway\<close>: the bridge under the handlers: what a handler receives is the answer to its own request or one of
    the gateway's errors, with the status the client then sees.
  \<^descr> \<open>Surface\<close> (the calls of \<^verbatim>\<open>registerHandler\<close> in \<^verbatim>\<open>http/\<close>): every route with its path, its constraints and its
    handler; which token a request needs to reach a handler, for any router that keeps to the patterns; \<open>Authority\<close>:
    every effect of every handler against the scopes of the token its request came with; \<open>AuthAttempts\<close>: how many
    codes and passwords all requests together can have had checked.
  \<^descr> \<open>WebhookStore\<close> (\<^verbatim>\<open>S3WebhookStore\<close> in \<^verbatim>\<open>webhook/webhook_registry.cpp\<close>): the receivers over many lives of the
    process: restarts cannot be noticed while S3 answers and the list is UTF-8 text, and what a start during an outage forgets. \<open>LoopThread\<close>
    (\<^verbatim>\<open>detail::LoopThread\<close> in \<^verbatim>\<open>webhook/webhook_dispatcher.cpp\<close>): the hand-over of the loop to its owner and its end.
  \<^descr> \<open>MainStart\<close> (\<^verbatim>\<open>main.cpp\<close>, \<^verbatim>\<open>bridge/real_transport.cpp\<close>): the start as the list of main's actions and the receiver
    thread between any two of them: the order of the start, that no update finds a callback missing, and what a failed
    start leaves. \<open>SignalDrain\<close>: main's thread that waits for the signals, its drains taken apart into their critical
    sections and interleaved with the bridge, the tracker and the loops: what waited when it drained is answered
    before the server is told to quit, what comes later is left to the end of \<open>Process\<close>.

  Concurrency. Where threads share state, the state is one record, every critical section or atomic operation a
  function on it, and a step relation admits any of them in any order; the theorems are invariants of all
  reachable states or statements about every sequence of steps. Where a handler suspends, the environment's
  next answer may depend on all that happened before, which covers whatever other requests did in between.

  Bounds and fuel. No definition uses fuel. The loops over text, lists and trees are structural; the reply chain
  ends by its count, the typing loop by the time left, the drain of the Kafka worker by the queue,
  the waits of the shutdown by their budget (\<open>poll_wait\<close>). Integers are
  words or integers with explicit bounds where the code depends on the width: request ids, generations,
  counters and file sizes are 64-bit words, token scopes 8-bit, the fields of an IPv4 address 32-bit; TDLib's
  ids are integers within 64 bits where a theorem says so. \<^verbatim>\<open>long\<close> is taken to be 64 bits wide. The typing
  pause is computed over rationals, without the rounding of \<^verbatim>\<open>double\<close>.

  Not modelled: the bodies of TDLib, Drogon, librdkafka and OpenSSL; thread creation and joining beyond their
  place in an order of steps; log output; the styles and the QR encoder in the login page; Drogon's matching of a
  path against a pattern, of which \<open>Surface\<close> uses only that it respects the literal part; in \<^verbatim>\<open>main.cpp\<close> a signal
  that arrives while the process already ends by itself.
\<close>

end
